(* ===== verification/Prelude.thy ===== *)
theory Prelude
  imports Main "HOL-Library.Word" "HOL-Library.List_Lexorder" "HOL-Library.Char_ord"
    "HOL-Library.Sublist" "HOL-Library.Multiset"
begin

text \<open>
  What the component theories share: the types of bytes and texts, the collections of
  facts that carry the component proofs, the two codec interfaces, and generic lemmas on
  lists and sums.

  Go's \<^verbatim>\<open>byte\<close> is an 8-bit word and \<^verbatim>\<open>[]byte\<close> a list of them; a Go string that holds text
  is a \<^typ>\<open>string\<close>, whose characters are bytes as well, so \<^verbatim>\<open>len\<close> is \<^const>\<open>length\<close> on both.
\<close>

type_synonym byte = "8 word"
type_synonym bytes = "byte list"
type_synonym u32 = "32 word"
type_synonym u64 = "64 word"

named_theorems go_simps "unfolding rules of the combinators that programs are written with"
named_theorems owns "introduction rules of the ownership logic"

section \<open>Texts as bytes\<close>

definition bytes_of :: "string \<Rightarrow> bytes" where
  "bytes_of s = map (\<lambda>c. word_of_nat (of_char c)) s"

definition text_of :: "bytes \<Rightarrow> string" where
  "text_of b = map (\<lambda>w. char_of (unat w)) b"

lemma unat_byte_less [simp]: "unat (w :: byte) < 256"
proof -
  have "unat w < 2 ^ LENGTH(8)"
    by (rule unsigned_less)
  then show ?thesis by simp
qed

lemma unat_byte_of_nat: "m < 256 \<Longrightarrow> unat (word_of_nat m :: byte) = m"
  by (simp add: unsigned_of_nat take_bit_nat_eq_self)

lemma unat_byte_mod [simp]: "unat (w :: byte) mod 256 = unat w"
  by simp

lemma char_byte_char [simp]: "char_of (unat (word_of_nat (of_char c) :: byte)) = c"
  by (simp add: unsigned_of_nat take_bit_eq_mod)

lemma text_of_bytes_of [simp]: "text_of (bytes_of s) = s"
  by (induction s) (simp_all add: text_of_def bytes_of_def)

lemma bytes_of_text_of [simp]: "bytes_of (text_of b) = b"
  by (induction b) (simp_all add: text_of_def bytes_of_def)

lemma length_bytes_of [simp]: "length (bytes_of s) = length s"
  by (simp add: bytes_of_def)

lemma length_text_of [simp]: "length (text_of b) = length b"
  by (simp add: text_of_def)

lemma bytes_of_append [simp]: "bytes_of (s @ t) = bytes_of s @ bytes_of t"
  by (simp add: bytes_of_def)

lemma bytes_of_inject [simp]: "bytes_of s = bytes_of t \<longleftrightarrow> s = t"
  by (metis text_of_bytes_of)

lemma text_of_inject [simp]: "text_of s = text_of t \<longleftrightarrow> s = t"
  by (metis bytes_of_text_of)

section \<open>Codecs\<close>

text \<open>
  A codec is an encoder with a decoder that undoes it on the values the encoder is meant
  for. A prefix codec decodes from the front of a longer input and hands the rest back, so
  that encodings can be concatenated.
\<close>

locale codec =
  fixes enc :: "'a \<Rightarrow> 'b"
    and dec :: "'b \<Rightarrow> 'e + 'a"
    and ok :: "'a \<Rightarrow> bool"
  assumes dec_enc: "ok x \<Longrightarrow> dec (enc x) = Inr x"
begin

lemma enc_inj: "ok x \<Longrightarrow> ok y \<Longrightarrow> enc x = enc y \<longleftrightarrow> x = y"
  by (metis dec_enc sum.inject(2))

lemma inj_on_enc: "inj_on enc {x. ok x}"
  by (auto simp: inj_on_def enc_inj)

end

locale prefix_codec =
  fixes enc :: "'a \<Rightarrow> 'b list"
    and dec :: "'b list \<Rightarrow> ('e + 'a) \<times> 'b list"
    and ok :: "'a \<Rightarrow> bool"
  assumes dec_append: "ok x \<Longrightarrow> dec (enc x @ rest) = (Inr x, rest)"
begin

lemma dec_exact: "ok x \<Longrightarrow> dec (enc x) = (Inr x, [])"
  using dec_append [of x "[]"] by simp

text \<open>Two concatenations that start with an encoding agree only piecewise.\<close>

lemma enc_append_eq:
  "ok x \<Longrightarrow> ok y \<Longrightarrow> enc x @ r = enc y @ s \<longleftrightarrow> x = y \<and> r = s"
  by (metis dec_append prod.inject sum.inject(2))

end

text \<open>A prefix codec, used on a whole message, is a codec.\<close>

sublocale prefix_codec \<subseteq> codec enc "\<lambda>b. fst (dec b)" ok
  by unfold_locales (simp add: dec_exact)

section \<open>Lists\<close>

lemma filter_sorted_insort [simp]: "sorted (sort xs)"
  by simp

lemma foldl_snoc_length:
  "length (foldl (\<lambda>acc x. acc @ f x) a xs) = length a + sum_list (map (\<lambda>x. length (f x)) xs)"
  by (induction xs arbitrary: a) auto

lemma map_take_drop_id: "take n xs @ drop n xs = xs"
  by simp

text \<open>The first element that satisfies a test, as a loop that returns it finds it.\<close>

fun find_first :: "('a \<Rightarrow> bool) \<Rightarrow> 'a list \<Rightarrow> 'a option" where
  "find_first p [] = None"
| "find_first p (x # xs) = (if p x then Some x else find_first p xs)"

lemma find_first_None [simp]: "find_first p xs = None \<longleftrightarrow> (\<forall>x \<in> set xs. \<not> p x)"
  by (induction xs) auto

lemma find_first_Some:
  "find_first p xs = Some x \<Longrightarrow> x \<in> set xs \<and> p x"
  by (induction xs) (auto split: if_splits)

text \<open>Duplicates dropped, the first occurrence kept: a loop with a \<^verbatim>\<open>seen\<close> set.\<close>

fun uniq :: "'a set \<Rightarrow> 'a list \<Rightarrow> 'a list" where
  "uniq seen [] = []"
| "uniq seen (x # xs) = (if x \<in> seen then uniq seen xs else x # uniq (insert x seen) xs)"

lemma set_uniq [simp]: "set (uniq seen xs) = set xs - seen"
  by (induction xs arbitrary: seen) auto

lemma distinct_uniq [simp]: "distinct (uniq seen xs)"
  by (induction xs arbitrary: seen) auto

lemma uniq_id: "distinct xs \<Longrightarrow> set xs \<inter> seen = {} \<Longrightarrow> uniq seen xs = xs"
  by (induction xs arbitrary: seen) auto

lemma subseq_uniq: "subseq (uniq seen xs) xs"
  by (induction xs arbitrary: seen) auto

end
