(* ===== verification/GoIO.thy ===== *)
theory GoIO
  imports GoStrings
begin

text \<open>
  How the programs' effects are modelled: Go errors as values, a library call as an event
  answered by a world, and the statement forms of Go (\<^verbatim>\<open>if err != nil { return err }\<close>,
  \<^verbatim>\<open>defer\<close>, \<^verbatim>\<open>for\<close>) as combinators over a state. A program's state is the history of the
  calls made so far; the world, an argument of every program, answers a call from the whole
  history, so a theorem for every world holds however the library, the network and the
  file system behave. The second half is a logic of ownership, by which a program is shown
  to release what it opened on every path.
\<close>

section \<open>Errors\<close>

text \<open>
  \<^verbatim>\<open>Err\<close> is an error known by its text (\<^verbatim>\<open>errors.New\<close> or one of a library), \<^verbatim>\<open>Wrapf p e\<close> is
  \<^verbatim>\<open>fmt.Errorf("p: %w", e)\<close>, the others are sentinels the programs test for. \<^verbatim>\<open>ErrFuel\<close>
  belongs to the model: a loop was cut off after the number of rounds it was given.
\<close>

datatype gerr =
    Err string
  | Wrapf string gerr
  | ErrUsage
  | ErrHelp
  | ErrNotExist
  | ErrEOF
  | ErrUnexpectedEOF
  | ErrTLSHandshake string
  | AppError (app_remote: bool) (app_code: nat) (app_reason: string) (app_text: string)
  | ErrFuel

fun err_text :: "gerr \<Rightarrow> string" where
  "err_text (Err s) = s"
| "err_text (Wrapf p e) = p @ '': '' @ err_text e"
| "err_text ErrUsage = ''usage''"
| "err_text ErrHelp = ''flag: help requested''"
| "err_text ErrNotExist = ''file does not exist''"
| "err_text ErrEOF = ''EOF''"
| "err_text ErrUnexpectedEOF = ''unexpected EOF''"
| "err_text (ErrTLSHandshake s) = s"
| "err_text (AppError r c m t) = t"
| "err_text ErrFuel = []"

text \<open>\<^verbatim>\<open>errors.Is\<close> and \<^verbatim>\<open>iroh.AsApplicationError\<close>: along the chain of wrapped errors.\<close>

fun err_is :: "gerr \<Rightarrow> gerr \<Rightarrow> bool" where
  "err_is t (Wrapf p e) = (t = Wrapf p e \<or> err_is t e)"
| "err_is t e = (t = e)"

fun as_app_error :: "gerr \<Rightarrow> gerr option" where
  "as_app_error (AppError r c m t) = Some (AppError r c m t)"
| "as_app_error (Wrapf p e) = as_app_error e"
| "as_app_error e = None"

fun is_tls_failure :: "gerr \<Rightarrow> bool" where
  "is_tls_failure (ErrTLSHandshake s) = True"
| "is_tls_failure (Wrapf p e) = is_tls_failure e"
| "is_tls_failure e = False"

lemma err_is_refl [simp]: "err_is e e"
  by (cases e) auto

section \<open>Histories and programs\<close>

text \<open>
  An event is a call that succeeded, a call that failed, or a line written to standard
  output or standard error. The newest event is the head. What a successful call returns
  as a new object is named by the position of its event.
\<close>

datatype 'c event = Did 'c | Failed 'c gerr | Out string | ErrOut string

type_synonym 'c hist = "'c event list"
type_synonym ('s, 'a) go = "'s \<Rightarrow> (gerr + 'a) \<times> 's"

record 'c world =
  fails :: "'c hist \<Rightarrow> 'c \<Rightarrow> gerr option"
  got_bytes :: "'c hist \<Rightarrow> 'c \<Rightarrow> bytes"
  got_text :: "'c hist \<Rightarrow> 'c \<Rightarrow> string"
  got_texts :: "'c hist \<Rightarrow> 'c \<Rightarrow> string list"
  got_nat :: "'c hist \<Rightarrow> 'c \<Rightarrow> nat"
  got_flag :: "'c hist \<Rightarrow> 'c \<Rightarrow> bool"

definition go_ret :: "'a \<Rightarrow> ('s, 'a) go" where
  "go_ret x h = (Inr x, h)"

definition go_fail :: "gerr \<Rightarrow> ('s, 'a) go" where
  "go_fail e h = (Inl e, h)"

text \<open>A pure function's result, returned.\<close>

definition go_lift :: "gerr + 'a \<Rightarrow> ('s, 'a) go" where
  "go_lift r h = (r, h)"

text \<open>\<^verbatim>\<open>x, err := m; if err != nil { return err }; k\<close>\<close>

definition go_try :: "('s, 'a) go \<Rightarrow> ('a \<Rightarrow> ('s, 'b) go) \<Rightarrow> ('s, 'b) go" where
  "go_try m k h = (case m h of (Inl e, h') \<Rightarrow> (Inl e, h') | (Inr x, h') \<Rightarrow> k x h')"

text \<open>\<^verbatim>\<open>x, err := m\<close>, both handed to what follows.\<close>

definition go_catch :: "('s, 'a) go \<Rightarrow> (gerr + 'a \<Rightarrow> ('s, 'b) go) \<Rightarrow> ('s, 'b) go" where
  "go_catch m k h = (case m h of (r, h') \<Rightarrow> k r h')"

text \<open>\<^verbatim>\<open>return fmt.Errorf("p: %w", err)\<close> in place of \<^verbatim>\<open>return err\<close>.\<close>

definition go_wrap :: "string \<Rightarrow> ('s, 'a) go \<Rightarrow> ('s, 'a) go" where
  "go_wrap p m h = (case m h of (Inl e, h') \<Rightarrow> (Inl (Wrapf p e), h') | (Inr x, h') \<Rightarrow> (Inr x, h'))"

text \<open>
  \<^verbatim>\<open>defer c\<close> before the rest of the function's body: \<open>c\<close> runs when the body has returned,
  with or without an error, and what it returns is dropped. Nested \<^verbatim>\<open>defer\<close>s run last in,
  first out, as Go's do.
\<close>

definition go_defer :: "('s, 'u) go \<Rightarrow> ('s, 'a) go \<Rightarrow> ('s, 'a) go" where
  "go_defer c m h = (case m h of (r, h') \<Rightarrow> (r, snd (c h')))"

text \<open>Statement order where the first one's result is ignored (\<^verbatim>\<open>_ = m\<close>).\<close>

definition go_then :: "('s, 'u) go \<Rightarrow> ('s, 'a) go \<Rightarrow> ('s, 'a) go" where
  "go_then m k h = k (snd (m h))"

definition println :: "string \<Rightarrow> ('c hist, unit) go" where
  "println s h = (Inr (), Out s # h)"

definition eprintln :: "string \<Rightarrow> ('c hist, unit) go" where
  "eprintln s h = (Inr (), ErrOut s # h)"

text \<open>Lines printed one after the other.\<close>

fun println_all :: "string list \<Rightarrow> ('c hist, unit) go" where
  "println_all [] = go_ret ()"
| "println_all (s # ss) = go_then (println s) (println_all ss)"

text \<open>
  A library call: it fails as the world says, or succeeds with a new object named by the
  position of its event.
\<close>

definition invoke :: "'c world \<Rightarrow> 'c \<Rightarrow> ('c hist, nat) go" where
  "invoke W c h =
     (case fails W h c of
        Some e \<Rightarrow> (Inl e, Failed c e # h)
      | None \<Rightarrow> (Inr (length h), Did c # h))"

text \<open>A call that returns a value of the world's next to \<^verbatim>\<open>nil\<close>.\<close>

definition invoke_get ::
  "'c world \<Rightarrow> ('c world \<Rightarrow> 'c hist \<Rightarrow> 'c \<Rightarrow> 'v) \<Rightarrow> 'c \<Rightarrow> ('c hist, 'v) go" where
  "invoke_get W get c h =
     (case fails W h c of
        Some e \<Rightarrow> (Inl e, Failed c e # h)
      | None \<Rightarrow> (Inr (get W h c), Did c # h))"

text \<open>A call that cannot fail and returns a value.\<close>

definition query ::
  "'c world \<Rightarrow> ('c world \<Rightarrow> 'c hist \<Rightarrow> 'c \<Rightarrow> 'v) \<Rightarrow> 'c \<Rightarrow> ('c hist, 'v) go" where
  "query W get c h = (Inr (get W h c), Did c # h)"

text \<open>
  \<^verbatim>\<open>for { ... }\<close> with at most the given number of rounds: a round returns from the function
  (\<^verbatim>\<open>Inl\<close>) or goes on with a new loop state (\<^verbatim>\<open>Inr\<close>).
\<close>

fun go_loop :: "nat \<Rightarrow> ('i \<Rightarrow> ('s, 'a + 'i) go) \<Rightarrow> 'i \<Rightarrow> ('s, 'a) go" where
  "go_loop 0 body s = go_fail ErrFuel"
| "go_loop (Suc n) body s =
     go_try (body s) (\<lambda>r. case r of Inl x \<Rightarrow> go_ret x | Inr s' \<Rightarrow> go_loop n body s')"

text \<open>\<^verbatim>\<open>for _, x := range xs { body }\<close> where the body may return an error.\<close>

fun go_each :: "('x \<Rightarrow> ('s, unit) go) \<Rightarrow> 'x list \<Rightarrow> ('s, unit) go" where
  "go_each body [] = go_ret ()"
| "go_each body (x # xs) = go_try (body x) (\<lambda>_. go_each body xs)"

lemma go_eval [go_simps]:
  "go_ret x st = (Inr x, st)"
  "go_fail e st' = (Inl e, st')"
  "println s h = (Inr (), Out s # h)"
  "eprintln s h' = (Inr (), ErrOut s # h')"
  by (simp_all add: go_ret_def go_fail_def println_def eprintln_def)

lemmas go_unfold [go_simps] =
  go_lift_def
  go_try_def go_catch_def go_wrap_def go_defer_def go_then_def
  invoke_def invoke_get_def query_def

lemma if_app [go_simps]: "(if b then m else n) h = (if b then m h else n h)"
  by simp

lemma go_try_ret [simp]: "go_try (go_ret x) k = k x"
  by (simp add: fun_eq_iff go_try_def go_ret_def)

lemma go_try_lift [simp]:
  "go_try (go_lift (Inr x)) k = k x" "go_try (go_lift (Inl e)) k = go_fail e"
  by (simp_all add: fun_eq_iff go_try_def go_lift_def go_fail_def)

lemma go_try_assoc: "go_try (go_try m k) l = go_try m (\<lambda>x. go_try (k x) l)"
  by (simp add: fun_eq_iff go_try_def split: sum.splits prod.splits)

section \<open>What a history shows\<close>

text \<open>The lines written to standard output, oldest first.\<close>

fun stdout_of :: "'c hist \<Rightarrow> string list" where
  "stdout_of [] = []"
| "stdout_of (Out s # h) = stdout_of h @ [s]"
| "stdout_of (e # h) = stdout_of h"

fun stderr_of :: "'c hist \<Rightarrow> string list" where
  "stderr_of [] = []"
| "stderr_of (ErrOut s # h) = stderr_of h @ [s]"
| "stderr_of (e # h) = stderr_of h"

text \<open>The calls made, oldest first, successful or not.\<close>

fun calls :: "'c hist \<Rightarrow> 'c list" where
  "calls [] = []"
| "calls (Did c # h) = calls h @ [c]"
| "calls (Failed c e # h) = calls h @ [c]"
| "calls (e # h) = calls h"

text \<open>
  What is open: the objects that successful calls open (\<open>opens c n\<close>, for the call \<open>c\<close> as
  event \<open>n\<close>), less those a later call releases. A call that releases does so whether or
  not it reports an error.
\<close>

fun leaked :: "('c \<Rightarrow> nat \<Rightarrow> 'k set) \<Rightarrow> ('c \<Rightarrow> 'k set) \<Rightarrow> 'c hist \<Rightarrow> 'k set" where
  "leaked opens frees [] = {}"
| "leaked opens frees (Did c # h) =
     (leaked opens frees h - frees c) \<union> opens c (length h)"
| "leaked opens frees (Failed c e # h) = leaked opens frees h - frees c"
| "leaked opens frees (Out s # h) = leaked opens frees h"
| "leaked opens frees (ErrOut s # h) = leaked opens frees h"

section \<open>Ownership\<close>

text \<open>
  \<open>owns opens frees S m own\<close>: the program \<open>m\<close> is given the open objects \<open>S\<close>. If it fails,
  they and everything it opened are released; if it returns \<open>x\<close>, whatever of these is
  still open is among \<open>own x\<close>, which its caller now owns. \<open>drops\<close> is a program that
  releases the objects it is given and opens none, whichever way it ends.
\<close>

definition owns ::
  "('c \<Rightarrow> nat \<Rightarrow> 'k set) \<Rightarrow> ('c \<Rightarrow> 'k set) \<Rightarrow> 'k set \<Rightarrow> ('c hist, 'a) go \<Rightarrow> ('a \<Rightarrow> 'k set) \<Rightarrow> bool" where
  "owns opens frees S m own \<longleftrightarrow>
     (\<forall>h. case m h of
        (Inl e, h') \<Rightarrow> leaked opens frees h' \<subseteq> leaked opens frees h - S
      | (Inr x, h') \<Rightarrow> leaked opens frees h' \<subseteq> (leaked opens frees h - S) \<union> own x)"

definition drops ::
  "('c \<Rightarrow> nat \<Rightarrow> 'k set) \<Rightarrow> ('c \<Rightarrow> 'k set) \<Rightarrow> 'k set \<Rightarrow> ('c hist, 'a) go \<Rightarrow> bool" where
  "drops opens frees S m \<longleftrightarrow>
     (\<forall>h. leaked opens frees (snd (m h)) \<subseteq> leaked opens frees h - S)"

lemma ownsI:
  "(\<And>h e h'. m h = (Inl e, h') \<Longrightarrow> leaked opens frees h' \<subseteq> leaked opens frees h - S) \<Longrightarrow>
   (\<And>h x h'. m h = (Inr x, h') \<Longrightarrow> leaked opens frees h' \<subseteq> (leaked opens frees h - S) \<union> own x) \<Longrightarrow>
   owns opens frees S m own"
  by (auto simp: owns_def split: prod.splits sum.splits)

lemma owns_Inl:
  "owns opens frees S m own \<Longrightarrow> m h = (Inl e, h') \<Longrightarrow>
     leaked opens frees h' \<subseteq> leaked opens frees h - S"
  by (fastforce simp: owns_def split: prod.splits sum.splits)

lemma owns_Inr:
  "owns opens frees S m own \<Longrightarrow> m h = (Inr x, h') \<Longrightarrow>
     leaked opens frees h' \<subseteq> (leaked opens frees h - S) \<union> own x"
  by (fastforce simp: owns_def split: prod.splits sum.splits)

lemma drops_snd: "drops opens frees S m \<Longrightarrow> leaked opens frees (snd (m h)) \<subseteq> leaked opens frees h - S"
  by (simp add: drops_def)


text \<open>
  The rules, one per statement form. A program whose body is built from the combinators is
  proved to own what it should by applying them backwards; a call in the middle of a
  body must own nothing (\<open>{}\<close>), so an object that is open and not yet deferred there
  shows as a goal that cannot be proved: the leak.
\<close>

lemma owns_try:
  assumes m: "owns opens frees S m own" and k: "\<And>x. owns opens frees (own x) (k x) own'"
  shows "owns opens frees S (go_try m k) own'"
proof (rule ownsI)
  fix h e h' assume "go_try m k h = (Inl e, h')"
  then show "leaked opens frees h' \<subseteq> leaked opens frees h - S"
    by (auto simp: go_try_def split: prod.splits sum.splits
        dest: owns_Inl [OF m] owns_Inr [OF m] owns_Inl [OF k])
next
  fix h y h' assume "go_try m k h = (Inr y, h')"
  then show "leaked opens frees h' \<subseteq> (leaked opens frees h - S) \<union> own' y"
    by (fastforce simp: go_try_def split: prod.splits sum.splits
        dest: owns_Inr [OF m] owns_Inr [OF k])
qed

lemma owns_catch:
  assumes m: "owns opens frees {} m own"
    and inl: "\<And>e. owns opens frees S (k (Inl e)) own'"
    and inr: "\<And>x. owns opens frees (S \<union> own x) (k (Inr x)) own'"
  shows "owns opens frees S (go_catch m k) own'"
proof (unfold owns_def, intro allI)
  fix h
  obtain r h1 where mh: "m h = (r, h1)" by fastforce
  obtain r2 h2 where kh: "k r h1 = (r2, h2)" by fastforce
  have "(case r2 of Inl e \<Rightarrow> leaked opens frees h2 \<subseteq> leaked opens frees h - S
      | Inr y \<Rightarrow> leaked opens frees h2 \<subseteq> (leaked opens frees h - S) \<union> own' y)"
  proof (cases r)
    case (Inl e)
    with mh have "leaked opens frees h1 \<subseteq> leaked opens frees h"
      using owns_Inl [OF m] by fastforce
    with kh Inl show ?thesis
      by (cases r2) (auto dest!: owns_Inl [OF inl] owns_Inr [OF inl])
  next
    case (Inr x)
    with mh have "leaked opens frees h1 \<subseteq> leaked opens frees h \<union> own x"
      using owns_Inr [OF m] by fastforce
    with kh Inr show ?thesis
      by (cases r2) (auto dest!: owns_Inl [OF inr] owns_Inr [OF inr])
  qed
  with mh kh show "case go_catch m k h of
      (Inl e, h') \<Rightarrow> leaked opens frees h' \<subseteq> leaked opens frees h - S
    | (Inr x, h') \<Rightarrow> leaked opens frees h' \<subseteq> (leaked opens frees h - S) \<union> own' x"
    by (simp add: go_catch_def split: sum.splits)
qed

text \<open>A statement that cannot fail may run while objects are open and not yet deferred.\<close>

lemma owns_try_safe:
  assumes safe: "\<And>h e h'. m h \<noteq> (Inl e, h')"
    and m: "owns opens frees {} m own"
    and k: "\<And>x. owns opens frees (S \<union> own x) (k x) own'"
  shows "owns opens frees S (go_try m k) own'"
proof -
  have "owns opens frees S (go_catch m (\<lambda>r. case r of Inl e \<Rightarrow> go_fail e | Inr x \<Rightarrow> k x)) own'"
  proof (unfold owns_def, intro allI)
    fix h
    obtain x h1 where mh: "m h = (Inr x, h1)"
      using safe by (metis surj_pair sum.exhaust)
    have "leaked opens frees h1 \<subseteq> leaked opens frees h \<union> own x"
      using owns_Inr [OF m mh] by simp
    with mh show "case go_catch m (\<lambda>r. case r of Inl e \<Rightarrow> go_fail e | Inr x \<Rightarrow> k x) h of
        (Inl e, h') \<Rightarrow> leaked opens frees h' \<subseteq> leaked opens frees h - S
      | (Inr x, h') \<Rightarrow> leaked opens frees h' \<subseteq> (leaked opens frees h - S) \<union> own' x"
      by (cases "k x h1"; cases "fst (k x h1)")
        (auto simp: go_catch_def dest!: owns_Inl [OF k] owns_Inr [OF k])
  qed
  moreover have "go_catch m (\<lambda>r. case r of Inl e \<Rightarrow> go_fail e | Inr x \<Rightarrow> k x) = go_try m k"
    by (auto simp: fun_eq_iff go_catch_def go_try_def go_fail_def split: prod.splits sum.splits)
  ultimately show ?thesis by simp
qed

lemma owns_defer:
  assumes c: "drops opens frees F c" and m: "owns opens frees (S - F) m own"
  shows "owns opens frees S (go_defer c m) own"
proof (rule ownsI)
  fix h e h' assume "go_defer c m h = (Inl e, h')"
  then obtain h1 where "m h = (Inl e, h1)" and "h' = snd (c h1)"
    by (auto simp: go_defer_def split: prod.splits)
  with owns_Inl [OF m] drops_snd [OF c] show "leaked opens frees h' \<subseteq> leaked opens frees h - S"
    by blast
next
  fix h y h' assume "go_defer c m h = (Inr y, h')"
  then obtain h1 where "m h = (Inr y, h1)" and "h' = snd (c h1)"
    by (auto simp: go_defer_def split: prod.splits)
  with owns_Inr [OF m] drops_snd [OF c]
  show "leaked opens frees h' \<subseteq> (leaked opens frees h - S) \<union> own y"
    by blast
qed

lemma owns_then:
  assumes c: "drops opens frees F c" and m: "owns opens frees (S - F) m own"
  shows "owns opens frees S (go_then c m) own"
proof (rule ownsI)
  fix h e h' assume "go_then c m h = (Inl e, h')"
  then have "m (snd (c h)) = (Inl e, h')"
    by (simp add: go_then_def)
  with owns_Inl [OF m] drops_snd [OF c] show "leaked opens frees h' \<subseteq> leaked opens frees h - S"
    by blast
next
  fix h y h' assume "go_then c m h = (Inr y, h')"
  then have "m (snd (c h)) = (Inr y, h')"
    by (simp add: go_then_def)
  with owns_Inr [OF m] drops_snd [OF c]
  show "leaked opens frees h' \<subseteq> (leaked opens frees h - S) \<union> own y"
    by blast
qed

text \<open>The same where the result of the release is looked at.\<close>

lemma owns_catch_drops:
  assumes c: "drops opens frees F m" and k: "\<And>r. owns opens frees (S - F) (k r) own"
  shows "owns opens frees S (go_catch m k) own"
proof (rule ownsI)
  fix h e h' assume "go_catch m k h = (Inl e, h')"
  then obtain r where "k r (snd (m h)) = (Inl e, h')"
    by (auto simp: go_catch_def split: prod.splits)
  with owns_Inl [OF k] drops_snd [OF c] show "leaked opens frees h' \<subseteq> leaked opens frees h - S"
    by blast
next
  fix h y h' assume "go_catch m k h = (Inr y, h')"
  then obtain r where "k r (snd (m h)) = (Inr y, h')"
    by (auto simp: go_catch_def split: prod.splits)
  with owns_Inr [OF k] drops_snd [OF c]
  show "leaked opens frees h' \<subseteq> (leaked opens frees h - S) \<union> own y"
    by blast
qed

lemmas owns_quiet_try = owns_try [where own = "\<lambda>_. {}"]
lemmas owns_quiet_catch = owns_catch [where own = "\<lambda>_. {}"]

lemma owns_wrap: "owns opens frees S m own \<Longrightarrow> owns opens frees S (go_wrap p m) own"
  by (rule ownsI) (auto simp: go_wrap_def split: prod.splits sum.splits dest: owns_Inl owns_Inr)

lemma owns_ret: "S \<subseteq> own x \<Longrightarrow> owns opens frees S (go_ret x) own"
  by (auto simp: owns_def go_ret_def)

lemma owns_lift: "owns opens frees {} (go_lift r) own"
  by (auto simp: owns_def go_lift_def split: sum.splits)

lemma owns_fail: "S = {} \<Longrightarrow> owns opens frees S (go_fail e) own"
  by (simp add: owns_def go_fail_def)

lemma owns_if:
  "(b \<Longrightarrow> owns opens frees S m own) \<Longrightarrow> (\<not> b \<Longrightarrow> owns opens frees S n own) \<Longrightarrow>
     owns opens frees S (if b then m else n) own"
  by simp

lemma owns_case_option:
  "(x = None \<Longrightarrow> owns opens frees S m own) \<Longrightarrow> (\<And>y. x = Some y \<Longrightarrow> owns opens frees S (k y) own) \<Longrightarrow>
     owns opens frees S (case x of None \<Rightarrow> m | Some y \<Rightarrow> k y) own"
  by (cases x) auto

lemma owns_case_sum:
  "(\<And>e. x = Inl e \<Longrightarrow> owns opens frees S (k e) own) \<Longrightarrow> (\<And>y. x = Inr y \<Longrightarrow> owns opens frees S (l y) own) \<Longrightarrow>
     owns opens frees S (case x of Inl e \<Rightarrow> k e | Inr y \<Rightarrow> l y) own"
  by (cases x) auto

lemma owns_case_prod:
  "(\<And>a b. x = (a, b) \<Longrightarrow> owns opens frees S (k a b) own) \<Longrightarrow>
     owns opens frees S (case x of (a, b) \<Rightarrow> k a b) own"
  by (cases x) auto

lemma owns_case_list:
  "(xs = [] \<Longrightarrow> owns opens frees S m own) \<Longrightarrow> (\<And>y ys. xs = y # ys \<Longrightarrow> owns opens frees S (k y ys) own) \<Longrightarrow>
     owns opens frees S (case xs of [] \<Rightarrow> m | y # ys \<Rightarrow> k y ys) own"
  by (cases xs) auto

lemma owns_let: "owns opens frees S (k x) own \<Longrightarrow> owns opens frees S (let y = x in k y) own"
  by simp

lemmas owns_cases = owns_case_option owns_case_sum owns_case_prod owns_case_list owns_if owns_let

lemma owns_println: "owns opens frees {} (println s) own"
  by (simp add: owns_def println_def)

lemma owns_eprintln: "owns opens frees {} (eprintln s) own"
  by (simp add: owns_def eprintln_def)

lemma owns_println_all: "owns opens frees {} (println_all ss) own"
proof (induction ss)
  case Nil
  then show ?case by (simp add: owns_def go_ret_def)
next
  case (Cons s ss)
  have "drops opens frees {} (println s)"
    by (simp add: drops_def println_def)
  from owns_then [OF this, where S = "{}"] Cons show ?case by simp
qed

lemma owns_query: "(\<And>n. opens c n = {}) \<Longrightarrow> owns opens frees {} (query W get c) (\<lambda>_. {})"
  by (auto simp: owns_def query_def)

text \<open>A query cannot fail, so it may stand where objects are open and not deferred.\<close>

lemma owns_try_query:
  assumes "\<And>n. opens c n = {}" and "\<And>x. owns opens frees S (k x) own"
  shows "owns opens frees S (go_try (query W get c) k) own"
proof (rule owns_try_safe)
  show "owns opens frees {} (query W get c) (\<lambda>_. {})"
    using assms(1) by (rule owns_query)
qed (simp_all add: query_def assms(2))

lemma owns_invoke_open: "owns opens frees {} (invoke W c) (\<lambda>n. opens c n)"
  by (auto simp: owns_def invoke_def split: option.splits)

lemma owns_invoke: "(\<And>n. opens c n = {}) \<Longrightarrow> owns opens frees {} (invoke W c) (\<lambda>n. {})"
  by (auto simp: owns_def invoke_def split: option.splits)

lemma owns_invoke_get: "(\<And>n. opens c n = {}) \<Longrightarrow> owns opens frees {} (invoke_get W get c) (\<lambda>n. {})"
  by (auto simp: owns_def invoke_get_def split: option.splits)

lemma owns_loop:
  assumes "\<And>s. owns opens frees {} (body s) (\<lambda>r. case r of Inl x \<Rightarrow> own x | Inr s' \<Rightarrow> {})"
  shows "owns opens frees {} (go_loop n body s) own"
proof (induction n arbitrary: s)
  case 0
  then show ?case by (simp add: owns_fail)
next
  case (Suc n)
  have "owns opens frees (case r of Inl x \<Rightarrow> own x | Inr s' \<Rightarrow> {})
          (case r of Inl x \<Rightarrow> go_ret x | Inr s' \<Rightarrow> go_loop n body s') own" for r
    using Suc by (cases r) (auto intro: owns_ret)
  with assms show ?case
    by (auto intro: owns_try)
qed

lemma owns_each:
  assumes "\<And>x. owns opens frees {} (body x) (\<lambda>_. {})"
  shows "owns opens frees {} (go_each body xs) own"
  by (induction xs) (auto intro: owns_ret owns_try assms)

lemma owns_weaken:
  "owns opens frees S m own \<Longrightarrow> (\<And>x. own x \<subseteq> own' x) \<Longrightarrow> owns opens frees S m own'"
  by (fastforce simp: owns_def split: prod.splits sum.splits)

lemma drops_invoke: "(\<And>n. opens c n = {}) \<Longrightarrow> drops opens frees (frees c) (invoke W c)"
  by (auto simp: drops_def invoke_def split: option.splits)

lemma drops_mono: "drops opens frees F m \<Longrightarrow> S \<subseteq> F \<Longrightarrow> drops opens frees S m"
  by (fastforce simp: drops_def)

lemma drops_eprintln: "drops opens frees {} (eprintln s)"
  by (simp add: drops_def eprintln_def)

lemma drops_println: "drops opens frees {} (println s)"
  by (simp add: drops_def println_def)

lemma drops_then: "drops opens frees S m \<Longrightarrow> drops opens frees T n \<Longrightarrow> drops opens frees (S \<union> T) (go_then m n)"
  by (force simp: drops_def go_then_def)

lemma drops_owns: "owns opens frees S m (\<lambda>_. {}) \<Longrightarrow> drops opens frees S m"
proof (unfold drops_def, intro allI)
  fix h assume "owns opens frees S m (\<lambda>_. {})"
  then show "leaked opens frees (snd (m h)) \<subseteq> leaked opens frees h - S"
    by (cases "m h"; cases "fst (m h)") (auto dest: owns_Inl owns_Inr)
qed

lemma owns_drops:
  assumes "drops opens frees S m"
  shows "owns opens frees S m own"
proof (rule ownsI)
  fix h e h' assume "m h = (Inl e, h')"
  with drops_snd [OF assms, of h] show "leaked opens frees h' \<subseteq> leaked opens frees h - S"
    by simp
next
  fix h x h' assume "m h = (Inr x, h')"
  with drops_snd [OF assms, of h] show "leaked opens frees h' \<subseteq> (leaked opens frees h - S) \<union> own x"
    by auto
qed

lemmas quiet_then = owns_then [where F = "{}"] drops_owns

text \<open>
  A program that owns nothing when it starts and when it ends leaves nothing open, on any
  path.
\<close>

lemma owns_leaked:
  "owns opens frees {} m (\<lambda>_. {}) \<Longrightarrow> leaked opens frees (snd (m h)) \<subseteq> leaked opens frees h"
  using drops_owns [of opens frees "{}" m] by (simp add: drops_def)

section \<open>Invariants of histories\<close>

text \<open>
  \<open>always P h\<close>: every event of \<open>h\<close> is allowed by \<open>P\<close> where it stands, given what happened
  before it. A program keeps such an invariant if each of its statements does.
\<close>

fun always :: "('c event \<Rightarrow> 'c hist \<Rightarrow> bool) \<Rightarrow> 'c hist \<Rightarrow> bool" where
  "always P [] = True"
| "always P (e # h) = (P e h \<and> always P h)"

lemma always_append: "always P (pre @ e # past) \<Longrightarrow> P e past"
  by (induction pre) auto

definition keeps :: "('c event \<Rightarrow> 'c hist \<Rightarrow> bool) \<Rightarrow> ('c hist, 'a) go \<Rightarrow> bool" where
  "keeps P m \<longleftrightarrow> (\<forall>h. always P h \<longrightarrow> always P (snd (m h)))"

lemma keepsD: "keeps P m \<Longrightarrow> always P h \<Longrightarrow> always P (snd (m h))"
  by (simp add: keeps_def)

lemma keepsD': "keeps P m \<Longrightarrow> m h = (r, h') \<Longrightarrow> always P h \<Longrightarrow> always P h'"
  by (metis keepsD snd_conv)

lemma keeps_ret: "keeps P (go_ret x)"
  by (simp add: keeps_def go_ret_def)

lemma keeps_fail: "keeps P (go_fail e)"
  by (simp add: keeps_def go_fail_def)

lemma keeps_lift: "keeps P (go_lift r)"
  by (simp add: keeps_def go_lift_def)

lemma keeps_try: "keeps P m \<Longrightarrow> (\<And>x. keeps P (k x)) \<Longrightarrow> keeps P (go_try m k)"
  by (auto simp: keeps_def go_try_def split: prod.splits sum.splits)

lemma keeps_catch: "keeps P m \<Longrightarrow> (\<And>r. keeps P (k r)) \<Longrightarrow> keeps P (go_catch m k)"
  by (auto simp: keeps_def go_catch_def split: prod.splits)

lemma keeps_wrap: "keeps P m \<Longrightarrow> keeps P (go_wrap p m)"
  by (auto simp: keeps_def go_wrap_def split: prod.splits sum.splits)

lemma keeps_defer: "keeps P c \<Longrightarrow> keeps P m \<Longrightarrow> keeps P (go_defer c m)"
  by (auto simp: keeps_def go_defer_def split: prod.splits)

lemma keeps_then: "keeps P m \<Longrightarrow> keeps P k \<Longrightarrow> keeps P (go_then m k)"
  by (simp add: keeps_def go_then_def)

lemma keeps_println: "(\<And>h. P (Out s) h) \<Longrightarrow> keeps P (println s)"
  by (simp add: keeps_def println_def)

lemma keeps_eprintln: "(\<And>h. P (ErrOut s) h) \<Longrightarrow> keeps P (eprintln s)"
  by (simp add: keeps_def eprintln_def)

lemma keeps_println_all: "(\<And>s h. s \<in> set ss \<Longrightarrow> P (Out s) h) \<Longrightarrow> keeps P (println_all ss)"
  by (induction ss) (auto intro!: keeps_ret keeps_then keeps_println)

lemma keeps_invoke: "(\<And>h. P (Did c) h) \<Longrightarrow> (\<And>e h. P (Failed c e) h) \<Longrightarrow> keeps P (invoke W c)"
  by (simp add: keeps_def invoke_def split: option.splits)

lemma keeps_invoke_get:
  "(\<And>h. P (Did c) h) \<Longrightarrow> (\<And>e h. P (Failed c e) h) \<Longrightarrow> keeps P (invoke_get W get c)"
  by (simp add: keeps_def invoke_get_def split: option.splits)

lemma keeps_query: "(\<And>h. P (Did c) h) \<Longrightarrow> keeps P (query W get c)"
  by (simp add: keeps_def query_def)

lemma keeps_loop: "(\<And>s. keeps P (body s)) \<Longrightarrow> keeps P (go_loop n body s)"
proof (induction n arbitrary: s)
  case (Suc n)
  then have "keeps P (case r of Inl x \<Rightarrow> go_ret x | Inr s' \<Rightarrow> go_loop n body s')" for r
    by (cases r) (auto intro: keeps_ret)
  with Suc show ?case by (auto intro: keeps_try)
qed (simp add: keeps_fail)

lemma keeps_each: "(\<And>x. x \<in> set xs \<Longrightarrow> keeps P (body x)) \<Longrightarrow> keeps P (go_each body xs)"
  by (induction xs) (auto intro!: keeps_ret keeps_try)

lemma keeps_if: "(b \<Longrightarrow> keeps P m) \<Longrightarrow> (\<not> b \<Longrightarrow> keeps P n) \<Longrightarrow> keeps P (if b then m else n)"
  by simp

lemma keeps_case_option:
  "(x = None \<Longrightarrow> keeps P m) \<Longrightarrow> (\<And>y. x = Some y \<Longrightarrow> keeps P (k y)) \<Longrightarrow>
     keeps P (case x of None \<Rightarrow> m | Some y \<Rightarrow> k y)"
  by (cases x) auto

lemma keeps_case_sum:
  "(\<And>e. x = Inl e \<Longrightarrow> keeps P (k e)) \<Longrightarrow> (\<And>y. x = Inr y \<Longrightarrow> keeps P (l y)) \<Longrightarrow>
     keeps P (case x of Inl e \<Rightarrow> k e | Inr y \<Rightarrow> l y)"
  by (cases x) auto

lemma keeps_case_prod:
  "(\<And>a b. x = (a, b) \<Longrightarrow> keeps P (k a b)) \<Longrightarrow> keeps P (case x of (a, b) \<Rightarrow> k a b)"
  by (cases x) auto

lemma keeps_case_list:
  "(xs = [] \<Longrightarrow> keeps P m) \<Longrightarrow> (\<And>y ys. xs = y # ys \<Longrightarrow> keeps P (k y ys)) \<Longrightarrow>
     keeps P (case xs of [] \<Rightarrow> m | y # ys \<Rightarrow> k y ys)"
  by (cases xs) auto

lemma keeps_let: "keeps P (k x) \<Longrightarrow> keeps P (let y = x in k y)"
  by simp

lemmas keeps_cases = keeps_case_option keeps_case_sum keeps_case_prod keeps_case_list keeps_if keeps_let

lemmas keeps_rules = keeps_try keeps_catch keeps_wrap keeps_defer keeps_then keeps_ret keeps_fail
  keeps_lift keeps_cases keeps_println keeps_eprintln keeps_invoke keeps_invoke_get keeps_query
  keeps_loop keeps_each

section \<open>Histories only grow\<close>

definition grows :: "('c hist, 'a) go \<Rightarrow> bool" where
  "grows m \<longleftrightarrow> (\<forall>h. \<exists>new. snd (m h) = new @ h)"

lemma growsD: "grows m \<Longrightarrow> m h = (r, h') \<Longrightarrow> \<exists>new. h' = new @ h"
  by (metis grows_def snd_conv)

lemma grows_try: "grows m \<Longrightarrow> (\<And>x. grows (k x)) \<Longrightarrow> grows (go_try m k)"
proof (unfold grows_def [of "go_try m k"], intro allI)
  fix h assume m: "grows m" and k: "\<And>x. grows (k x)"
  obtain r h1 where mh: "m h = (r, h1)" by fastforce
  obtain new where new: "h1 = new @ h" using growsD [OF m mh] by blast
  show "\<exists>new. snd (go_try m k h) = new @ h"
  proof (cases r)
    case (Inl e)
    with mh new show ?thesis by (simp add: go_try_def)
  next
    case (Inr x)
    obtain new' where "snd (k x h1) = new' @ h1" using k unfolding grows_def by blast
    with mh new Inr show ?thesis by (intro exI [of _ "new' @ new"]) (simp add: go_try_def)
  qed
qed

lemma grows_catch: "grows m \<Longrightarrow> (\<And>r. grows (k r)) \<Longrightarrow> grows (go_catch m k)"
proof (unfold grows_def [of "go_catch m k"], intro allI)
  fix h assume m: "grows m" and k: "\<And>x. grows (k x)"
  obtain r h1 where mh: "m h = (r, h1)" by fastforce
  obtain new where new: "h1 = new @ h" using growsD [OF m mh] by blast
  obtain new' where "snd (k r h1) = new' @ h1" using k unfolding grows_def by blast
  with mh new show "\<exists>new. snd (go_catch m k h) = new @ h"
    by (intro exI [of _ "new' @ new"]) (simp add: go_catch_def)
qed

lemma grows_then: "grows m \<Longrightarrow> grows k \<Longrightarrow> grows (go_then m k)"
  unfolding grows_def go_then_def by (metis append.assoc)

lemma grows_defer: "grows c \<Longrightarrow> grows m \<Longrightarrow> grows (go_defer c m)"
  unfolding grows_def go_defer_def by (metis (mono_tags, lifting) append.assoc case_prod_unfold snd_conv)

lemma grows_wrap: "grows m \<Longrightarrow> grows (go_wrap p m)"
  unfolding grows_def go_wrap_def by (auto split: prod.splits sum.splits) (metis snd_conv)+

lemma grows_basic:
  "grows (go_ret x)" "grows (go_fail e)" "grows (go_lift r)" "grows (println s)" "grows (eprintln s)"
  "grows (invoke W c)" "grows (invoke_get W get c)" "grows (query W get c)"
  by (auto simp: grows_def go_simps split: option.split)

lemma grows_if: "(b \<Longrightarrow> grows m) \<Longrightarrow> (\<not> b \<Longrightarrow> grows n) \<Longrightarrow> grows (if b then m else n)"
  by simp

lemma grows_case_prod: "(\<And>a b. x = (a, b) \<Longrightarrow> grows (k a b)) \<Longrightarrow> grows (case x of (a, b) \<Rightarrow> k a b)"
  by (cases x) auto

lemma grows_case_sum:
  "(\<And>e. x = Inl e \<Longrightarrow> grows (k e)) \<Longrightarrow> (\<And>y. x = Inr y \<Longrightarrow> grows (l y)) \<Longrightarrow>
     grows (case x of Inl e \<Rightarrow> k e | Inr y \<Rightarrow> l y)"
  by (cases x) auto

lemma grows_case_option:
  "(x = None \<Longrightarrow> grows m) \<Longrightarrow> (\<And>y. x = Some y \<Longrightarrow> grows (k y)) \<Longrightarrow> grows (case x of None \<Rightarrow> m | Some y \<Rightarrow> k y)"
  by (cases x) auto

lemmas grows_rules = grows_try grows_catch grows_then grows_defer grows_wrap grows_basic grows_if grows_case_prod
  grows_case_sum grows_case_option

section \<open>What a program prints and returns\<close>

text \<open>
  \<open>says P m\<close>: the lines \<open>m\<close> writes to standard output, whichever way it ends, satisfy \<open>P\<close>.
  \<open>returns Q m\<close>: what \<open>m\<close> returns without an error satisfies \<open>Q\<close>.
\<close>

definition says :: "(string list \<Rightarrow> bool) \<Rightarrow> ('c hist, 'a) go \<Rightarrow> bool" where
  "says P m \<longleftrightarrow> (\<forall>h. \<exists>ls. stdout_of (snd (m h)) = stdout_of h @ ls \<and> P ls)"

definition returns :: "('a \<Rightarrow> bool) \<Rightarrow> ('s, 'a) go \<Rightarrow> bool" where
  "returns Q m \<longleftrightarrow> (\<forall>h x h'. m h = (Inr x, h') \<longrightarrow> Q x)"

abbreviation quiet :: "('c hist, 'a) go \<Rightarrow> bool" where
  "quiet m \<equiv> says (\<lambda>ls. ls = []) m"

lemma quietD: "quiet m \<Longrightarrow> m h = (r, h') \<Longrightarrow> stdout_of h' = stdout_of h"
  unfolding says_def by (metis append_Nil2 snd_conv)

lemma says_run: "says P m \<Longrightarrow> P (stdout_of (snd (m [])))"
  unfolding says_def by (metis append_Nil stdout_of.simps(1))

lemma quiet_basic:
  "quiet (go_ret x)" "quiet (go_fail e)" "quiet (go_lift r)" "quiet (invoke W c)" "quiet (invoke_get W get c)"
  "quiet (query W get c)" "quiet (eprintln s)"
  by (auto simp: says_def go_simps split: option.split)

lemma says_try: "quiet m \<Longrightarrow> P [] \<Longrightarrow> (\<And>x. says P (k x)) \<Longrightarrow> says P (go_try m k)"
proof (unfold says_def [of P "go_try m k"], intro allI)
  fix h assume m: "quiet m" and nil: "P []" and k: "\<And>x. says P (k x)"
  obtain r h1 where mh: "m h = (r, h1)" by fastforce
  from quietD [OF m mh] have h1: "stdout_of h1 = stdout_of h" .
  show "\<exists>ls. stdout_of (snd (go_try m k h)) = stdout_of h @ ls \<and> P ls"
  proof (cases r)
    case (Inl e)
    with mh h1 nil show ?thesis by (simp add: go_try_def)
  next
    case (Inr x)
    obtain ls where "stdout_of (snd (k x h1)) = stdout_of h1 @ ls" "P ls"
      using k [of x] unfolding says_def by blast
    with mh h1 Inr show ?thesis by (simp add: go_try_def)
  qed
qed

lemma says_catch: "quiet m \<Longrightarrow> (\<And>r. says P (k r)) \<Longrightarrow> says P (go_catch m k)"
  by (auto simp: says_def go_catch_def split: prod.split) (metis append_Nil2 snd_conv)

lemma says_then: "quiet m \<Longrightarrow> says P k \<Longrightarrow> says P (go_then m k)"
  by (auto simp: says_def go_then_def) (metis append_Nil2)

lemma says_defer: "quiet c \<Longrightarrow> says P m \<Longrightarrow> says P (go_defer c m)"
  by (auto simp: says_def go_defer_def split: prod.split) (metis append_Nil2 snd_conv)

lemma says_wrap: "says P m \<Longrightarrow> says P (go_wrap p m)"
  by (auto simp: says_def go_wrap_def split: prod.split sum.split) (metis snd_conv)+

lemma says_query: "P [] \<Longrightarrow> (\<And>h. says P (k (get W h c))) \<Longrightarrow> says P (go_try (query W get c) k)"
  by (auto simp: says_def go_try_def query_def)
    (metis stdout_of.simps(3))

lemma says_println: "P [s] \<Longrightarrow> says P (println s)"
  by (simp add: says_def println_def)

lemma stdout_println_all: "stdout_of (snd (println_all ss h)) = stdout_of h @ ss"
  by (induction ss arbitrary: h) (simp_all add: go_simps)

lemma says_println_all: "P ss \<Longrightarrow> says P (println_all ss)"
  by (simp add: says_def stdout_println_all)

lemma says_silent: "quiet m \<Longrightarrow> P [] \<Longrightarrow> says P m"
  by (simp add: says_def)

lemma says_cases:
  "(b \<Longrightarrow> says P m) \<Longrightarrow> (\<not> b \<Longrightarrow> says P n) \<Longrightarrow> says P (if b then m else n)"
  "(x = None \<Longrightarrow> says P m1) \<Longrightarrow> (\<And>y. x = Some y \<Longrightarrow> says P (k1 y)) \<Longrightarrow> says P (case x of None \<Rightarrow> m1 | Some y \<Rightarrow> k1 y)"
  "(\<And>e. z = Inl e \<Longrightarrow> says P (k2 e)) \<Longrightarrow> (\<And>y. z = Inr y \<Longrightarrow> says P (l2 y)) \<Longrightarrow> says P (case z of Inl e \<Rightarrow> k2 e | Inr y \<Rightarrow> l2 y)"
  "(\<And>a b. w = (a, b) \<Longrightarrow> says P (k3 a b)) \<Longrightarrow> says P (case w of (a, b) \<Rightarrow> k3 a b)"
  by (simp, (cases x; simp), (cases z; simp), (cases w; simp))

lemma returns_try: "(\<And>x. returns Q (k x)) \<Longrightarrow> returns Q (go_try m k)"
  by (auto simp: returns_def go_try_def split: prod.splits sum.splits)

lemma returns_defer: "returns Q m \<Longrightarrow> returns Q (go_defer c m)"
  by (auto simp: returns_def go_defer_def split: prod.splits)

lemma returnsD: "returns Q m \<Longrightarrow> m h = (Inr x, h') \<Longrightarrow> Q x"
  by (auto simp: returns_def)

text \<open>The same where what the first statement returns is known.\<close>

lemma says_try_returns:
  assumes m: "quiet m" and nil: "P []" and R: "returns R m" and k: "\<And>x. R x \<Longrightarrow> says P (k x)"
  shows "says P (go_try m k)"
proof (unfold says_def, intro allI)
  fix h
  obtain r h1 where mh: "m h = (r, h1)" by fastforce
  from quietD [OF m mh] have h1: "stdout_of h1 = stdout_of h" .
  show "\<exists>ls. stdout_of (snd (go_try m k h)) = stdout_of h @ ls \<and> P ls"
  proof (cases r)
    case (Inl e)
    with mh h1 nil show ?thesis by (simp add: go_try_def)
  next
    case (Inr x)
    with mh have "R x" by (auto intro: returnsD [OF R])
    from k [OF this] obtain ls where "stdout_of (snd (k x h1)) = stdout_of h1 @ ls" "P ls"
      unfolding says_def by blast
    with mh h1 Inr show ?thesis by (simp add: go_try_def)
  qed
qed

lemma returns_try_returns:
  assumes R: "returns R m" and k: "\<And>x. R x \<Longrightarrow> returns Q (k x)"
  shows "returns Q (go_try m k)"
proof (unfold returns_def, intro allI impI)
  fix h y h' assume "go_try m k h = (Inr y, h')"
  then obtain x h1 where "m h = (Inr x, h1)" and "k x h1 = (Inr y, h')"
    by (auto simp: go_try_def split: prod.splits sum.splits)
  with returnsD [OF k] returnsD [OF R] show "Q y" by blast
qed

lemma returns_loop:
  assumes "\<And>s. returns (\<lambda>r. case r of Inl x \<Rightarrow> Q x | Inr _ \<Rightarrow> True) (body s)"
  shows "returns Q (go_loop n body s)"
proof (induction n arbitrary: s)
  case (Suc n)
  show ?case
    unfolding go_loop.simps
    by (rule returns_try_returns [OF assms]) (auto simp: returns_def go_ret_def intro: returnsD [OF Suc] split: sum.splits)
qed (simp add: returns_def go_fail_def)

lemma quiet_loop:
  assumes "\<And>s. quiet (body s)"
  shows "quiet (go_loop n body s)"
proof (induction n arbitrary: s)
  case (Suc n)
  have "quiet (case r of Inl x \<Rightarrow> go_ret x | Inr s' \<Rightarrow> go_loop n body s')" for r
    using Suc by (cases r) (auto simp: quiet_basic)
  with assms show ?case
    by (auto intro: says_try)
qed (simp add: quiet_basic)

lemma returns_fail: "returns Q (go_fail e)"
  by (simp add: returns_def go_fail_def)

lemma returns_catch: "(\<And>r. returns Q (k r)) \<Longrightarrow> returns Q (go_catch m k)"
  by (auto simp: returns_def go_catch_def split: prod.splits)

lemma returns_any: "(\<And>x. Q x) \<Longrightarrow> returns Q m"
  by (simp add: returns_def)

lemma returns_cases:
  "(b \<Longrightarrow> returns Q m) \<Longrightarrow> (\<not> b \<Longrightarrow> returns Q n) \<Longrightarrow> returns Q (if b then m else n)"
  "(x = None \<Longrightarrow> returns Q m1) \<Longrightarrow> (\<And>y. x = Some y \<Longrightarrow> returns Q (k1 y)) \<Longrightarrow> returns Q (case x of None \<Rightarrow> m1 | Some y \<Rightarrow> k1 y)"
  "(\<And>e. z = Inl e \<Longrightarrow> returns Q (k2 e)) \<Longrightarrow> (\<And>y. z = Inr y \<Longrightarrow> returns Q (l2 y)) \<Longrightarrow> returns Q (case z of Inl e \<Rightarrow> k2 e | Inr y \<Rightarrow> l2 y)"
  "(\<And>a b. w = (a, b) \<Longrightarrow> returns Q (k3 a b)) \<Longrightarrow> returns Q (case w of (a, b) \<Rightarrow> k3 a b)"
  by (simp, (cases x; simp), (cases z; simp), (cases w; simp))

lemmas quiet_rules = quiet_basic says_try says_catch says_then says_defer says_wrap says_cases

text \<open>
  \<open>tells P m\<close>: whenever \<open>m\<close> returns \<open>x\<close> without an error, \<open>P x ls\<close> holds of the lines \<open>ls\<close> it has
  written to standard output by then.
\<close>

definition tells :: "('a \<Rightarrow> string list \<Rightarrow> bool) \<Rightarrow> ('c hist, 'a) go \<Rightarrow> bool" where
  "tells P m \<longleftrightarrow> (\<forall>h x h'. m h = (Inr x, h') \<longrightarrow> (\<exists>ls. stdout_of h' = stdout_of h @ ls \<and> P x ls))"

lemma tellsD: "tells P m \<Longrightarrow> m h = (Inr x, h') \<Longrightarrow> \<exists>ls. stdout_of h' = stdout_of h @ ls \<and> P x ls"
  by (simp add: tells_def)

lemma tells_run: "tells P m \<Longrightarrow> fst (m []) = Inr x \<Longrightarrow> P x (stdout_of (snd (m [])))"
  by (cases "m []") (fastforce dest: tellsD)

lemma tells_try:
  assumes m: "tells R m" and k: "\<And>x ls. R x ls \<Longrightarrow> tells (\<lambda>y ls'. P y (ls @ ls')) (k x)"
  shows "tells P (go_try m k)"
proof (unfold tells_def, intro allI impI)
  fix h y h' assume "go_try m k h = (Inr y, h')"
  then obtain x h1 where mh: "m h = (Inr x, h1)" and kh: "k x h1 = (Inr y, h')"
    by (auto simp: go_try_def split: prod.splits sum.splits)
  from tellsD [OF m mh] obtain ls where ls: "stdout_of h1 = stdout_of h @ ls" "R x ls" by blast
  from tellsD [OF k [OF ls(2)] kh] ls(1) show "\<exists>ls. stdout_of h' = stdout_of h @ ls \<and> P y ls"
    by auto
qed

lemma tells_quiet: "quiet m \<Longrightarrow> (\<And>x. P x []) \<Longrightarrow> tells P m"
  by (auto simp: tells_def dest: quietD)

lemma tells_returns: "quiet m \<Longrightarrow> returns Q m \<Longrightarrow> tells (\<lambda>x ls. ls = [] \<and> Q x) m"
  by (auto simp: tells_def dest: quietD intro: returnsD)

lemma tells_try_quiet:
  assumes "quiet m" and "\<And>x. tells P (k x)"
  shows "tells P (go_try m k)"
  by (rule tells_try [where R = "\<lambda>_ ls. ls = []"]) (simp_all add: assms tells_quiet)

lemma tells_try_returns:
  assumes "quiet m" and "returns Q m" and "\<And>x. Q x \<Longrightarrow> tells P (k x)"
  shows "tells P (go_try m k)"
  by (rule tells_try [OF tells_returns [OF assms(1,2)]]) (simp add: assms(3))

lemma tells_basic: "P x [] \<Longrightarrow> tells P (go_ret x)" "tells P (go_fail e)"
  by (simp_all add: tells_def go_simps)

lemma tells_println: "P () [s] \<Longrightarrow> tells P (println s)"
  by (simp add: tells_def println_def)

lemma tells_println_all: "P () ss \<Longrightarrow> tells P (println_all ss)"
  unfolding tells_def by (metis (full_types) snd_conv stdout_println_all old.unit.exhaust)

lemma tells_wrap: "tells P m \<Longrightarrow> tells P (go_wrap p m)"
  by (auto simp: tells_def go_wrap_def split: prod.splits sum.splits)

lemma tells_defer: "quiet c \<Longrightarrow> tells P m \<Longrightarrow> tells P (go_defer c m)"
  by (auto simp: tells_def go_defer_def split: prod.splits) (metis prod.collapse quietD)

lemma tells_then: "quiet m \<Longrightarrow> tells P k \<Longrightarrow> tells P (go_then m k)"
  by (auto simp: tells_def go_then_def) (metis prod.collapse quietD)

lemma tells_then_println: "tells (\<lambda>x ls. P x (s # ls)) k \<Longrightarrow> tells P (go_then (println s) k)"
  by (fastforce simp: tells_def go_then_def println_def)

lemma tells_cases:
  "(b \<Longrightarrow> tells P m) \<Longrightarrow> (\<not> b \<Longrightarrow> tells P n) \<Longrightarrow> tells P (if b then m else n)"
  "(x = None \<Longrightarrow> tells P m1) \<Longrightarrow> (\<And>y. x = Some y \<Longrightarrow> tells P (k1 y)) \<Longrightarrow> tells P (case x of None \<Rightarrow> m1 | Some y \<Rightarrow> k1 y)"
  "(\<And>e. z = Inl e \<Longrightarrow> tells P (k2 e)) \<Longrightarrow> (\<And>y. z = Inr y \<Longrightarrow> tells P (l2 y)) \<Longrightarrow> tells P (case z of Inl e \<Rightarrow> k2 e | Inr y \<Rightarrow> l2 y)"
  "(\<And>a b. w = (a, b) \<Longrightarrow> tells P (k3 a b)) \<Longrightarrow> tells P (case w of (a, b) \<Rightarrow> k3 a b)"
  by (simp, (cases x; simp), (cases z; simp), (cases w; simp))

lemma tells_loop:
  assumes "\<And>s. tells (\<lambda>r ls. case r of Inl x \<Rightarrow> P x ls | Inr s' \<Rightarrow> ls = []) (body s)"
  shows "tells P (go_loop n body s)"
proof (induction n arbitrary: s)
  case (Suc n)
  show ?case
    unfolding go_loop.simps
    by (rule tells_try [OF assms]) (auto intro: tells_basic Suc split: sum.splits)
qed (simp add: tells_basic)

section \<open>Programs that cannot fail\<close>

definition succeeds :: "('s, 'a) go \<Rightarrow> bool" where
  "succeeds m \<longleftrightarrow> (\<forall>h. \<exists>x h'. m h = (Inr x, h'))"

lemma succeeds_ret: "succeeds (go_ret x)"
  by (simp add: succeeds_def go_ret_def)

lemma succeeds_query: "succeeds (query W get c)"
  by (simp add: succeeds_def query_def)

lemma succeeds_println: "succeeds (println s)"
  by (simp add: succeeds_def println_def)

lemma succeeds_try: "succeeds m \<Longrightarrow> (\<And>x. succeeds (k x)) \<Longrightarrow> succeeds (go_try m k)"
  unfolding succeeds_def go_try_def by (metis (mono_tags, lifting) case_prod_conv old.sum.simps(6))

lemma succeeds_catch: "(\<And>r. succeeds (k r)) \<Longrightarrow> succeeds (go_catch m k)"
  by (simp add: succeeds_def go_catch_def split: prod.splits)

lemma succeeds_then: "succeeds k \<Longrightarrow> succeeds (go_then m k)"
  by (simp add: succeeds_def go_then_def)

lemma succeeds_println_all: "succeeds (println_all ss)"
  by (induction ss) (auto intro: succeeds_ret succeeds_then)

lemma succeeds_if: "succeeds m \<Longrightarrow> succeeds n \<Longrightarrow> succeeds (if b then m else n)"
  by simp

lemma succeeds_let: "succeeds (k x) \<Longrightarrow> succeeds (let y = x in k y)"
  by simp

lemmas succeeds_rules = succeeds_ret succeeds_query succeeds_println succeeds_println_all
  succeeds_try succeeds_catch succeeds_then succeeds_if succeeds_let

lemma succeeds_no_error: "succeeds m \<Longrightarrow> m h \<noteq> (Inl e, h')"
  by (metis succeeds_def Inl_Inr_False prod.inject)

section \<open>Loops that stop\<close>

text \<open>
  A round that adds an event to the history cannot be repeated for ever when the world,
  from some length of history on, makes a round return or fail: then rounds enough to
  reach that length are enough.
\<close>

lemma go_loop_enough:
  assumes step: "\<And>s h s' h'. body s h = (Inr (Inr s'), h') \<Longrightarrow> length h < length h' \<and> length h < N"
    and own: "\<And>s h h'. body s h \<noteq> (Inl ErrFuel, h')"
  shows "N - length h < n \<Longrightarrow> fst (go_loop n body s h) \<noteq> Inl ErrFuel"
proof (induction n arbitrary: s h)
  case (Suc n)
  obtain r h' where b: "body s h = (r, h')"
    by fastforce
  show ?case
  proof (cases r)
    case (Inl e)
    with own [of s h h'] b show ?thesis
      by (auto simp: go_try_def)
  next
    case (Inr t)
    show ?thesis
    proof (cases t)
      case (Inl x)
      with Inr b show ?thesis
        by (simp add: go_try_def go_ret_def)
    next
      case t: (Inr s')
      from step [of s h s' h'] b Inr t have "length h < length h'" and "length h < N"
        by auto
      with Suc.prems have "N - length h' < n"
        by simp
      with Suc.IH b Inr t show ?thesis
        by (simp add: go_try_def)
    qed
  qed
qed simp

end
