(* ===== verification/Iroh.thy ===== *)
theory Iroh
  imports GoIO
begin

text \<open>
  The external interface of the programs: one constructor per operation of the iroh
  library, of the operating system and of the blob library that they call, and the small
  functions nearly every program carries a copy of (\<^verbatim>\<open>bind\<close>, \<^verbatim>\<open>echo\<close>, \<^verbatim>\<open>exchange\<close>,
  \<^verbatim>\<open>transform\<close>, \<^verbatim>\<open>selectedPathKind\<close>, \<^verbatim>\<open>env\<close>). Nothing is assumed of an operation: what it
  answers is the world's. Endpoints, connections, streams and the rest are named by the
  position of the event that made them; an address is the term that builds it.
\<close>

section \<open>The calls\<close>

text \<open>\<open>WithOption f\<close> is any other option of \<^verbatim>\<open>Bind\<close>, by its Go name.\<close>

datatype relay_mode = RelayDefault | RelayDisabled | RelayCustom "string list"

datatype endpoint_addr =
    NewAddr string
  | WithIP endpoint_addr string
  | WithRelayURL endpoint_addr string
  | AddrOf nat
  | ParsedAddr string

datatype bind_opt =
    WithBindAddr string
  | WithALPNs "string list"
  | WithSecretKey string
  | WithRelayMode relay_mode
  | WithAddressLookup string
  | WithPathSelector string
  | WithRelayFirstDial
  | WithQLOG string
  | WithKeyExchangePolicy string
  | WithCustomTransport string
  | WithoutIPTransports
  | WithoutRelayTransports
  | WithOption string

datatype net_call =
    Bind "bind_opt list"
  | Shutdown nat
  | Online nat
  | Accept nat
  | Connect nat endpoint_addr string
  | AcceptStream nat
  | OpenStream nat
  | Write nat bytes
  | CloseWrite nat
  | CloseStream nat
  | ReadAll nat
  | Incoming nat
  | Outgoing nat bytes
  | CancelRead nat nat
  | CancelWrite nat nat
  | CloseConn nat nat string
  | WaitClosed nat
  | EndpointID nat
  | RemoteID nat
  | ConnALPN nat
  | ConnPaths nat
  | LocalAddr nat
  | IPAddrs endpoint_addr
  | RelayURLs endpoint_addr
  | ShortID endpoint_addr
  | ConnErr nat
  | MaxDatagramSize nat
  | SendDatagram nat bytes
  | ReadDatagram nat
  | NewRouter nat "string list"
  | RouterShutdown nat nat

text \<open>The ends of a byte pipe: the process's standard files, a local connection, a stream.\<close>

datatype pipe_end = Stdin | NoInput | Stdout | LocalConn nat | PipeStream nat

datatype os_call =
    Getenv string
  | GenerateKey
  | KeyBytes string
  | RandomBytes nat
  | ParseKey string
  | NotifyContext
  | Getwd
  | AbsPath string
  | Stat string
  | Lstat string
  | Mkdir string
  | MkdirAll string
  | MkdirTemp string
  | RemoveAll string
  | RemoveTemp nat
  | TempPath nat
  | Remove string
  | Rename string string
  | Create string
  | CloseFile nat
  | WriteTo nat bytes
  | SeekCurrent nat
  | ReadFile string
  | WriteFile string bytes
  | WalkDir string
  | ParseText string string
  | Listen string string
  | AcceptLocal nat
  | CloseListener nat
  | DialLocal string string
  | CloseLocal nat
  | Interfaces
  | Join string
  | WaitDone
  | Elapsed
  | Cancel
  | PublicID string
  | HttpServe
  | HttpClose
  | HttpDo string string
  | HttpStatus nat
  | HttpCode nat
  | HttpHeader nat string
  | HttpBody nat
  | ReadChunks pipe_end
  | ReadEnd pipe_end
  | WriteEnd pipe_end bytes
  | CloseEnd pipe_end
  | Select
  | CtxErr

datatype blob_call =
    NewStore string
  | NewMemStore
  | AddBlob nat bytes
  | ImportFile nat string
  | BlobChunks nat string
  | GetBlob nat string
  | GetCollection nat string
  | ServeBlob nat nat
  | Publisher string

datatype gossip_call =
    NewGossip nat
  | GossipShutdown nat
  | Subscribe nat string
  | SubscribeJoin nat string endpoint_addr
  | TopicClose nat
  | Broadcast nat bytes
  | NextEvent nat
  | Neighbors nat
  | ClearKey nat
  | NowNanos

text \<open>
  \<open>Lib f xs ss\<close>: any other library operation, by its Go name, on the objects \<open>xs\<close> and the
  texts \<open>ss\<close>.
\<close>

datatype call =
    Net net_call
  | Os os_call
  | Blob blob_call
  | Gossip gossip_call
  | Lib string "nat list" "string list"

type_synonym io_hist = "call hist"
type_synonym 'a io = "(call hist, 'a) go"

section \<open>Endpoints as owned objects\<close>

text \<open>
  What a program has to give back is its endpoints: an endpoint's connections and streams
  end with it, and a router, once made, owns the endpoint it was made for.
\<close>

fun opens_endpoint :: "call \<Rightarrow> nat \<Rightarrow> nat set" where
  "opens_endpoint (Net (Bind opts)) n = {n}"
| "opens_endpoint c n = {}"

fun frees_endpoint :: "call \<Rightarrow> nat set" where
  "frees_endpoint (Net (Shutdown n)) = {n}"
| "frees_endpoint (Net (RouterShutdown r n)) = {n}"
| "frees_endpoint c = {}"

text \<open>
  The same for the directories a program makes for its own use: a store in a directory it
  names, and temporary directories.
\<close>

datatype dir = Named string | Temp nat

fun opens_dir :: "call \<Rightarrow> nat \<Rightarrow> dir set" where
  "opens_dir (Blob (NewStore p)) n = {Named p}"
| "opens_dir (Os (MkdirTemp p)) n = {Temp n}"
| "opens_dir c n = {}"

fun frees_dir :: "call \<Rightarrow> dir set" where
  "frees_dir (Os (RemoveAll p)) = {Named p}"
| "frees_dir (Os (RemoveTemp n)) = {Temp n}"
| "frees_dir c = {}"

definition endpoints_open :: "io_hist \<Rightarrow> nat set" where
  "endpoints_open h = leaked opens_endpoint frees_endpoint h"

definition dirs_left :: "io_hist \<Rightarrow> dir set" where
  "dirs_left h = leaked opens_dir frees_dir h"

text \<open>
  A resource discipline: an operation that opens, one that releases what the first opened.
  Inside, the scheme every program follows is proved once: open, defer the release, go on.
\<close>

locale discipline =
  fixes opens :: "'c \<Rightarrow> nat \<Rightarrow> 'k set"
    and frees :: "'c \<Rightarrow> 'k set"
    and opener :: "'o \<Rightarrow> 'c"
    and closer :: "'o \<Rightarrow> nat \<Rightarrow> 'c"
  assumes closer_frees: "opens (opener x) n \<subseteq> frees (closer x n)"
    and closer_no_open: "opens (closer x n) m = {}"
begin

lemma drops_closer: "drops opens frees (opens (opener x) n) (invoke W (closer x n))"
proof (rule drops_mono)
  show "drops opens frees (frees (closer x n)) (invoke W (closer x n))"
    by (rule drops_invoke) (rule closer_no_open)
qed (rule closer_frees)

text \<open>\<^verbatim>\<open>n, err := open(x); if err != nil { return err }; defer n.close(); body\<close>\<close>

lemma owns_bracket:
  assumes "\<And>n. owns opens frees {} (body n) own"
  shows "owns opens frees {} (go_try (invoke W (opener x))
           (\<lambda>n. go_defer (invoke V (closer x n)) (body n))) own"
proof (rule owns_try [OF owns_invoke_open])
  fix n
  show "owns opens frees (opens (opener x) n) (go_defer (invoke V (closer x n)) (body n)) own"
    using assms by (intro owns_defer [OF drops_closer]) simp
qed

lemma bracket_clean:
  assumes "\<And>n. owns opens frees {} (body n) (\<lambda>_. {})"
  shows "leaked opens frees (snd (go_try (invoke W (opener x))
           (\<lambda>n. go_defer (invoke V (closer x n)) (body n)) h)) \<subseteq> leaked opens frees h"
  using assms by (intro owns_leaked owns_bracket)

end

interpretation endpoint: discipline opens_endpoint frees_endpoint
  "\<lambda>opts. Net (Bind opts)" "\<lambda>opts n. Net (Shutdown n)"
  by unfold_locales simp_all

interpretation store_dir: discipline opens_dir frees_dir
  "\<lambda>p. Blob (NewStore p)" "\<lambda>p n. Os (RemoveAll p)"
  by unfold_locales simp_all

interpretation temp_dir: discipline opens_dir frees_dir
  "\<lambda>p. Os (MkdirTemp p)" "\<lambda>p n. Os (RemoveTemp n)"
  by unfold_locales simp_all

section \<open>The functions the programs share\<close>

text \<open>Texts of standard values: the loopback bind address every example uses.\<close>

definition loopback :: string where
  "loopback = ''[::1]:0''"

text \<open>\<^verbatim>\<open>bind\<close>: an ephemeral loopback port, then the caller's options, which may override it.\<close>

definition bind_loopback :: "call world \<Rightarrow> bind_opt list \<Rightarrow> nat io" where
  "bind_loopback W opts = invoke W (Net (Bind (WithBindAddr loopback # opts)))"

definition shutdown :: "call world \<Rightarrow> nat \<Rightarrow> nat io" where
  "shutdown W ep = invoke W (Net (Shutdown ep))"

definition read_all :: "call world \<Rightarrow> nat \<Rightarrow> bytes io" where
  "read_all W s = invoke_get W got_bytes (Net (ReadAll s))"

text \<open>\<^verbatim>\<open>exchange\<close>: one message out, the half-close, the reply to its end.\<close>

definition exchange :: "call world \<Rightarrow> nat \<Rightarrow> string \<Rightarrow> string io" where
  "exchange W conn msg =
     go_try (invoke W (Net (OpenStream conn))) (\<lambda>s.
     go_try (invoke W (Net (Write s (bytes_of msg)))) (\<lambda>_.
     go_try (invoke W (Net (CloseWrite s))) (\<lambda>_.
     go_try (read_all W s) (\<lambda>b.
     go_ret (text_of b)))))"

text \<open>\<^verbatim>\<open>transform\<close>: the accepting side, and \<^verbatim>\<open>echo\<close>, which changes nothing.\<close>

definition transform :: "call world \<Rightarrow> nat \<Rightarrow> (string \<Rightarrow> string) \<Rightarrow> unit io" where
  "transform W conn f =
     go_try (invoke W (Net (AcceptStream conn))) (\<lambda>s.
     go_try (read_all W s) (\<lambda>b.
     go_try (invoke W (Net (Write s (bytes_of (f (text_of b)))))) (\<lambda>_.
     go_try (invoke W (Net (CloseStream s))) (\<lambda>_.
     go_ret ()))))"

definition echo :: "call world \<Rightarrow> nat \<Rightarrow> unit io" where
  "echo W conn =
     go_try (invoke W (Net (AcceptStream conn))) (\<lambda>s.
     go_try (read_all W s) (\<lambda>b.
     go_try (invoke W (Net (Write s b))) (\<lambda>_.
     go_try (invoke W (Net (CloseStream s))) (\<lambda>_.
     go_ret ()))))"

lemma echo_is_transform: "echo W conn = transform W conn (\<lambda>s. s)"
  by (simp add: echo_def transform_def)

text \<open>\<^verbatim>\<open>selectedPathKind\<close>, on what \<^verbatim>\<open>Conn.Paths\<close> reports.\<close>

record path_info =
  path_selected :: bool
  path_relayed :: bool
  path_network :: "string option"

fun selected_path_kind :: "path_info list \<Rightarrow> string" where
  "selected_path_kind [] = ''none''"
| "selected_path_kind (p # ps) =
     (if \<not> path_selected p then selected_path_kind ps
      else if path_relayed p then ''relay''
      else case path_network p of Some n \<Rightarrow> n | None \<Rightarrow> ''unknown'')"

lemma owns_bind [owns]: "owns opens_endpoint frees_endpoint {} (bind_loopback W opts) (\<lambda>n. {n})"
  unfolding bind_loopback_def by (rule owns_weaken [OF owns_invoke_open]) simp

lemma drops_shutdown [owns]: "drops opens_endpoint frees_endpoint {n} (shutdown W n)"
  unfolding shutdown_def using endpoint.drops_closer by simp

lemma owns_read_all [owns]: "owns opens_endpoint frees_endpoint {} (read_all W s) (\<lambda>_. {})"
  unfolding read_all_def by (rule owns_invoke_get) simp

lemmas owns_steps = owns_try owns_ret owns_fail owns_if owns_println owns_println_all
  owns_invoke owns_invoke_get owns_query

lemma owns_exchange [owns]: "owns opens_endpoint frees_endpoint {} (exchange W conn msg) (\<lambda>_. {})"
  unfolding exchange_def
  by (rule owns_try owns_invoke owns_read_all owns_ret | simp)+

lemma owns_transform [owns]: "owns opens_endpoint frees_endpoint {} (transform W conn f) (\<lambda>_. {})"
  unfolding transform_def
  by (rule owns_try owns_invoke owns_read_all owns_ret | simp)+

lemma owns_echo [owns]: "owns opens_endpoint frees_endpoint {} (echo W conn) (\<lambda>_. {})"
  by (simp add: echo_is_transform owns_transform)

text \<open>
  A router owns its endpoint once it is made, and its shutdown is the endpoint's. Where
  making it fails the endpoint is still the program's, and most of the programs, which bind
  and make a router in one breath, do not release it; they are proved to give everything
  back in the worlds where a router can be made.
\<close>

definition routers_start :: "call world \<Rightarrow> bool" where
  "routers_start W \<longleftrightarrow> (\<forall>h ep alpns. fails W h (Net (NewRouter ep alpns)) = None)"

lemma owns_try_router:
  assumes "routers_start W" and "\<And>r. owns opens_endpoint frees_endpoint S (k r) own"
  shows "owns opens_endpoint frees_endpoint S (go_try (invoke W (Net (NewRouter ep alpns))) k) own"
proof (rule owns_try_safe)
  show "owns opens_endpoint frees_endpoint {} (invoke W (Net (NewRouter ep alpns))) (\<lambda>_. {})"
    by (rule owns_invoke) simp
  show "invoke W (Net (NewRouter ep alpns)) h \<noteq> (Inl e, h')" for h e h'
    using assms(1) by (simp add: routers_start_def invoke_def)
qed (simp add: assms(2))

lemma drops_router: "drops opens_endpoint frees_endpoint {ep} (invoke W (Net (RouterShutdown r ep)))"
  by (rule drops_mono [OF drops_invoke]) simp_all

section \<open>What a program does with its result\<close>

text \<open>
  \<^verbatim>\<open>main\<close> of the examples: an error is written to standard error, with exit code 1; \<open>flag_main\<close> is
  that of the examples with flags, where the request for help is no failure.
\<close>

definition plain_main :: "unit io \<Rightarrow> io_hist \<Rightarrow> nat \<times> io_hist" where
  "plain_main run h =
     (case run h of
        (Inr _, h') \<Rightarrow> (0, h')
      | (Inl e, h') \<Rightarrow> (1, ErrOut (err_text e) # h'))"

definition flag_main :: "unit io \<Rightarrow> io_hist \<Rightarrow> nat \<times> io_hist" where
  "flag_main run h =
     (case run h of
        (Inr _, h') \<Rightarrow> (0, h')
      | (Inl e, h') \<Rightarrow> if err_is ErrHelp e then (0, h') else (1, ErrOut (err_text e) # h'))"

text \<open>A failed run exits with code 1 and its error as the last line of standard error.\<close>

lemma flag_main_code: "fst (flag_main run h) = (case fst (run h) of Inr _ \<Rightarrow> 0 | Inl e \<Rightarrow> if err_is ErrHelp e then 0 else 1)"
  by (auto simp: flag_main_def split: prod.split sum.split)

end
