(* ===== verification/Streams.thy ===== *)
theory Streams
  imports Iroh
begin

text \<open>
  Readers and writers as the framing code sees them: the bytes that are left to read, the
  bytes written so far, and the lines printed; \<^verbatim>\<open>io.ReadFull\<close>; the big-endian words of
  \<^verbatim>\<open>encoding/binary\<close>; and a stream of the network run as such a reader and writer.
\<close>

record duplex =
  inp :: bytes
  outp :: bytes
  shown :: "string list"
  broken :: "gerr option"

definition reader :: "bytes \<Rightarrow> duplex" where
  "reader b = \<lparr>inp = b, outp = [], shown = [], broken = None\<rparr>"

lemma reader_simps [simp]:
  "inp (reader b) = b" "outp (reader b) = []" "shown (reader b) = []" "broken (reader b) = None"
  by (simp_all add: reader_def)

text \<open>
  \<^verbatim>\<open>io.ReadFull\<close> into a buffer of \<open>n\<close> bytes. A reader that ends before the first byte gives
  \<^verbatim>\<open>io.EOF\<close>, one that ends later \<^verbatim>\<open>io.ErrUnexpectedEOF\<close>; either way it is at its end.
\<close>

definition read_full :: "nat \<Rightarrow> (duplex, bytes) go" where
  "read_full n d =
     (if n \<le> length (inp d) then (Inr (take n (inp d)), d\<lparr>inp := drop n (inp d)\<rparr>)
      else (Inl (if inp d = [] then ErrEOF else ErrUnexpectedEOF), d\<lparr>inp := []\<rparr>))"

definition write_bytes :: "bytes \<Rightarrow> (duplex, unit) go" where
  "write_bytes b d =
     (case broken d of Some e \<Rightarrow> (Inl e, d) | None \<Rightarrow> (Inr (), d\<lparr>outp := outp d @ b\<rparr>))"

definition show_line :: "string \<Rightarrow> (duplex, unit) go" where
  "show_line s d = (Inr (), d\<lparr>shown := shown d @ [s]\<rparr>)"

lemma read_full_append [simp]:
  "inp d = b @ rest \<Longrightarrow> n = length b \<Longrightarrow> read_full n d = (Inr b, d\<lparr>inp := rest\<rparr>)"
  by (simp add: read_full_def)

section \<open>Big-endian words\<close>

definition put_be32 :: "u32 \<Rightarrow> bytes" where
  "put_be32 w = [ucast (drop_bit 24 w), ucast (drop_bit 16 w), ucast (drop_bit 8 w), ucast w]"

text \<open>\<^verbatim>\<open>binary.BigEndian.Uint32\<close>; its callers have checked that four bytes are there.\<close>

fun get_be32 :: "bytes \<Rightarrow> u32" where
  "get_be32 (a # b # c # d # rest) =
     or (ucast d) (or (push_bit 8 (ucast c)) (or (push_bit 16 (ucast b)) (push_bit 24 (ucast a))))"
| "get_be32 b = 0"

lemma length_put_be32 [simp]: "length (put_be32 w) = 4"
  by (simp add: put_be32_def)

lemma get_put_be32 [simp]: "get_be32 (put_be32 w @ rest) = w"
  unfolding put_be32_def append.simps get_be32.simps
proof (rule bit_word_eqI, goal_cases)
  case (1 n)
  then consider "n < 8" | "8 \<le> n \<and> n < 16" | "16 \<le> n \<and> n < 24" | "24 \<le> n \<and> n < 32"
    by force
  then show ?case
    by cases (auto simp: bit_simps)
qed

lemma put_be32_inject: "put_be32 v = put_be32 w \<longleftrightarrow> v = w"
  by (metis append_Nil2 get_put_be32)

lemma put_get_be32: "length b = 4 \<Longrightarrow> put_be32 (get_be32 b) = b"
proof -
  assume "length b = 4"
  then obtain p q r s where b: "b = [p, q, r, s]"
    by (auto simp: numeral_eq_Suc length_Suc_conv)
  show ?thesis
    unfolding b put_be32_def get_be32.simps list.inject
    by (intro conjI refl; rule bit_word_eqI; auto simp: bit_simps dest: bit_imp_le_length)
qed

section \<open>A network stream as a reader and writer\<close>

text \<open>
  \<open>on_stream W s m\<close> runs \<open>m\<close> on the stream \<open>s\<close>. What the peer sends on it, all in all, is
  the world's answer; what \<open>m\<close> writes becomes one event, the lines it prints become output.
\<close>

definition on_stream :: "call world \<Rightarrow> nat \<Rightarrow> (duplex, 'a) go \<Rightarrow> 'a io" where
  "on_stream W s m h =
     (case m \<lparr>inp = got_bytes W h (Net (Incoming s)), outp = [], shown = [],
              broken = fails W h (Net (Incoming s))\<rparr> of
        (r, d) \<Rightarrow> (r, map Out (rev (shown d)) @ Did (Net (Outgoing s (outp d))) # h))"

lemma leaked_map_Out [simp]: "leaked opens frees (map Out ss @ h) = leaked opens frees h"
  by (induction ss) auto

lemma owns_on_stream [owns]:
  "owns opens_endpoint frees_endpoint {} (on_stream W s m) (\<lambda>_. {})"
  by (auto simp: owns_def on_stream_def split: prod.splits sum.splits)

end
