(* ===== verification/Framing.thy ===== *)
theory Framing
  imports Streams
begin

text \<open>
  \<^verbatim>\<open>cmd/go-iroh-framed-messages\<close>: length-prefixed frames on one stream, chess moves in
  them, and the two halves of the game. \<^verbatim>\<open>cmd/go-iroh-datagram-frames\<close>: an application's
  frames over datagrams. \<^verbatim>\<open>cmd/go-iroh-datagram-vs-stream\<close>: the choice between a datagram
  and a stream.
\<close>

section \<open>Length-prefixed frames\<close>

definition chess_alpn :: string where
  "chess_alpn = ''iroh/examples/messages/0''"

definition max_message_size :: nat where
  "max_message_size = 1000"

definition move_message_size :: nat where
  "move_message_size = 4"

record square =
  file_x :: byte
  file_y :: byte

record move =
  move_from :: square
  move_to :: square

definition too_large :: "nat \<Rightarrow> gerr" where
  "too_large n = Err (''frame too large: '' @ digits_of n @ '' > '' @ digits_of max_message_size)"

definition write_frame :: "bytes \<Rightarrow> (duplex, unit) go" where
  "write_frame payload =
     (if max_message_size < length payload then go_fail (too_large (length payload))
      else go_try (write_bytes (put_be32 (word_of_nat (length payload)))) (\<lambda>_.
           write_bytes payload))"

definition read_frame :: "(duplex, bytes) go" where
  "read_frame =
     go_try (read_full 4) (\<lambda>hdr.
     let n = get_be32 hdr in
     if word_of_nat max_message_size < n then go_fail (too_large (unat n))
     else if n = 0 then go_fail (Err ''empty frame'')
     else read_full (unat n))"

definition send_move :: "move \<Rightarrow> (duplex, unit) go" where
  "send_move mv = write_frame
     [file_x (move_from mv), file_y (move_from mv), file_x (move_to mv), file_y (move_to mv)]"

definition recv_move :: "(duplex, move) go" where
  "recv_move =
     go_try read_frame (\<lambda>b.
     if length b \<noteq> move_message_size
     then go_fail (Err (''move: frame length '' @ digits_of (length b)))
     else go_ret \<lparr>move_from = \<lparr>file_x = b ! 0, file_y = b ! 1\<rparr>,
                  move_to = \<lparr>file_x = b ! 2, file_y = b ! 3\<rparr>\<rparr>)"

section \<open>The game\<close>

definition the_move :: "byte \<Rightarrow> byte \<Rightarrow> byte \<Rightarrow> byte \<Rightarrow> move" where
  "the_move a b c d = \<lparr>move_from = \<lparr>file_x = a, file_y = b\<rparr>, move_to = \<lparr>file_x = c, file_y = d\<rparr>\<rparr>"

text \<open>\<^verbatim>\<open>%+v\<close> of a move.\<close>

definition show_square :: "square \<Rightarrow> string" where
  "show_square f = ''{X:'' @ digits_of (unat (file_x f)) @ '' Y:'' @ digits_of (unat (file_y f)) @ ''}''"

definition show_move :: "move \<Rightarrow> string" where
  "show_move mv = ''{From:'' @ show_square (move_from mv) @ '' To:'' @ show_square (move_to mv) @ ''}''"

definition chess_accept :: "(duplex, unit) go" where
  "chess_accept =
     go_try recv_move (\<lambda>mv.
     go_then (show_line (''got move: '' @ show_move mv)) (
     go_try (send_move (the_move 5 7 5 6)) (\<lambda>_.
     go_try recv_move (\<lambda>mv.
     go_then (show_line (''got move: '' @ show_move mv)) (
     send_move (the_move 5 8 5 7))))))"

definition chess_play :: "(duplex, unit) go" where
  "chess_play =
     go_try (send_move (the_move 4 2 4 4)) (\<lambda>_.
     go_try recv_move (\<lambda>mv.
     go_then (show_line (''received move: '' @ show_move mv)) (
     go_try (send_move (the_move 3 2 3 3)) (\<lambda>_.
     go_try recv_move (\<lambda>mv.
     go_then (show_line (''received move: '' @ show_move mv)) (
     go_ret ()))))))"

text \<open>\<^verbatim>\<open>chessHandler.Accept\<close> on a connection, and \<^verbatim>\<open>run\<close>.\<close>

definition chess_handler :: "call world \<Rightarrow> nat \<Rightarrow> unit io" where
  "chess_handler W conn =
     go_try (invoke W (Net (AcceptStream conn))) (\<lambda>s.
     go_defer (invoke W (Net (CloseStream s))) (
     on_stream W s chess_accept))"

abbreviation (input) chess_bind where
  "chess_bind \<equiv> bind_loopback"

definition chess_run :: "call world \<Rightarrow> unit io" where
  "chess_run W =
     go_try (chess_bind W []) (\<lambda>server.
     go_try (invoke W (Net (NewRouter server [chess_alpn]))) (\<lambda>router.
     go_defer (invoke W (Net (RouterShutdown router server))) (
     go_try (chess_bind W []) (\<lambda>client.
     go_defer (shutdown W client) (
     go_try (query W got_text (Net (EndpointID server))) (\<lambda>short.
     go_try (go_wrap (''connect to '' @ short)
               (invoke W (Net (Connect client (AddrOf server) chess_alpn)))) (\<lambda>conn.
     go_defer (invoke W (Net (CloseConn conn 0 ''bye''))) (
     go_try (invoke W (Net (OpenStream conn))) (\<lambda>s.
     go_defer (invoke W (Net (CloseStream s))) (
     on_stream W s chess_play))))))))))"

section \<open>Frames over datagrams\<close>

record frame =
  f_kind :: byte
  f_seq :: u32
  f_data :: bytes

definition encode_frame :: "frame \<Rightarrow> bytes" where
  "encode_frame f = f_kind f # put_be32 (f_seq f) @ f_data f"

definition decode_frame :: "bytes \<Rightarrow> gerr + frame" where
  "decode_frame b =
     (if length b < 5 then Inl (Err (''short frame: '' @ digits_of (length b) @ '' bytes''))
      else Inr \<lparr>f_kind = b ! 0, f_seq = get_be32 (drop 1 b), f_data = drop 5 b\<rparr>)"

definition show_frame :: "frame \<Rightarrow> string" where
  "show_frame f = char_of (unat (f_kind f)) # digits_of (unat (f_seq f)) @ '' '' @ text_of (f_data f)"

definition demo_frames :: "frame list" where
  "demo_frames =
     [\<lparr>f_kind = 97, f_seq = 1, f_data = bytes_of ''audio opus packet 1''\<rparr>,
      \<lparr>f_kind = 118, f_seq = 1, f_data = bytes_of ''video keyframe''\<rparr>,
      \<lparr>f_kind = 97, f_seq = 2, f_data = bytes_of ''audio opus packet 2''\<rparr>,
      \<lparr>f_kind = 118, f_seq = 2, f_data = bytes_of ''video delta frame''\<rparr>]"

text \<open>
  The receiving goroutine: a datagram per frame, decoded and queued. What it leaves is the
  queue, and the error that ended it early if there was one.
\<close>

fun receive_frames :: "call world \<Rightarrow> nat \<Rightarrow> nat \<Rightarrow> (frame list \<times> gerr option) io" where
  "receive_frames W conn 0 = go_ret ([], None)"
| "receive_frames W conn (Suc n) =
     go_catch (invoke_get W got_bytes (Net (ReadDatagram conn))) (\<lambda>r. case r of
       Inl e \<Rightarrow> go_ret ([], Some e)
     | Inr b \<Rightarrow> (case decode_frame b of
         Inl e \<Rightarrow> go_ret ([], Some e)
       | Inr f \<Rightarrow> go_try (receive_frames W conn n) (\<lambda>(fs, e). go_ret (f # fs, e))))"

definition accept_frames :: "call world \<Rightarrow> nat \<Rightarrow> (frame list \<times> gerr option) io" where
  "accept_frames W server =
     go_catch (invoke W (Net (Accept server))) (\<lambda>r. case r of
       Inl e \<Rightarrow> go_ret ([], Some e)
     | Inr conn \<Rightarrow> receive_frames W conn (length demo_frames))"

text \<open>
  The printing loop. \<^verbatim>\<open>select\<close> takes any channel that is ready: the queue while it holds a
  frame or is closed, the error once there is one, the context when it is done. The choice
  among them is the world's (0 the queue, 1 the error, other numbers the context).
\<close>

fun print_frames :: "call world \<Rightarrow> frame list \<Rightarrow> gerr option \<Rightarrow> unit io" where
  "print_frames W fs err =
     go_try (query W got_nat (Os Select)) (\<lambda>choice.
     if 2 \<le> choice then go_try (query W got_text (Os CtxErr)) (\<lambda>t. go_fail (Err t))
     else case (fs, err) of
       ([], None) \<Rightarrow> go_ret ()
     | ([], Some e) \<Rightarrow> go_fail e
     | (f # fs', None) \<Rightarrow> go_then (println (show_frame f)) (print_frames W fs' err)
     | (f # fs', Some e) \<Rightarrow>
         if choice = 1 then go_fail e
         else go_then (println (show_frame f)) (print_frames W fs' err))"

declare print_frames.simps [simp del]

text \<open>The sending loop: a frame that does not fit one datagram ends the run.\<close>

definition send_frame :: "call world \<Rightarrow> nat \<Rightarrow> nat \<Rightarrow> frame \<Rightarrow> unit io" where
  "send_frame W conn n f =
     (let b = encode_frame f in
      if n < length b
      then go_fail (Err (''frame '' @ char_of (unat (f_kind f)) # digits_of (unat (f_seq f)) @ '' is '' @
             digits_of (length b) @ '' bytes, over the '' @ digits_of n @ ''-byte datagram limit''))
      else go_try (invoke W (Net (SendDatagram conn b))) (\<lambda>_. go_ret ()))"

text \<open>
  \<^verbatim>\<open>run\<close>. The receiver, started before the client, is run where its frames are collected;
  \<^verbatim>\<open>MaxDatagramSize\<close> reports 0 when the peer did not negotiate datagrams.
\<close>

definition dgram_alpn :: string where
  "dgram_alpn = ''go-iroh-examples/datagram-frames/1''"

abbreviation (input) dgram_bind where
  "dgram_bind \<equiv> bind_loopback"

definition dgram_run :: "call world \<Rightarrow> unit io" where
  "dgram_run W =
     go_try (dgram_bind W [WithALPNs [dgram_alpn]]) (\<lambda>server.
     go_defer (shutdown W server) (
     go_try (dgram_bind W []) (\<lambda>client.
     go_defer (shutdown W client) (
     go_try (invoke W (Net (Connect client (AddrOf server) dgram_alpn))) (\<lambda>conn.
     go_defer (invoke W (Net (CloseConn conn 0 []))) (
     go_try (query W got_flag (Net (MaxDatagramSize conn))) (\<lambda>ok.
     if \<not> ok then go_fail (Err ''peer did not negotiate datagram support'')
     else go_try (query W got_nat (Net (MaxDatagramSize conn))) (\<lambda>n.
     go_try (go_each (send_frame W conn n) demo_frames) (\<lambda>_.
     go_try (accept_frames W server) (\<lambda>(fs, err).
     print_frames W fs err))))))))))"

section \<open>A datagram or a stream\<close>

definition send_message :: "call world \<Rightarrow> nat \<Rightarrow> bytes \<Rightarrow> string io" where
  "send_message W conn b =
     go_try (query W got_flag (Net (MaxDatagramSize conn))) (\<lambda>ok.
     go_try (query W got_nat (Net (MaxDatagramSize conn))) (\<lambda>n.
     if ok \<and> length b \<le> n
     then go_try (invoke W (Net (SendDatagram conn b))) (\<lambda>_. go_ret ''datagram'')
     else go_try (invoke W (Net (OpenStream conn))) (\<lambda>s.
          go_catch (invoke W (Net (Write s b))) (\<lambda>r. case r of
            Inl e \<Rightarrow> go_then (invoke W (Net (CloseStream s))) (go_fail e)
          | Inr _ \<Rightarrow> go_try (invoke W (Net (CloseStream s))) (\<lambda>_. go_ret ''stream'')))))"


section \<open>What a frame is on the wire\<close>

definition frame_of :: "bytes \<Rightarrow> bytes" where
  "frame_of p = put_be32 (word_of_nat (length p)) @ p"

definition framable :: "bytes \<Rightarrow> bool" where
  "framable p \<longleftrightarrow> 0 < length p \<and> length p \<le> max_message_size"

lemma word_len_small:
  assumes "n \<le> 1000"
  shows "unat (word_of_nat n :: u32) = n"
  using assms by (simp add: unsigned_of_nat take_bit_nat_eq_self)

lemma word_len_gt: "((1000 :: u32) < w) = (1000 < unat w)"
  by (simp add: word_less_nat_alt)

lemma word_len_zero: "n \<le> 1000 \<Longrightarrow> ((word_of_nat n :: u32) = 0) = (n = 0)"
  using word_len_small [of n] by (metis of_nat_0 unat_eq_0)

lemma write_frame_ok:
  "length p \<le> max_message_size \<Longrightarrow> broken d = None \<Longrightarrow>
     write_frame p d = (Inr (), d\<lparr>outp := outp d @ frame_of p\<rparr>)"
  by (simp add: write_frame_def frame_of_def go_simps write_bytes_def)

lemma get_take4: "4 \<le> length b \<Longrightarrow> get_be32 (take 4 b) = get_be32 b"
  by (metis append_take_drop_id get_put_be32 length_take min.absorb2 put_get_be32)

text \<open>Reading, without the monad: what each input gives.\<close>

lemma read_frame_spec:
  "read_frame d =
     (let b = inp d; n = unat (get_be32 b) in
      if length b < 4 then (Inl (if b = [] then ErrEOF else ErrUnexpectedEOF), d\<lparr>inp := []\<rparr>)
      else if max_message_size < n then (Inl (too_large n), d\<lparr>inp := drop 4 b\<rparr>)
      else if n = 0 then (Inl (Err ''empty frame''), d\<lparr>inp := drop 4 b\<rparr>)
      else if length b < 4 + n
        then (Inl (if length b = 4 then ErrEOF else ErrUnexpectedEOF), d\<lparr>inp := []\<rparr>)
      else (Inr (take n (drop 4 b)), d\<lparr>inp := drop (4 + n) b\<rparr>))"
proof (cases "4 \<le> length (inp d)")
  case True
  then have get: "get_be32 (take 4 (inp d)) = get_be32 (inp d)"
    by (rule get_take4)
  have "(word_of_nat max_message_size < get_be32 (inp d)) = (max_message_size < unat (get_be32 (inp d)))"
    by (simp add: max_message_size_def word_len_gt)
  moreover have "(get_be32 (inp d) = 0) = (unat (get_be32 (inp d)) = 0)"
    by (simp add: unat_eq_0)
  ultimately show ?thesis
    using True
    by (auto simp: read_frame_def go_simps read_full_def get Let_def add.commute)
next
  case False
  then show ?thesis
    by (auto simp: read_frame_def go_simps read_full_def)
qed

lemma get_frame_of [simp]:
  "length p \<le> max_message_size \<Longrightarrow> unat (get_be32 (frame_of p @ rest)) = length p"
  by (simp add: frame_of_def max_message_size_def word_len_small)

lemma length_frame_of [simp]: "length (frame_of p) = 4 + length p"
  by (simp add: frame_of_def)

lemma drop_frame_of [simp]: "drop 4 (frame_of p @ rest) = p @ rest"
  by (simp add: frame_of_def)

lemma drop_frame_of_Nil [simp]: "drop 4 (frame_of p) = p"
  using drop_frame_of [of p "[]"] by simp

lemma read_frame_ok:
  assumes "framable p" and "inp d = frame_of p @ rest"
  shows "read_frame d = (Inr p, d\<lparr>inp := rest\<rparr>)"
proof -
  from assms(1) have p: "0 < length p" "length p \<le> max_message_size"
    by (auto simp: framable_def)
  have "drop (4 + length p) (frame_of p @ rest) = rest"
    by simp
  with p assms(2) show ?thesis
    by (simp add: read_frame_spec Let_def)
qed

interpretation frames: prefix_codec frame_of
  "\<lambda>b. case read_frame (reader b) of (r, d) \<Rightarrow> (r, inp d)" framable
  by unfold_locales (simp add: read_frame_ok)

lemma read_frame_sound:
  assumes "read_frame d = (Inr p, d')"
  shows "framable p \<and> inp d = frame_of p @ inp d'"
proof -
  let ?b = "inp d" and ?n = "unat (get_be32 (inp d))"
  from assms have len: "4 + ?n \<le> length ?b" and n: "0 < ?n" "?n \<le> max_message_size"
    and p: "p = take ?n (drop 4 ?b)" and d': "inp d' = drop (4 + ?n) ?b"
    by (auto simp: read_frame_spec Let_def split: if_splits)
  have lp: "length p = ?n"
    using len p by simp
  then have "put_be32 (word_of_nat (length p)) = put_be32 (get_be32 (take 4 ?b))"
    using len by (simp add: get_take4)
  also have "\<dots> = take 4 ?b"
    using len by (intro put_get_be32) simp
  finally have "frame_of p @ inp d' = take 4 ?b @ take ?n (drop 4 ?b) @ drop ?n (drop 4 ?b)"
    by (simp add: frame_of_def p d' add.commute)
  also have "\<dots> = ?b"
    by (simp only: append_take_drop_id)
  finally show ?thesis
    using n lp by (simp add: framable_def)
qed

section \<open>Moves\<close>

definition move_bytes :: "move \<Rightarrow> bytes" where
  "move_bytes mv =
     [file_x (move_from mv), file_y (move_from mv), file_x (move_to mv), file_y (move_to mv)]"

lemma length_move_bytes [simp]: "length (move_bytes mv) = 4"
  by (simp add: move_bytes_def)

lemma framable_move [simp]: "framable (move_bytes mv)"
  by (simp add: framable_def move_bytes_def max_message_size_def)

lemma send_move_ok:
  "broken d = None \<Longrightarrow> send_move mv d = (Inr (), d\<lparr>outp := outp d @ frame_of (move_bytes mv)\<rparr>)"
  by (simp add: send_move_def write_frame_ok move_bytes_def max_message_size_def)

lemma recv_move_ok:
  "inp d = frame_of (move_bytes mv) @ rest \<Longrightarrow> recv_move d = (Inr mv, d\<lparr>inp := rest\<rparr>)"
  using read_frame_ok [of "move_bytes mv" d rest]
  by (simp add: recv_move_def go_simps move_message_size_def) (simp add: move_bytes_def go_simps)

lemma recv_move_last:
  "inp d = frame_of (move_bytes mv) \<Longrightarrow> recv_move d = (Inr mv, d\<lparr>inp := []\<rparr>)"
  using recv_move_ok [of d mv "[]"] by simp

interpretation moves: prefix_codec "\<lambda>mv. frame_of (move_bytes mv)"
  "\<lambda>b. case recv_move (reader b) of (r, d) \<Rightarrow> (r, inp d)" "\<lambda>_. True"
  by unfold_locales (simp add: recv_move_ok)

section \<open>Datagram frames\<close>

interpretation dgrams: codec encode_frame decode_frame "\<lambda>_. True"
  by unfold_locales (simp add: encode_frame_def decode_frame_def)

lemma encode_decode_frame:
  assumes "decode_frame b = Inr f"
  shows "encode_frame f = b"
proof -
  from assms have len: "5 \<le> length b"
    by (auto simp: decode_frame_def split: if_splits)
  then obtain k t where b: "b = k # t" and t: "4 \<le> length t"
    by (cases b) auto
  have "put_be32 (get_be32 t) = take 4 t"
    using put_get_be32 [of "take 4 t"] t by (simp add: get_take4)
  with assms t show ?thesis
    by (auto simp: b decode_frame_def encode_frame_def)
qed

section \<open>Properties\<close>

fun read_frames :: "nat \<Rightarrow> (duplex, bytes list) go" where
  "read_frames 0 = go_ret []"
| "read_frames (Suc n) = go_try read_frame (\<lambda>p. go_try (read_frames n) (\<lambda>ps. go_ret (p # ps)))"

lemma read_frames_ok:
  "\<forall>p \<in> set ps. framable p \<Longrightarrow> inp d = concat (map frame_of ps) @ rest \<Longrightarrow>
     read_frames (length ps) d = (Inr ps, d\<lparr>inp := rest\<rparr>)"
proof (induction ps arbitrary: d)
  case (Cons p ps)
  then have "read_frame d = (Inr p, d\<lparr>inp := concat (map frame_of ps) @ rest\<rparr>)"
    by (intro read_frame_ok) auto
  with Cons show ?case by (simp add: go_simps)
qed (simp add: go_simps)

lemma write_frames_ok:
  "\<forall>p \<in> set ps. framable p \<Longrightarrow> broken d = None \<Longrightarrow>
     go_each write_frame ps d = (Inr (), d\<lparr>outp := outp d @ concat (map frame_of ps)\<rparr>)"
proof (induction ps arbitrary: d)
  case (Cons p ps)
  then have "write_frame p d = (Inr (), d\<lparr>outp := outp d @ frame_of p\<rparr>)"
    by (intro write_frame_ok) (auto simp: framable_def)
  with Cons show ?case by (simp add: go_simps)
qed (simp add: go_simps)



text \<open>Reading a frame trusts nothing the peer sends: a frame is returned only if it holds
  1 to 1000 bytes and is exactly the front of the input; a length over the bound is refused
  when only the four header bytes have been read, whatever follows.\<close>

lemma read_frame_bounded:
  "case read_frame d of
     (Inr p, d') \<Rightarrow> 0 < length p \<and> length p \<le> 1000 \<and> inp d = frame_of p @ inp d'
   | (Inl e, d') \<Rightarrow> 4 \<le> length (inp d) \<and> 1000 < unat (get_be32 (inp d))
       \<longrightarrow> e = too_large (unat (get_be32 (inp d))) \<and> inp d' = drop 4 (inp d)"
proof (cases "fst (read_frame d)")
  case (Inl e)
  then show ?thesis
    by (cases "read_frame d") (auto simp: read_frame_spec Let_def max_message_size_def split: if_splits)
next
  case (Inr p)
  then obtain d' where "read_frame d = (Inr p, d')"
    by (metis prod.collapse)
  with read_frame_sound [OF this] show ?thesis
    by (auto simp: framable_def max_message_size_def)
qed

lemma read_frame_bounded_witness:
  "case read_frame (reader [0, 0, 4, 0, 7]) of
     (Inr p, d') \<Rightarrow> False
   | (Inl e, d') \<Rightarrow> e = too_large 1024 \<and> inp d' = [7]"
  using read_frame_bounded [of "reader [0, 0, 4, 0, 7]"]
  by (auto simp: read_frame_spec Let_def max_message_size_def)

text \<open>The empty payload is the one exception to what the program's documentation says of
  \<^verbatim>\<open>writeFrame\<close>, that it refuses a payload the peer would reject: it writes an empty frame,
  and \<^verbatim>\<open>readFrame\<close> rejects every empty frame.\<close>

lemma empty_frame_written_not_read:
  "broken d = None \<Longrightarrow>
     fst (write_frame [] d) = Inr () \<and>
     fst (read_frame (reader (frame_of [] @ rest))) = Inl (Err ''empty frame'')"
  by (simp add: write_frame_ok read_frame_spec Let_def)

theorem empty_frame_written_not_read_witness:
  "fst (write_frame [] (reader [])) = Inr ()"
  using empty_frame_written_not_read [of "reader []"] by simp

text \<open>The game: connected to each other, the dialing half and the handler both run to
  their end without an error; each prints, in order, exactly the moves the other made.\<close>

lemma chess_game:
  "\<exists>to_server to_client d e.
     chess_play (reader to_client) = (Inr (), d) \<and> outp d = to_server \<and>
     chess_accept (reader to_server) = (Inr (), e) \<and> outp e = to_client \<and>
     inp d = [] \<and> inp e = [] \<and>
     shown d = [''received move: '' @ show_move (the_move 5 7 5 6),
                ''received move: '' @ show_move (the_move 5 8 5 7)] \<and>
     shown e = [''got move: '' @ show_move (the_move 4 2 4 4),
                ''got move: '' @ show_move (the_move 3 2 3 3)]"
proof (intro exI conjI)
  let ?f = "\<lambda>m. frame_of (move_bytes m)"
  let ?S = "?f (the_move 4 2 4 4) @ ?f (the_move 3 2 3 3)"
  let ?C = "?f (the_move 5 7 5 6) @ ?f (the_move 5 8 5 7)"
  let ?d = "\<lparr>inp = [], outp = ?S, shown = [''received move: '' @ show_move (the_move 5 7 5 6),
      ''received move: '' @ show_move (the_move 5 8 5 7)], broken = None\<rparr>"
  let ?e = "\<lparr>inp = [], outp = ?C, shown = [''got move: '' @ show_move (the_move 4 2 4 4),
      ''got move: '' @ show_move (the_move 3 2 3 3)], broken = None\<rparr>"
  show "chess_play (reader ?C) = (Inr (), ?d)"
    by (simp add: chess_play_def go_simps send_move_ok recv_move_ok recv_move_last show_line_def reader_def)
  show "chess_accept (reader ?S) = (Inr (), ?e)"
    by (simp add: chess_accept_def go_simps send_move_ok recv_move_ok recv_move_last show_line_def reader_def)
qed simp_all

text \<open>The datagram layout is a bijection: a frame decodes to itself, whatever its data,
  and a datagram that decodes is the encoding of what it decoded to; a datagram is refused
  exactly when it is shorter than the five-byte header.\<close>

lemma datagram_frame_bijection:
  "decode_frame (encode_frame f) = Inr f \<and>
   (decode_frame b = Inr f \<longrightarrow> encode_frame f = b) \<and>
   ((\<exists>e. decode_frame b = Inl e) \<longleftrightarrow> length b < 5)"
  using dgrams.dec_enc [of f] encode_decode_frame [of b f] by (auto simp: decode_frame_def)

lemma datagram_frame_bijection_witness:
  "encode_frame \<lparr>f_kind = 97, f_seq = 258, f_data = [7]\<rparr> = [97, 0, 0, 1, 2, 7]"
proof -
  have "decode_frame [97, 0, 0, 1, 2, 7] = Inr \<lparr>f_kind = 97, f_seq = 258, f_data = [7]\<rparr>"
    by (simp add: decode_frame_def)
  with datagram_frame_bijection show ?thesis by blast
qed

text \<open>Whatever \<^verbatim>\<open>select\<close> picks, the receiver's frames are printed in the order they
  arrived, each once, as a prefix of the queue; the run succeeds only when it has printed
  all of them and the receiving goroutine saw no error.\<close>

lemma printed_frames_prefix:
  "\<exists>k \<le> length fs. stdout_of (snd (print_frames W fs err h)) = stdout_of h @ map show_frame (take k fs) \<and>
     (fst (print_frames W fs err h) = Inr () \<longrightarrow> k = length fs \<and> err = None)"
proof (induction fs arbitrary: h)
  case Nil
  show ?case
    by (subst print_frames.simps, auto simp: go_simps split: option.splits)+
next
  case (Cons f fs)
  let ?h = "Out (show_frame f) # Did (Os Select) # h"
  obtain k where k: "k \<le> length fs"
    "stdout_of (snd (print_frames W fs err ?h)) = stdout_of ?h @ map show_frame (take k fs)"
    "fst (print_frames W fs err ?h) = Inr () \<longrightarrow> k = length fs \<and> err = None"
    using Cons.IH by blast
  consider (stop) e h' where "print_frames W (f # fs) err h = (Inl e, h')" "stdout_of h' = stdout_of h"
    | (go) "print_frames W (f # fs) err h = print_frames W fs err ?h"
    by (cases "2 \<le> got_nat W h (Os Select)"; cases err; cases "got_nat W h (Os Select) = 1")
      (auto simp: print_frames.simps [of W "f # fs"] go_simps)
  then show ?case
  proof cases
    case stop
    then show ?thesis by (intro exI [of _ 0]) simp
  next
    case go
    with k show ?thesis by (intro exI [of _ "Suc k"]) simp
  qed
qed

theorem printed_frames_prefix_witness:
  "\<forall>W f. \<exists>k \<le> 1. stdout_of (snd (print_frames W [f] None [])) = map show_frame (take k [f])"
proof (intro allI)
  fix W f
  show "\<exists>k \<le> 1. stdout_of (snd (print_frames W [f] None [])) = map show_frame (take k [f])"
    using printed_frames_prefix [of "[f]" W None "[]"] by auto
qed

definition fits_datagram :: "call world \<Rightarrow> nat \<Rightarrow> bytes \<Rightarrow> io_hist \<Rightarrow> bool" where
  "fits_datagram W conn b h \<longleftrightarrow> got_flag W h (Net (MaxDatagramSize conn)) \<and>
    length b \<le> got_nat W (Did (Net (MaxDatagramSize conn)) # h) (Net (MaxDatagramSize conn))"

text \<open>A message goes in one datagram exactly when the peer negotiated datagrams and it
  fits the limit; otherwise it is written whole to a new stream, which is closed whether or
  not the write fails.\<close>

lemma send_message_route:
  "(fst (send_message W conn b h) = Inr v \<longrightarrow> v = (if fits_datagram W conn b h then ''datagram'' else ''stream'')) \<and>
    (fits_datagram W conn b h \<longrightarrow> calls (snd (send_message W conn b h)) = calls h @
      map Net [MaxDatagramSize conn, MaxDatagramSize conn, SendDatagram conn b]) \<and>
    (\<not> fits_datagram W conn b h \<longrightarrow> (\<exists>s. calls (snd (send_message W conn b h)) = calls h @
          map Net [MaxDatagramSize conn, MaxDatagramSize conn, OpenStream conn, Write s b, CloseStream s])
        \<or> calls (snd (send_message W conn b h)) = calls h @
          map Net [MaxDatagramSize conn, MaxDatagramSize conn, OpenStream conn])"
  by (auto simp: send_message_def go_simps fits_datagram_def split: option.splits)

lemma send_message_route_witness:
  "\<exists>W. calls (snd (send_message W 0 [1, 2] [])) =
     map Net [MaxDatagramSize 0, MaxDatagramSize 0, SendDatagram 0 [1, 2]]"
proof
  let ?W = "\<lparr>fails = \<lambda>_ _. None, got_bytes = \<lambda>_ _. [], got_text = \<lambda>_ _. [], got_texts = \<lambda>_ _. [],
    got_nat = \<lambda>_ _. 1200, got_flag = \<lambda>_ _. True\<rparr> :: call world"
  have "fits_datagram ?W 0 [1, 2] []"
    by (simp add: fits_datagram_def)
  with send_message_route [of ?W 0 "[1, 2]" "[]"]
  show "calls (snd (send_message ?W 0 [1, 2] [])) =
     map Net [MaxDatagramSize 0, MaxDatagramSize 0, SendDatagram 0 [1, 2]]"
    by simp
qed

section \<open>Ownership\<close>

lemma owns_chess_handler: "owns opens_endpoint frees_endpoint {} (chess_handler W conn) (\<lambda>_. {})"
  unfolding chess_handler_def
  by (rule owns_try owns_invoke owns_defer drops_invoke owns_on_stream | simp)+

lemma owns_receive_frames: "owns opens_endpoint frees_endpoint {} (receive_frames W conn n) (\<lambda>_. {})"
proof (induction n)
  case (Suc n)
  show ?case
    unfolding receive_frames.simps
    by (rule owns_catch owns_invoke_get owns_try Suc owns_ret owns_cases | simp)+
qed (simp add: owns_ret)

lemma owns_accept_frames: "owns opens_endpoint frees_endpoint {} (accept_frames W server) (\<lambda>_. {})"
  unfolding accept_frames_def
  by (rule owns_catch owns_invoke owns_receive_frames owns_ret owns_cases | simp)+

lemma owns_print_frames: "owns opens_endpoint frees_endpoint {} (print_frames W fs err) (\<lambda>_. {})"
proof (induction fs arbitrary: err)
  case Nil
  show ?case
    by (subst print_frames.simps)
      (rule owns_try owns_query owns_cases owns_ret owns_fail | simp)+
next
  case (Cons f fs)
  show ?case
    by (subst print_frames.simps)
      (rule owns_try owns_query owns_cases owns_fail owns_then drops_println | simp add: Cons)+
qed

lemma owns_send_frame: "owns opens_endpoint frees_endpoint {} (send_frame W conn n f) (\<lambda>_. {})"
  unfolding send_frame_def
  by (rule owns_cases owns_fail owns_try owns_invoke owns_ret | simp)+

lemma owns_dgram_run: "owns opens_endpoint frees_endpoint {} (dgram_run W) (\<lambda>_. {})"
  unfolding dgram_run_def
  by (rule owns_try owns_bind owns_defer drops_shutdown drops_invoke owns_invoke owns_query owns_cases
        owns_fail owns_each owns_send_frame owns_accept_frames owns_print_frames | simp)+

end
