(* ===== verification/GossipKV.thy ===== *)
theory GossipKV
  imports Streams "HOL-Library.AList"
begin

text \<open>
  \<^verbatim>\<open>cmd/go-iroh-gossip-kv\<close>: signed key-value updates over a gossip topic. The first part is
  the wire format (\<^verbatim>\<open>encoding/binary\<close>'s variable-length integers, length-prefixed byte
  strings, the update), the second the store and its replication rule, the third the node
  and the program. Keys and signatures are a library's: they are the parameter \<^verbatim>\<open>crypto\<close>.
\<close>

section \<open>Variable-length integers\<close>

text \<open>\<^verbatim>\<open>binary.AppendUvarint\<close> and \<^verbatim>\<open>binary.Uvarint\<close>, for numbers below \<open>2 ^ 64\<close>.\<close>

fun put_uvarint :: "nat \<Rightarrow> bytes" where
  "put_uvarint x =
     (if x < 128 then [word_of_nat x] else word_of_nat (128 + x mod 128) # put_uvarint (x div 128))"

declare put_uvarint.simps [simp del]

fun get_uvarint_at :: "nat \<Rightarrow> nat \<Rightarrow> bytes \<Rightarrow> (nat \<times> bytes) option" where
  "get_uvarint_at i x [] = None"
| "get_uvarint_at i x (b # bs) =
     (if i = 10 then None
      else if unat b < 128 then
        (if i = 9 \<and> 1 < unat b then None else Some (x + unat b * 2 ^ (7 * i), bs))
      else get_uvarint_at (Suc i) (x + (unat b - 128) * 2 ^ (7 * i)) bs)"

text \<open>A count \<open>n \<le> 0\<close> (input too short, or more than 64 bits) is \<^verbatim>\<open>None\<close>.\<close>

definition get_uvarint :: "bytes \<Rightarrow> (nat \<times> bytes) option" where
  "get_uvarint b = get_uvarint_at 0 0 b"

lemma get_put_uvarint_at:
  "i \<le> 9 \<Longrightarrow> x < 2 ^ (64 - 7 * i) \<Longrightarrow>
     get_uvarint_at i a (put_uvarint x @ rest) = Some (a + x * 2 ^ (7 * i), rest)"
proof (induction x arbitrary: i a rule: put_uvarint.induct)
  case (1 x)
  show ?case
  proof (cases "x < 128")
    case True
    have "unat (word_of_nat x :: byte) = x"
      using True by (simp add: unat_byte_of_nat)
    moreover have "i = 9 \<Longrightarrow> x \<le> 1"
      using "1.prems" by simp
    ultimately show ?thesis
      using True "1.prems" by (auto simp: put_uvarint.simps [of x])
  next
    case False
    have small: "128 + x mod 128 < 256"
      by simp
    then have u: "unat (word_of_nat (128 + x mod 128) :: byte) = 128 + x mod 128"
      by (rule unat_byte_of_nat)
    have i: "i < 9"
    proof (rule ccontr)
      assume "\<not> i < 9"
      with "1.prems" have "x < 2" by (cases "i = 9") auto
      with False show False by simp
    qed
    have "x div 128 < 2 ^ (64 - 7 * Suc i)"
    proof -
      have "(2 :: nat) ^ (64 - 7 * i) = 128 * 2 ^ (64 - 7 * Suc i)"
      proof -
        have eq: "64 - 7 * i = 7 + (64 - 7 * Suc i)"
          using i by simp
        have "(2 :: nat) ^ (7 + (64 - 7 * Suc i)) = 128 * 2 ^ (64 - 7 * Suc i)"
          by (simp only: power_add) simp
        then show ?thesis by (simp only: eq)
      qed
      with "1.prems" show ?thesis by (simp add: less_mult_imp_div_less mult.commute)
    qed
    with "1.IH" [of "Suc i" "a + x mod 128 * 2 ^ (7 * i)"] False i
    have "get_uvarint_at (Suc i) (a + x mod 128 * 2 ^ (7 * i)) (put_uvarint (x div 128) @ rest)
        = Some (a + x mod 128 * 2 ^ (7 * i) + x div 128 * 2 ^ (7 * Suc i), rest)"
      by simp
    moreover have "x mod 128 * 2 ^ (7 * i) + x div 128 * 2 ^ (7 * Suc i) = x * 2 ^ (7 * i)"
    proof -
      have "x * 2 ^ (7 * i) = (x mod 128 + 128 * (x div 128)) * 2 ^ (7 * i)"
        by simp
      also have "\<dots> = x mod 128 * 2 ^ (7 * i) + x div 128 * 2 ^ (7 * Suc i)"
        by (simp only: add_mult_distrib) (simp add: power_add mult.assoc mult.commute mult.left_commute)
      finally show ?thesis by simp
    qed
    ultimately show ?thesis
      using False i u by (subst put_uvarint.simps) (simp add: add.assoc)
  qed
qed

lemma get_put_uvarint: "x < 2 ^ 64 \<Longrightarrow> get_uvarint (put_uvarint x @ rest) = Some (x, rest)"
  using get_put_uvarint_at [of 0 x 0 rest] by (simp add: get_uvarint_def)

section \<open>Byte strings\<close>

definition err_short :: gerr where
  "err_short = Err ''message too short''"

definition append_bytes :: "bytes \<Rightarrow> bytes \<Rightarrow> bytes" where
  "append_bytes b p = (b @ put_uvarint (length p)) @ p"

definition read_bytes :: "bytes \<Rightarrow> gerr + bytes \<times> bytes" where
  "read_bytes b =
     (case get_uvarint b of
        None \<Rightarrow> Inl (Err ''bad length'')
      | Some (n, b') \<Rightarrow>
          if length b' < n then Inl err_short else Inr (take n b', drop n b'))"

definition sized :: "bytes \<Rightarrow> bool" where
  "sized p \<longleftrightarrow> length p < 2 ^ 64"

lemma append_bytes_append: "append_bytes b p = b @ append_bytes [] p"
  by (simp add: append_bytes_def)

lemma read_append_bytes: "sized p \<Longrightarrow> read_bytes (append_bytes [] p @ rest) = Inr (p, rest)"
  by (simp add: read_bytes_def append_bytes_def get_put_uvarint sized_def)

interpretation byte_strings: prefix_codec "append_bytes []"
  "\<lambda>b. case read_bytes b of Inl e \<Rightarrow> (Inl e, b) | Inr (p, rest) \<Rightarrow> (Inr p, rest)" sized
  by unfold_locales (simp add: read_append_bytes)

interpretation uvarints: prefix_codec put_uvarint
  "\<lambda>b. case get_uvarint b of None \<Rightarrow> (Inl (), b) | Some (n, rest) \<Rightarrow> (Inr n, rest)" "\<lambda>n. n < 2 ^ 64"
  by unfold_locales (simp add: get_put_uvarint)

section \<open>Updates\<close>

text \<open>
  The key library: a public key of 32 bytes and a signature of 64 with their byte forms, a
  parser for each that may refuse, signing and verification. What the program relies on is
  \<open>crypto_ok\<close>: byte forms have their sizes and parse back, and a signature verifies under
  the key that made it.
\<close>

record ('sk, 'pk, 'sg) crypto =
  pk_parse :: "bytes \<Rightarrow> gerr + 'pk"
  pk_bytes :: "'pk \<Rightarrow> bytes"
  pk_short :: "'pk \<Rightarrow> string"
  sig_parse :: "bytes \<Rightarrow> gerr + 'sg"
  sig_bytes :: "'sg \<Rightarrow> bytes"
  sk_public :: "'sk \<Rightarrow> 'pk"
  sk_sign :: "'sk \<Rightarrow> bytes \<Rightarrow> 'sg"
  pk_verify :: "'pk \<Rightarrow> bytes \<Rightarrow> 'sg \<Rightarrow> gerr option"
  fresh_key :: "nat \<Rightarrow> 'sk"

definition public_key_size :: nat where
  "public_key_size = 32"

definition signature_size :: nat where
  "signature_size = 64"

definition crypto_ok :: "('sk, 'pk, 'sg) crypto \<Rightarrow> bool" where
  "crypto_ok C \<longleftrightarrow>
     (\<forall>k. length (pk_bytes C k) = public_key_size \<and> pk_parse C (pk_bytes C k) = Inr k) \<and>
     (\<forall>g. length (sig_bytes C g) = signature_size \<and> sig_parse C (sig_bytes C g) = Inr g) \<and>
     (\<forall>sk m. pk_verify C (sk_public C sk) m (sk_sign C sk m) = None)"

record ('pk, 'sg) update =
  u_scope :: 'pk
  u_key :: bytes
  u_timestamp :: u64
  u_value :: bytes
  u_signature :: 'sg

definition signing_data :: "bytes \<Rightarrow> u64 \<Rightarrow> bytes \<Rightarrow> bytes" where
  "signing_data k timestamp value =
     append_bytes (append_bytes [] k @ put_uvarint (unat timestamp)) value"

definition sign_update ::
  "('sk, 'pk, 'sg) crypto \<Rightarrow> 'sk \<Rightarrow> bytes \<Rightarrow> bytes \<Rightarrow> u64 \<Rightarrow> ('pk, 'sg) update" where
  "sign_update C sk k value timestamp =
     \<lparr>u_scope = sk_public C sk, u_key = k, u_timestamp = timestamp, u_value = value,
      u_signature = sk_sign C sk (signing_data k timestamp value)\<rparr>"

definition encode_update :: "('sk, 'pk, 'sg) crypto \<Rightarrow> ('pk, 'sg) update \<Rightarrow> bytes" where
  "encode_update C u =
     append_bytes (append_bytes ([0] @ pk_bytes C (u_scope u)) (u_key u)
       @ put_uvarint (unat (u_timestamp u))) (u_value u)
     @ sig_bytes C (u_signature u)"

definition decode_update ::
  "('sk, 'pk, 'sg) crypto \<Rightarrow> bytes \<Rightarrow> gerr + ('pk, 'sg) update" where
  "decode_update C b =
     (case b of
        [] \<Rightarrow> Inl (Err ''not a SignedValue message'')
      | v # b \<Rightarrow>
        if v \<noteq> 0 then Inl (Err ''not a SignedValue message'')
        else if length b < public_key_size then Inl err_short
        else case pk_parse C (take public_key_size b) of
          Inl e \<Rightarrow> Inl (Wrapf ''parse scope'' e)
        | Inr scope \<Rightarrow> (case read_bytes (drop public_key_size b) of
            Inl e \<Rightarrow> Inl (Wrapf ''read key'' e)
          | Inr (k, b) \<Rightarrow> (case get_uvarint b of
              None \<Rightarrow> Inl (Err ''bad timestamp'')
            | Some (ts, b) \<Rightarrow> (case read_bytes b of
                Inl e \<Rightarrow> Inl (Wrapf ''read value'' e)
              | Inr (value, b) \<Rightarrow>
                if length b \<noteq> signature_size
                then Inl (Err (''signature is '' @ digits_of (length b) @ '' bytes, want '' @
                       digits_of signature_size))
                else case sig_parse C b of
                  Inl e \<Rightarrow> Inl (Wrapf ''parse signature'' e)
                | Inr sg \<Rightarrow> Inr \<lparr>u_scope = scope, u_key = k, u_timestamp = word_of_nat ts,
                                  u_value = value, u_signature = sg\<rparr>))))"

definition sized_update :: "('pk, 'sg) update \<Rightarrow> bool" where
  "sized_update u \<longleftrightarrow> sized (u_key u) \<and> sized (u_value u)"

lemma unat_u64_less [simp]: "unat (w :: u64) < 2 ^ 64"
proof -
  have "unat w < 2 ^ LENGTH(64)"
    by (rule unsigned_less)
  then show ?thesis by simp
qed

lemma unat_u64_eq [simp]: "unat (t :: u64) = unat t' \<longleftrightarrow> t = t'"
  by (auto intro: unsigned_word_eqI)

lemma decode_encode_update:
  assumes "crypto_ok C" and "sized_update u"
  shows "decode_update C (encode_update C u) = Inr u"
proof -
  let ?sig = "sig_bytes C (u_signature u)"
  let ?v = "append_bytes [] (u_value u) @ ?sig"
  let ?t = "put_uvarint (unat (u_timestamp u)) @ ?v"
  let ?k = "append_bytes [] (u_key u) @ ?t"
  have enc: "encode_update C u = 0 # pk_bytes C (u_scope u) @ ?k"
    by (simp add: encode_update_def append_bytes_append [of "_ # _"] append_bytes_append [of "_ @ _"])
  have pk: "take public_key_size (pk_bytes C (u_scope u) @ ?k) = pk_bytes C (u_scope u)"
    "drop public_key_size (pk_bytes C (u_scope u) @ ?k) = ?k"
    "(length (pk_bytes C (u_scope u) @ ?k) < public_key_size) = False"
    "pk_parse C (pk_bytes C (u_scope u)) = Inr (u_scope u)"
    using assms(1) by (simp_all add: crypto_ok_def)
  have k: "read_bytes ?k = Inr (u_key u, ?t)" and v: "read_bytes ?v = Inr (u_value u, ?sig)"
    using assms(2) by (simp_all add: read_append_bytes sized_update_def)
  have t: "get_uvarint ?t = Some (unat (u_timestamp u), ?v)"
    by (rule get_put_uvarint [OF unat_u64_less])
  have sg: "length ?sig = signature_size" "sig_parse C ?sig = Inr (u_signature u)"
    using assms(1) by (simp_all add: crypto_ok_def)
  show ?thesis
    unfolding enc decode_update_def
    by (simp only: list.case simp_thms if_False pk k t v sg sum.case prod.case option.case) simp
qed

text \<open>The signed bytes determine the key, the timestamp and the value they were made from.\<close>

lemma signing_data_inject:
  assumes "sized k" "sized k'" "sized v" "sized v'"
  shows "signing_data k t v = signing_data k' t' v' \<longleftrightarrow> k = k' \<and> t = t' \<and> v = v'"
proof -
  have sd: "signing_data k t v = append_bytes [] k @ put_uvarint (unat t) @ append_bytes [] v" for k t v
    by (simp add: signing_data_def append_bytes_append [of "_ @ _"])
  have "signing_data k t v = signing_data k' t' v' \<longleftrightarrow>
      k = k' \<and> put_uvarint (unat t) @ append_bytes [] v = put_uvarint (unat t') @ append_bytes [] v'"
    using assms by (simp add: sd byte_strings.enc_append_eq)
  also have "\<dots> \<longleftrightarrow> k = k' \<and> unat t = unat t' \<and> append_bytes [] v = append_bytes [] v'"
    by (simp only: uvarints.enc_append_eq [OF unat_u64_less unat_u64_less])
  also have "\<dots> \<longleftrightarrow> k = k' \<and> t = t' \<and> v = v'"
    using assms byte_strings.enc_append_eq [of v v' "[]" "[]"] by simp
  finally show ?thesis .
qed

section \<open>Last-writer-wins stores\<close>

text \<open>
  The contract of a replicated store: a write under a key is kept unless what is there is
  at least as new. Inside, what any sequence of writes leaves: the newest value per key, so
  that without two different values of one stamp under one key, the set of the writes alone
  decides, and neither their order nor their repetition matters.
\<close>

fun newer :: "('v \<Rightarrow> 'o::linorder) \<Rightarrow> 'v option \<Rightarrow> 'v \<Rightarrow> 'v" where
  "newer stamp None v = v"
| "newer stamp (Some o') v = (if stamp v \<le> stamp o' then o' else v)"

locale lww_store =
  fixes read :: "'s \<Rightarrow> 'k \<Rightarrow> 'v option"
    and put :: "'s \<Rightarrow> 'k \<Rightarrow> 'v \<Rightarrow> 's"
    and stamp :: "'v \<Rightarrow> 'o::linorder"
  assumes read_put: "read (put s k v) = (read s)(k \<mapsto> newer stamp (read s k) v)"
begin

definition puts :: "'s \<Rightarrow> ('k \<times> 'v) list \<Rightarrow> 's" where
  "puts s ops = foldl (\<lambda>s (k, v). put s k v) s ops"

definition candidates :: "'s \<Rightarrow> ('k \<times> 'v) set \<Rightarrow> 'k \<Rightarrow> 'v set" where
  "candidates s ops k = set_option (read s k) \<union> {v. (k, v) \<in> ops}"

lemma puts_Nil [simp]: "puts s [] = s"
  by (simp add: puts_def)

lemma puts_snoc [simp]: "puts s (ops @ [(k, v)]) = put (puts s ops) k v"
  by (simp add: puts_def)

lemma puts_append: "puts s (xs @ ys) = puts (puts s xs) ys"
  by (simp add: puts_def)

lemma read_puts_newest:
  "case read (puts s ops) k of
     None \<Rightarrow> candidates s (set ops) k = {}
   | Some v \<Rightarrow> v \<in> candidates s (set ops) k \<and> (\<forall>w \<in> candidates s (set ops) k. stamp w \<le> stamp v)"
proof (induction ops rule: rev_induct)
  case Nil
  then show ?case by (auto simp: candidates_def split: option.splits)
next
  case (snoc op ops)
  obtain k' v' where op: "op = (k', v')" by fastforce
  have cand: "candidates s (set (ops @ [op])) k =
      candidates s (set ops) k \<union> (if k = k' then {v'} else {})"
    by (auto simp: candidates_def op)
  show ?case
  proof (cases "k = k'")
    case False
    then have same: "candidates s (set (ops @ [op])) k = candidates s (set ops) k"
      unfolding cand by simp
    from False snoc show ?thesis
      unfolding same by (simp add: op read_put)
  next
    case True
    show ?thesis
    proof (cases "read (puts s ops) k")
      case None
      with snoc True show ?thesis
        unfolding cand by (simp add: op read_put)
    next
      case (Some w)
      with snoc have "\<forall>x \<in> candidates s (set ops) k. stamp x \<le> stamp w" "w \<in> candidates s (set ops) k"
        by auto
      with Some True show ?thesis
        unfolding cand by (auto simp: op read_put)
    qed
  qed
qed

definition no_ties :: "'s \<Rightarrow> ('k \<times> 'v) set \<Rightarrow> bool" where
  "no_ties s ops \<longleftrightarrow> (\<forall>k. inj_on stamp (candidates s ops k))"

lemma read_puts_set:
  assumes "set ops = set ops'" and "no_ties s (set ops)"
  shows "read (puts s ops) = read (puts s ops')"
proof
  fix k
  have inj: "inj_on stamp (candidates s (set ops) k)"
    using assms(2) by (simp add: no_ties_def)
  show "read (puts s ops) k = read (puts s ops') k"
    using read_puts_newest [of s ops k] read_puts_newest [of s ops' k] inj
    by (auto simp: assms(1) split: option.splits dest: inj_onD intro: antisym)
qed

end

section \<open>The store\<close>

text \<open>
  \<^verbatim>\<open>kvStore\<close>: a map from scopes to maps from keys to values, as association lists in the
  order of insertion (the order Go ranges over a map in is not fixed; \<^verbatim>\<open>print\<close> sorts).
\<close>

record kv_value =
  kv_value :: string
  kv_timestamp :: u64
  kv_signer :: string

type_synonym kv_store = "(bytes \<times> (string \<times> kv_value) list) list"

definition kv_read :: "kv_store \<Rightarrow> bytes \<times> string \<Rightarrow> kv_value option" where
  "kv_read s = (\<lambda>(scope, k). case map_of s scope of None \<Rightarrow> None | Some keys \<Rightarrow> map_of keys k)"

definition kv_put :: "kv_store \<Rightarrow> bytes \<times> string \<Rightarrow> kv_value \<Rightarrow> kv_store" where
  "kv_put s = (\<lambda>(scope, k) v.
     let (keys, s) = (case map_of s scope of
           None \<Rightarrow> ([], AList.update scope [] s)
         | Some keys \<Rightarrow> (keys, s)) in
     case map_of keys k of
       Some old \<Rightarrow> if kv_timestamp v \<le> kv_timestamp old then s
                   else AList.update scope (AList.update k v keys) s
     | None \<Rightarrow> AList.update scope (AList.update k v keys) s)"

definition kv_apply :: "('sk, 'pk, 'sg) crypto \<Rightarrow> kv_store \<Rightarrow> bytes \<Rightarrow> gerr + kv_store" where
  "kv_apply C s msg =
     (case decode_update C msg of
        Inl e \<Rightarrow> Inl (Wrapf ''decode update'' e)
      | Inr u \<Rightarrow>
        (case pk_verify C (u_scope u)
               (signing_data (u_key u) (u_timestamp u) (u_value u)) (u_signature u) of
           Some e \<Rightarrow> Inl (Wrapf ''verify update'' e)
         | None \<Rightarrow> Inr (kv_put s (pk_bytes C (u_scope u), text_of (u_key u))
             \<lparr>kv_value = text_of (u_value u), kv_timestamp = u_timestamp u,
              kv_signer = pk_short C (u_scope u)\<rparr>)))"

definition kv_lines :: "kv_store \<Rightarrow> string list" where
  "kv_lines s = sort (concat (map (\<lambda>(scope, keys).
     map (\<lambda>(k, v). k @ ''='' @ kv_value v @ '' signer='' @ kv_signer v) keys) s))"

lemma kv_read_put:
  "kv_read (kv_put s sk v) = (kv_read s)(sk \<mapsto> newer kv_timestamp (kv_read s sk) v)"
  by (cases sk) (auto simp: fun_eq_iff kv_read_def kv_put_def update_conv' split: option.splits)

interpretation kv: lww_store kv_read kv_put kv_timestamp
  by unfold_locales (rule kv_read_put)

section \<open>The node\<close>

record 'sk node =
  node_endpoint :: nat
  node_router :: nat
  node_gossip :: nat
  node_signer :: 'sk
  node_store :: kv_store

definition kv_gossip_alpn :: string where
  "kv_gossip_alpn = ''gossip.ALPN''"

text \<open>\<^verbatim>\<open>serve\<close>: the router owns the endpoint once it is made; until then the endpoint is shut down.\<close>

definition kv_serve :: "call world \<Rightarrow> ('sk, 'pk, 'sg) crypto \<Rightarrow> nat \<Rightarrow> 'sk node io" where
  "kv_serve W C ep =
     go_try (query W (\<lambda>W h c. length h) (Gossip (NewGossip ep))) (\<lambda>g.
     go_catch (invoke W (Net (NewRouter ep [kv_gossip_alpn]))) (\<lambda>r. case r of
       Inl e \<Rightarrow> go_then (shutdown W ep) (go_fail (Wrapf ''new router'' e))
     | Inr r \<Rightarrow>
         go_catch (invoke W (Os GenerateKey)) (\<lambda>k. case k of
           Inl e \<Rightarrow> go_then (invoke W (Net (RouterShutdown r ep))) (go_fail (Wrapf ''generate key'' e))
         | Inr k \<Rightarrow> go_ret \<lparr>node_endpoint = ep, node_router = r, node_gossip = g,
                             node_signer = fresh_key C k, node_store = []\<rparr>)))"

abbreviation (input) kv_bind where
  "kv_bind \<equiv> bind_loopback"

definition new_node :: "call world \<Rightarrow> ('sk, 'pk, 'sg) crypto \<Rightarrow> 'sk node io" where
  "new_node W C =
     go_try (go_wrap ''bind endpoint'' (kv_bind W [])) (\<lambda>ep.
     kv_serve W C ep)"

definition close_node :: "call world \<Rightarrow> 'sk node \<Rightarrow> nat io" where
  "close_node W n =
     go_then (invoke W (Gossip (GossipShutdown (node_gossip n)))) (
     go_then (invoke W (Net (RouterShutdown (node_router n) (node_endpoint n)))) (
     invoke W (Gossip (ClearKey (node_endpoint n)))))"

text \<open>\<^verbatim>\<open>put\<close>: the message, and the store after the node has applied its own update.\<close>

definition kv_node_put ::
  "call world \<Rightarrow> ('sk, 'pk, 'sg) crypto \<Rightarrow> 'sk node \<Rightarrow> string \<Rightarrow> string \<Rightarrow> (bytes \<times> kv_store) io" where
  "kv_node_put W C n name value =
     go_try (query W got_nat (Gossip NowNanos)) (\<lambda>now.
     let u = sign_update C (node_signer n) (bytes_of name) (bytes_of value) (word_of_nat now);
         msg = encode_update C u in
     go_try (go_lift (kv_apply C (node_store n) msg)) (\<lambda>s.
     go_ret (msg, s)))"

text \<open>
  \<^verbatim>\<open>applyEvents\<close>: events other than a received message (kind 1) are skipped, the first
  message is applied, and the end of the events (kind 0) returns the context's error. The
  number of rounds is bounded by the fuel.
\<close>

fun apply_events ::
  "call world \<Rightarrow> ('sk, 'pk, 'sg) crypto \<Rightarrow> nat \<Rightarrow> nat \<Rightarrow> kv_store \<Rightarrow> kv_store io" where
  "apply_events W C 0 topic s = go_fail ErrFuel"
| "apply_events W C (Suc fuel) topic s =
     go_try (invoke_get W (\<lambda>W h c. (got_nat W h c, got_bytes W h c)) (Gossip (NextEvent topic))) (\<lambda>(kind, content).
     if kind = 0 then go_try (invoke W (Os CtxErr)) (\<lambda>_. go_ret s)
     else if kind \<noteq> 1 then apply_events W C fuel topic s
     else go_lift (kv_apply C s content))"

definition kv_topic :: string where
  "kv_topic = ''go-iroh-smol-kv''"

text \<open>
  \<^verbatim>\<open>run\<close>. The goroutine that applies the first node's events is run where its result is
  awaited; \<^verbatim>\<open>select\<close> may take the context's end instead.
\<close>

definition kv_run :: "call world \<Rightarrow> ('sk, 'pk, 'sg) crypto \<Rightarrow> nat \<Rightarrow> unit io" where
  "kv_run W C fuel =
     go_try (new_node W C) (\<lambda>a.
     go_defer (close_node W a) (
     go_try (new_node W C) (\<lambda>b.
     go_defer (close_node W b) (
     go_try (go_wrap ''subscribe'' (invoke W (Gossip (Subscribe (node_gossip a) kv_topic)))) (\<lambda>a_topic.
     go_defer (invoke W (Gossip (TopicClose a_topic))) (
     go_try (go_wrap ''subscribe and join''
       (invoke W (Gossip (SubscribeJoin (node_gossip b) kv_topic (AddrOf (node_endpoint a)))))) (\<lambda>b_topic.
     go_defer (invoke W (Gossip (TopicClose b_topic))) (
     go_try (kv_node_put W C b ''color'' ''blue'') (\<lambda>(msg, b_store).
     go_try (go_wrap ''broadcast'' (invoke W (Gossip (Broadcast b_topic msg)))) (\<lambda>_.
     go_try (query W got_flag (Os Select)) (\<lambda>ready.
     if \<not> ready then go_try (query W got_text (Os CtxErr)) (\<lambda>t. go_fail (Err t))
     else go_try (apply_events W C fuel a_topic (node_store a)) (\<lambda>a_store.
     go_try (query W got_text (Net (EndpointID (node_endpoint b)))) (\<lambda>short.
     go_try (query W got_nat (Gossip (Neighbors b_topic))) (\<lambda>n.
     go_then (println (''node '' @ short @ '' joined '' @ digits_of n @ '' neighbor'')) (
     println_all (kv_lines a_store))))))))))))))))"

lemma owns_kv_serve: "owns opens_endpoint frees_endpoint {ep} (kv_serve W C ep) (\<lambda>n. {node_endpoint n})"
  unfolding kv_serve_def
proof (rule owns_try_query)
  fix g
  show "owns opens_endpoint frees_endpoint {ep}
      (go_catch (invoke W (Net (NewRouter ep [kv_gossip_alpn]))) (\<lambda>r. case r of
         Inl e \<Rightarrow> go_then (shutdown W ep) (go_fail (Wrapf ''new router'' e))
       | Inr r \<Rightarrow>
           go_catch (invoke W (Os GenerateKey)) (\<lambda>k. case k of
             Inl e \<Rightarrow> go_then (invoke W (Net (RouterShutdown r ep))) (go_fail (Wrapf ''generate key'' e))
           | Inr k \<Rightarrow> go_ret \<lparr>node_endpoint = ep, node_router = r, node_gossip = g,
                               node_signer = fresh_key C k, node_store = []\<rparr>)))
      (\<lambda>n. {node_endpoint n})"
    by (rule owns_catch owns_invoke owns_case_sum owns_then drops_shutdown drops_invoke owns_fail owns_ret
        | simp)+
qed simp

lemma owns_new_node: "owns opens_endpoint frees_endpoint {} (new_node W C) (\<lambda>n. {node_endpoint n})"
  unfolding new_node_def
  by (rule owns_try owns_wrap owns_bind owns_kv_serve)+

lemma drops_close_node: "drops opens_endpoint frees_endpoint {node_endpoint n} (close_node W n)"
  by (auto simp: drops_def close_node_def go_simps split: option.splits)

lemma owns_kv_node_put: "owns opens_endpoint frees_endpoint {} (kv_node_put W C n k v) (\<lambda>_. {})"
  unfolding kv_node_put_def
  by (rule owns_try owns_query owns_cases owns_lift owns_ret | simp)+

lemma owns_apply_events: "owns opens_endpoint frees_endpoint {} (apply_events W C fuel topic s) (\<lambda>_. {})"
proof (induction fuel)
  case (Suc fuel)
  show ?case
    unfolding apply_events.simps
    by (rule owns_try owns_invoke_get owns_cases owns_invoke owns_lift owns_ret Suc | simp)+
qed (simp add: owns_fail)

lemma owns_kv_run: "owns opens_endpoint frees_endpoint {} (kv_run W C fuel) (\<lambda>_. {})"
  unfolding kv_run_def
  by (rule owns_try owns_new_node owns_defer drops_close_node drops_invoke owns_wrap owns_invoke
        owns_kv_node_put owns_cases owns_query owns_fail owns_apply_events owns_then drops_println
        owns_println_all | simp)+

section \<open>What a set of messages leaves\<close>

text \<open>A message as a write: what it writes, if it decodes and its signature verifies.\<close>

definition write_of ::
  "('sk, 'pk, 'sg) crypto \<Rightarrow> bytes \<Rightarrow> ((bytes \<times> string) \<times> kv_value) option" where
  "write_of C msg =
     (case decode_update C msg of
        Inl e \<Rightarrow> None
      | Inr u \<Rightarrow>
        if pk_verify C (u_scope u) (signing_data (u_key u) (u_timestamp u) (u_value u)) (u_signature u) \<noteq> None
        then None
        else Some ((pk_bytes C (u_scope u), text_of (u_key u)),
          \<lparr>kv_value = text_of (u_value u), kv_timestamp = u_timestamp u,
           kv_signer = pk_short C (u_scope u)\<rparr>))"

text \<open>A node that hears the messages one after the other; a message that is refused changes nothing.\<close>

definition hear :: "('sk, 'pk, 'sg) crypto \<Rightarrow> kv_store \<Rightarrow> bytes list \<Rightarrow> kv_store" where
  "hear C s msgs = foldl (\<lambda>s m. case kv_apply C s m of Inl e \<Rightarrow> s | Inr s' \<Rightarrow> s') s msgs"

lemma kv_apply_write:
  "kv_apply C s msg = Inr s' \<longleftrightarrow> (\<exists>k v. write_of C msg = Some (k, v) \<and> s' = kv_put s k v)"
  by (auto simp: kv_apply_def write_of_def split: sum.splits option.splits)

lemma kv_apply_refuses: "(\<exists>e. kv_apply C s msg = Inl e) \<longleftrightarrow> write_of C msg = None"
  by (auto simp: kv_apply_def write_of_def split: sum.splits option.splits)

lemma hear_puts: "hear C s msgs = kv.puts s (List.map_filter (write_of C) msgs)"
proof (induction msgs arbitrary: s)
  case Nil
  then show ?case by (simp add: hear_def List.map_filter_def)
next
  case (Cons m ms)
  show ?case
  proof (cases "write_of C m")
    case None
    then obtain e where "kv_apply C s m = Inl e"
      using kv_apply_refuses by blast
    with Cons None show ?thesis
      by (simp add: hear_def List.map_filter_def)
  next
    case (Some kv)
    then obtain k v where kv: "write_of C m = Some (k, v)"
      by (cases kv) auto
    then have "kv_apply C s m = Inr (kv_put s k v)"
      using kv_apply_write by blast
    with Cons kv show ?thesis
      by (simp add: hear_def List.map_filter_def kv.puts_def)
  qed
qed

text \<open>What is printed depends on what can be read only.\<close>

definition kv_wf :: "kv_store \<Rightarrow> bool" where
  "kv_wf s \<longleftrightarrow> distinct (map fst s) \<and> (\<forall>(scope, keys) \<in> set s. distinct (map fst keys))"

definition kv_entries :: "kv_store \<Rightarrow> ((bytes \<times> string) \<times> kv_value) list" where
  "kv_entries s = concat (map (\<lambda>(scope, keys). map (\<lambda>(k, v). ((scope, k), v)) keys) s)"

lemma kv_wf_Nil [simp]: "kv_wf []"
  by (simp add: kv_wf_def)

lemma kv_wf_update: "kv_wf s \<Longrightarrow> distinct (map fst keys) \<Longrightarrow> kv_wf (AList.update scope keys s)"
  by (induction s) (auto simp: kv_wf_def dom_update)

lemma kv_wf_put: "kv_wf s \<Longrightarrow> kv_wf (kv_put s sk v)"
proof (cases sk)
  case (Pair scope k)
  assume wf: "kv_wf s"
  have "map_of s scope = Some keys \<Longrightarrow> distinct (map fst keys)" for keys
    using wf map_of_SomeD [of s scope keys] by (auto simp: kv_wf_def)
  with wf show ?thesis
    by (auto simp: Pair kv_put_def kv_wf_update distinct_update split: option.splits)
qed

lemma kv_wf_hear: "kv_wf s \<Longrightarrow> kv_wf (hear C s msgs)"
  unfolding hear_def
proof (induction msgs arbitrary: s)
  case (Cons m ms)
  have "kv_wf (case kv_apply C s m of Inl e \<Rightarrow> s | Inr s' \<Rightarrow> s')"
    using Cons.prems kv_apply_write [of C s m] by (auto simp: kv_wf_put split: sum.splits)
  with Cons.IH show ?case by simp
qed simp

lemma set_kv_entries:
  assumes "kv_wf s"
  shows "set (kv_entries s) = {(sk, v). kv_read s sk = Some v}"
proof (intro set_eqI iffI; clarify)
  fix scope k v
  assume "((scope, k), v) \<in> set (kv_entries s)"
  then obtain keys where "(scope, keys) \<in> set s" "(k, v) \<in> set keys"
    by (auto simp: kv_entries_def)
  with assms have "map_of s scope = Some keys" "map_of keys k = Some v"
    by (auto simp: kv_wf_def intro: map_of_is_SomeI)
  then show "kv_read s (scope, k) = Some v"
    by (simp add: kv_read_def)
next
  fix scope k v
  assume "kv_read s (scope, k) = Some v"
  then obtain keys where "map_of s scope = Some keys" "map_of keys k = Some v"
    by (auto simp: kv_read_def split: option.splits)
  then show "((scope, k), v) \<in> set (kv_entries s)"
    by (fastforce simp: kv_entries_def dest: map_of_SomeD)
qed

lemma distinct_kv_entries: "kv_wf s \<Longrightarrow> distinct (kv_entries s)"
proof (induction s)
  case (Cons p s)
  obtain scope keys where p: "p = (scope, keys)" by fastforce
  with Cons.prems have keys: "distinct (map fst keys)" and wf: "kv_wf s" and new: "scope \<notin> fst ` set s"
    by (auto simp: kv_wf_def)
  have "distinct (map (\<lambda>(k, v). ((scope, k), v)) keys)"
    using keys by (auto simp: distinct_map inj_on_def)
  with Cons.IH [OF wf] new show ?case
    by (force simp: kv_entries_def p)
qed (simp add: kv_entries_def)

lemma kv_lines_entries:
  "kv_lines s = sort (map (\<lambda>((scope, k), v). k @ ''='' @ kv_value v @ '' signer='' @ kv_signer v) (kv_entries s))"
  by (simp add: kv_lines_def kv_entries_def map_concat case_prod_unfold comp_def)

lemma kv_lines_eq:
  assumes "kv_wf s" "kv_wf t" "kv_read s = kv_read t"
  shows "kv_lines s = kv_lines t"
proof -
  have "mset (kv_entries s) = mset (kv_entries t)"
    using assms by (simp add: set_eq_iff_mset_eq_distinct [symmetric] distinct_kv_entries set_kv_entries)
  then show ?thesis
    unfolding kv_lines_entries by (intro properties_for_sort) simp_all
qed

section \<open>Properties\<close>

text \<open>A key library to evaluate with: one key, one signature, every signature valid.\<close>

definition demo_crypto :: "(unit, unit, unit) crypto" where
  "demo_crypto =
     \<lparr>pk_parse = \<lambda>b. Inr (), pk_bytes = \<lambda>_. replicate 32 1, pk_short = \<lambda>_. ''01010101'',
      sig_parse = \<lambda>b. Inr (), sig_bytes = \<lambda>_. replicate 64 2, sk_public = \<lambda>_. (),
      sk_sign = \<lambda>_ _. (), pk_verify = \<lambda>_ _ _. None, fresh_key = \<lambda>_. ()\<rparr>"

lemma demo_crypto_ok: "crypto_ok demo_crypto"
  by (simp add: crypto_ok_def demo_crypto_def public_key_size_def signature_size_def)

text \<open>C15. An update survives the wire: what \<^verbatim>\<open>encode\<close> writes, \<^verbatim>\<open>decodeUpdate\<close> reads back with
  every field as it was, for every key, value and timestamp.\<close>

theorem update_roundtrip:
  "crypto_ok C \<Longrightarrow> sized_update u \<Longrightarrow> decode_update C (encode_update C u) = Inr u"
  by (rule decode_encode_update)

theorem update_roundtrip_witness:
  "decode_update demo_crypto (encode_update demo_crypto
       \<lparr>u_scope = (), u_key = bytes_of ''c'', u_timestamp = 300, u_value = [], u_signature = ()\<rparr>)
     = Inr \<lparr>u_scope = (), u_key = bytes_of ''c'', u_timestamp = 300, u_value = [], u_signature = ()\<rparr>"
  by (rule update_roundtrip [OF demo_crypto_ok]) (simp add: sized_update_def sized_def)

text \<open>A signature vouches for one update only: the bytes that are signed determine the
  key, the timestamp and the value, so no two different updates of a scope share them.\<close>

lemma signing_data_unambiguous:
  "sized k \<Longrightarrow> sized k' \<Longrightarrow> sized v \<Longrightarrow> sized v' \<Longrightarrow>
     signing_data k t v = signing_data k' t' v' \<longleftrightarrow> k = k' \<and> t = t' \<and> v = v'"
  by (rule signing_data_inject)

theorem signing_data_unambiguous_witness:
  "signing_data [1] 2 [3] \<noteq> signing_data [1, 2] 3 []"
  using signing_data_unambiguous [of "[1]" "[1, 2]" "[3]" "[]" 2 3] by (simp add: sized_def)

text \<open>C16. Only a message that decodes and whose signature verifies changes the store, and it
  changes one entry, the one under its scope and key, and only if no entry at least as new
  is there.\<close>

theorem apply_writes_one_entry:
  "kv_apply C s msg = Inr s' \<Longrightarrow>
     \<exists>u. decode_update C msg = Inr u \<and>
       pk_verify C (u_scope u) (signing_data (u_key u) (u_timestamp u) (u_value u)) (u_signature u) = None \<and>
       kv_read s' = (kv_read s)((pk_bytes C (u_scope u), text_of (u_key u)) \<mapsto>
         newer kv_timestamp (kv_read s (pk_bytes C (u_scope u), text_of (u_key u)))
           \<lparr>kv_value = text_of (u_value u), kv_timestamp = u_timestamp u, kv_signer = pk_short C (u_scope u)\<rparr>)"
  by (auto simp: kv_apply_def kv_read_put split: sum.splits option.splits)

theorem apply_writes_one_entry_witness:
  "\<exists>s'. kv_apply demo_crypto [] (encode_update demo_crypto
       \<lparr>u_scope = (), u_key = bytes_of ''c'', u_timestamp = 7, u_value = bytes_of ''b'', u_signature = ()\<rparr>) = Inr s' \<and>
     kv_read s' = Map.empty((replicate 32 1, ''c'') \<mapsto>
       \<lparr>kv_value = ''b'', kv_timestamp = 7, kv_signer = ''01010101''\<rparr>)"
proof -
  let ?u = "\<lparr>u_scope = (), u_key = bytes_of ''c'', u_timestamp = 7, u_value = bytes_of ''b'', u_signature = ()\<rparr>"
  have dec: "decode_update demo_crypto (encode_update demo_crypto ?u) = Inr ?u"
    by (rule decode_encode_update [OF demo_crypto_ok]) (simp add: sized_update_def sized_def)
  then obtain s' where s': "kv_apply demo_crypto [] (encode_update demo_crypto ?u) = Inr s'"
    by (simp add: kv_apply_def demo_crypto_def)
  have "kv_read [] = Map.empty"
    by (simp add: kv_read_def fun_eq_iff)
  with apply_writes_one_entry [OF s'] dec
  have "kv_read s' = Map.empty((pk_bytes demo_crypto (u_scope ?u), ''c'') \<mapsto>
       \<lparr>kv_value = ''b'', kv_timestamp = 7, kv_signer = pk_short demo_crypto ()\<rparr>)"
    by simp
  moreover have "pk_bytes demo_crypto () = replicate 32 1" "pk_short demo_crypto () = ''01010101''"
    by (simp_all add: demo_crypto_def)
  ultimately show ?thesis
    using s' by (intro exI [of _ s']) simp
qed


text \<open>Two writes of different stamps, in either order, one of them twice.\<close>

definition demo_msg :: "u64 \<Rightarrow> byte \<Rightarrow> bytes" where
  "demo_msg t v = encode_update demo_crypto
     \<lparr>u_scope = (), u_key = bytes_of ''c'', u_timestamp = t, u_value = [v], u_signature = ()\<rparr>"

lemma write_of_demo_msg:
  "write_of demo_crypto (demo_msg t v) = Some ((replicate 32 1, ''c''),
     \<lparr>kv_value = text_of [v], kv_timestamp = t, kv_signer = ''01010101''\<rparr>)"
proof -
  let ?u = "\<lparr>u_scope = (), u_key = bytes_of ''c'', u_timestamp = t, u_value = [v], u_signature = ()\<rparr>"
  have "decode_update demo_crypto (demo_msg t v) = Inr ?u"
    unfolding demo_msg_def
    by (rule decode_encode_update [OF demo_crypto_ok]) (simp add: sized_update_def sized_def)
  then show ?thesis
    by (simp add: write_of_def) (simp add: demo_crypto_def)
qed


text \<open>Without that proviso they may not: of two values with one timestamp the first heard is
  kept, so two nodes that hear them in different orders keep different values for ever.\<close>

lemma ties_diverge:
  assumes "write_of C m = Some (k, v)" "write_of C m' = Some (k, v')"
    and "kv_timestamp v = kv_timestamp v'" and "kv_read s k = None"
  shows "kv_read (hear C s [m, m']) k = Some v \<and> kv_read (hear C s [m', m]) k = Some v'"
  using assms by (simp add: hear_puts List.map_filter_def kv.puts_def kv_read_put)

theorem ties_diverge_witness:
  "kv_read (hear demo_crypto [] [demo_msg 5 97, demo_msg 5 98]) (replicate 32 1, ''c'')
     \<noteq> kv_read (hear demo_crypto [] [demo_msg 5 98, demo_msg 5 97]) (replicate 32 1, ''c'')"
proof -
  have "kv_read [] (replicate 32 1, ''c'') = None"
    by (simp add: kv_read_def)
  then have "kv_read (hear demo_crypto [] [demo_msg 5 97, demo_msg 5 98]) (replicate 32 1, ''c'')
      = Some \<lparr>kv_value = text_of [97], kv_timestamp = 5, kv_signer = ''01010101''\<rparr> \<and>
    kv_read (hear demo_crypto [] [demo_msg 5 98, demo_msg 5 97]) (replicate 32 1, ''c'')
      = Some \<lparr>kv_value = text_of [98], kv_timestamp = 5, kv_signer = ''01010101''\<rparr>"
    using ties_diverge [OF write_of_demo_msg [of 5 97] write_of_demo_msg [of 5 98]] by simp
  then show ?thesis by simp
qed

text \<open>A node's own write reaches every node: \<^verbatim>\<open>put\<close> never fails, and the message it returns
  is accepted by a node that has nothing under the key, which then reads the value.\<close>

lemma put_is_accepted:
  assumes "crypto_ok C" and "sized (bytes_of name)" and "sized (bytes_of value)"
    and "kv_read t (pk_bytes C (sk_public C (node_signer n)), name) = None"
  shows "\<exists>msg s t'. fst (kv_node_put W C n name value h) = Inr (msg, s) \<and> kv_apply C t msg = Inr t' \<and>
    (\<exists>v. kv_read t' (pk_bytes C (sk_public C (node_signer n)), name) = Some v \<and> kv_value v = value)"
proof -
  let ?ts = "word_of_nat (got_nat W h (Gossip NowNanos)) :: u64"
  let ?u = "sign_update C (node_signer n) (bytes_of name) (bytes_of value) ?ts"
  have dec: "decode_update C (encode_update C ?u) = Inr ?u"
    using assms by (intro decode_encode_update) (simp_all add: sized_update_def sign_update_def)
  have ver: "pk_verify C (u_scope ?u) (signing_data (u_key ?u) (u_timestamp ?u) (u_value ?u)) (u_signature ?u) = None"
    using assms(1) by (simp add: sign_update_def crypto_ok_def)
  let ?put = "\<lambda>s. kv_put s (pk_bytes C (u_scope ?u), text_of (u_key ?u))
      \<lparr>kv_value = text_of (u_value ?u), kv_timestamp = u_timestamp ?u, kv_signer = pk_short C (u_scope ?u)\<rparr>"
  have app: "kv_apply C s (encode_update C ?u) = Inr (?put s)" for s
    using ver by (simp only: kv_apply_def dec sum.case option.case)
  have "fst (kv_node_put W C n name value h) = Inr (encode_update C ?u, ?put (node_store n))"
    by (simp add: kv_node_put_def go_simps Let_def app)
  moreover have "kv_read (?put t) (pk_bytes C (sk_public C (node_signer n)), name)
      = Some \<lparr>kv_value = value, kv_timestamp = ?ts, kv_signer = pk_short C (u_scope ?u)\<rparr>"
    using assms(4) by (simp add: kv_read_put sign_update_def)
  ultimately show ?thesis
    using app by fastforce
qed

theorem put_is_accepted_witness:
  "\<forall>W. \<exists>msg s t'. fst (kv_node_put W demo_crypto
       \<lparr>node_endpoint = 0, node_router = 1, node_gossip = 2, node_signer = (), node_store = []\<rparr> ''a'' ''b'' [])
       = Inr (msg, s) \<and> kv_apply demo_crypto [] msg = Inr t'"
proof
  fix W
  show "\<exists>msg s t'. fst (kv_node_put W demo_crypto
       \<lparr>node_endpoint = 0, node_router = 1, node_gossip = 2, node_signer = (), node_store = []\<rparr> ''a'' ''b'' [])
       = Inr (msg, s) \<and> kv_apply demo_crypto [] msg = Inr t'"
    using put_is_accepted [OF demo_crypto_ok, of "''a''" "''b''" "[]"
    "\<lparr>node_endpoint = 0, node_router = 1, node_gossip = 2, node_signer = (), node_store = []\<rparr>" W "[]"]
    by (auto simp: sized_def kv_read_def)
qed

end
