(* ===== verification/GoFlags.thy ===== *)
theory GoFlags
  imports Streams
begin

text \<open>
  Go's \<^verbatim>\<open>flag\<close> package as the command-line programs use it: a set of flags with their
  kinds, \<^verbatim>\<open>FlagSet.Parse\<close> with \<^verbatim>\<open>ContinueOnError\<close>, and the programs' \<^verbatim>\<open>parseArgs\<close> (the same in
  \<^verbatim>\<open>cmd/go-iroh-sendme\<close> and \<^verbatim>\<open>cmd/go-iroh-dumbpipe\<close>), which lets flags stand before, between
  and after the positional arguments.
\<close>

section \<open>Values\<close>

definition parse_bool :: "string \<Rightarrow> bool option" where
  "parse_bool s =
     (if s \<in> set [''1'', ''t'', ''T'', ''TRUE'', ''true'', ''True''] then Some True
      else if s \<in> set [''0'', ''f'', ''F'', ''FALSE'', ''false'', ''False''] then Some False
      else None)"

text \<open>
  \<^verbatim>\<open>strconv.ParseInt(s, 0, 64)\<close>: a sign, a base prefix, digits, and underscores where
  \<^verbatim>\<open>underscoreOK\<close> allows them.
\<close>

definition digit_value :: "char \<Rightarrow> nat option" where
  "digit_value c = (let n = (of_char c :: nat) in
     if 48 \<le> n \<and> n \<le> 57 then Some (n - 48)
     else if 97 \<le> n \<and> n \<le> 122 then Some (n - 87)
     else if 65 \<le> n \<and> n \<le> 90 then Some (n - 55) else None)"

fun parse_digits :: "nat \<Rightarrow> nat \<Rightarrow> string \<Rightarrow> nat option" where
  "parse_digits base acc [] = Some acc"
| "parse_digits base acc (c # cs) =
     (if c = CHR ''_'' then parse_digits base acc cs
      else case digit_value c of
        None \<Rightarrow> None
      | Some d \<Rightarrow> if d < base then parse_digits base (acc * base + d) cs else None)"

definition split_base :: "string \<Rightarrow> nat \<times> string" where
  "split_base s =
     (case s of
        [] \<Rightarrow> (10, s)
      | z # t \<Rightarrow>
        if z \<noteq> CHR ''0'' then (10, s)
        else if length t < 2 then (8, t)
        else if lower_char (hd t) = CHR ''b'' then (2, tl t)
        else if lower_char (hd t) = CHR ''o'' then (8, tl t)
        else if lower_char (hd t) = CHR ''x'' then (16, tl t)
        else (8, t))"

text \<open>\<open>prev\<close> is the class of the character before: \<^verbatim>\<open>0\<close> a digit or base prefix, \<^verbatim>\<open>_\<close>, or \<^verbatim>\<open>^\<close> none.\<close>

fun underscores_ok :: "bool \<Rightarrow> char \<Rightarrow> string \<Rightarrow> bool" where
  "underscores_ok hex prev [] = (prev \<noteq> CHR ''_'')"
| "underscores_ok hex prev (c # cs) =
     (if (case digit_value c of None \<Rightarrow> False | Some d \<Rightarrow> d < 10 \<or> hex \<and> d < 16)
      then underscores_ok hex (CHR ''0'') cs
      else if c = CHR ''_'' then prev = CHR ''0'' \<and> underscores_ok hex (CHR ''_'') cs
      else prev \<noteq> CHR ''_'' \<and> underscores_ok hex (CHR ''!'') cs)"

definition underscore_ok :: "string \<Rightarrow> bool" where
  "underscore_ok s =
     (if 2 \<le> length s \<and> hd s = CHR ''0'' \<and> lower_char (s ! 1) \<in> set ''box''
      then underscores_ok (lower_char (s ! 1) = CHR ''x'') (CHR ''0'') (drop 2 s)
      else underscores_ok False (CHR ''^'') s)"

definition parse_int :: "string \<Rightarrow> int option" where
  "parse_int s =
     (let neg = (case s of c # _ \<Rightarrow> c = CHR ''-'' | [] \<Rightarrow> False);
          body = (case s of c # cs \<Rightarrow> if c = CHR ''-'' \<or> c = CHR ''+'' then cs else s | [] \<Rightarrow> s);
          (base, digits) = split_base body in
      if body = [] \<or> \<not> underscore_ok body then None
      else case parse_digits base 0 digits of
        None \<Rightarrow> None
      | Some n \<Rightarrow> if neg then (if int n \<le> 2 ^ 63 then Some (- int n) else None)
                  else (if int n < 2 ^ 63 then Some (int n) else None))"

text \<open>\<^verbatim>\<open>strconv.ParseUint(s, 0, 64)\<close>, and \<^verbatim>\<open>ParseUint(s, 10, 16)\<close>, which allows neither prefix nor underscore.\<close>

definition parse_uint :: "string \<Rightarrow> nat option" where
  "parse_uint s =
     (let (base, digits) = split_base s in
      if s = [] \<or> \<not> underscore_ok s then None
      else case parse_digits base 0 digits of
        None \<Rightarrow> None
      | Some n \<Rightarrow> if n < 2 ^ 64 then Some n else None)"

definition parse_uint16 :: "string \<Rightarrow> nat option" where
  "parse_uint16 s =
     (if s = [] \<or> CHR ''_'' \<in> set s then None
      else case parse_digits 10 0 s of
        None \<Rightarrow> None
      | Some n \<Rightarrow> if n < 2 ^ 16 then Some n else None)"

section \<open>Parsing\<close>

datatype flag_kind = FBool | FString | FInt | FUint

type_synonym flag_set = "(string \<times> flag_kind) list"
type_synonym flag_values = "(string \<times> string) list"

datatype flag_step = Stop "string list" | Seen string string "string list" | Bad gerr

definition bad_flag :: "string \<Rightarrow> gerr" where
  "bad_flag s = Err (''bad flag syntax: '' @ s)"

definition value_ok :: "flag_kind \<Rightarrow> string \<Rightarrow> bool" where
  "value_ok kind v = (case kind of
     FBool \<Rightarrow> parse_bool v \<noteq> None | FString \<Rightarrow> True | FInt \<Rightarrow> parse_int v \<noteq> None | FUint \<Rightarrow> parse_uint v \<noteq> None)"

text \<open>One flag off the front: its name and value, the end of the flags, or an error.\<close>

definition take_flag :: "flag_set \<Rightarrow> string \<Rightarrow> string \<Rightarrow> string list \<Rightarrow> flag_step" where
  "take_flag fs s name rest =
     (if name = [] \<or> hd name = CHR ''-'' \<or> hd name = CHR ''='' then Bad (bad_flag s)
      else case cut ''='' name of (n, v, has) \<Rightarrow>
        (case map_of fs n of
           None \<Rightarrow> if n = ''help'' \<or> n = ''h'' then Bad ErrHelp
                   else Bad (Err (''flag provided but not defined: -'' @ n))
         | Some FBool \<Rightarrow>
             if has then (if value_ok FBool v then Seen n v rest
                          else Bad (Err (''invalid boolean value for -'' @ n)))
             else Seen n ''true'' rest
         | Some kind \<Rightarrow>
             if has then (if value_ok kind v then Seen n v rest
                          else Bad (Err (''invalid value for flag -'' @ n)))
             else (case rest of
                 [] \<Rightarrow> Bad (Err (''flag needs an argument: -'' @ n))
               | w # rest' \<Rightarrow> if value_ok kind w then Seen n w rest'
                              else Bad (Err (''invalid value for flag -'' @ n)))))"

definition parse_one :: "flag_set \<Rightarrow> string list \<Rightarrow> flag_step" where
  "parse_one fs args =
     (case args of
        [] \<Rightarrow> Stop []
      | s # rest \<Rightarrow>
        if length s < 2 \<or> hd s \<noteq> CHR ''-'' then Stop args
        else if hd (tl s) = CHR ''-''
        then (if length s = 2 then Stop rest else take_flag fs s (drop 2 s) rest)
        else take_flag fs s (tl s) rest)"

lemma take_flag_shrinks:
  assumes "take_flag fs s n rest = Seen m v rest'"
  shows "length rest' \<le> length rest"
proof -
  obtain m' w has where c: "cut ''='' n = (m', w, has)"
    by (metis prod_cases3)
  show ?thesis
  proof (cases "map_of fs m'")
    case None
    with assms c show ?thesis by (simp add: take_flag_def split: if_splits)
  next
    case (Some kind)
    with assms c show ?thesis
      by (cases kind; cases has; cases rest) (auto simp: take_flag_def split: if_splits)
  qed
qed

lemma take_flag_seen: "take_flag fs s n rest \<noteq> Stop rest'"
proof -
  obtain m' w has where c: "cut ''='' n = (m', w, has)"
    by (metis prod_cases3)
  show ?thesis
  proof (cases "map_of fs m'")
    case None
    with c show ?thesis by (simp add: take_flag_def)
  next
    case (Some kind)
    with c show ?thesis
      by (cases kind; cases has; cases rest) (simp_all add: take_flag_def)
  qed
qed

lemma parse_one_shrinks: "parse_one fs args = Seen m v rest \<Longrightarrow> length rest < length args"
  by (fastforce simp: parse_one_def split: list.splits if_splits dest: take_flag_shrinks)

lemma parse_one_stop: "parse_one fs args = Stop rest \<Longrightarrow> length rest \<le> length args"
  by (auto simp: parse_one_def take_flag_seen split: list.splits if_splits)

function parse_flags :: "flag_set \<Rightarrow> flag_values \<Rightarrow> string list \<Rightarrow> gerr + flag_values \<times> string list" where
  "parse_flags fs vals args =
     (case parse_one fs args of
        Stop rest \<Rightarrow> Inr (vals, rest)
      | Bad e \<Rightarrow> Inl e
      | Seen n v rest \<Rightarrow> parse_flags fs (vals @ [(n, v)]) rest)"
  by pat_completeness auto
termination
  by (relation "measure (\<lambda>(fs, vals, args). length args)") (auto dest: parse_one_shrinks)

declare parse_flags.simps [simp del]

lemma parse_flags_shrinks: "parse_flags fs vals args = Inr (vals', rest) \<Longrightarrow> length rest \<le> length args"
proof (induction fs vals args rule: parse_flags.induct)
  case (1 fs vals args)
  show ?case
  proof (cases "parse_one fs args")
    case (Stop r)
    with "1.prems" parse_one_stop [OF Stop] show ?thesis
      by (simp add: parse_flags.simps [of fs vals args])
  next
    case (Seen n v r)
    with "1.prems" have "parse_flags fs (vals @ [(n, v)]) r = Inr (vals', rest)"
      by (simp add: parse_flags.simps [of fs vals args])
    with "1.IH" [OF Seen] parse_one_shrinks [OF Seen] show ?thesis by simp
  next
    case (Bad e)
    with "1.prems" show ?thesis by (simp add: parse_flags.simps [of fs vals args])
  qed
qed

text \<open>
  \<^verbatim>\<open>parseArgs\<close>: parse the flags at the front, take one positional argument, go on with what
  follows it. The values accumulate; of two for one flag the later counts.
\<close>

function parse_args ::
  "flag_set \<Rightarrow> string list \<Rightarrow> flag_values \<Rightarrow> string list \<Rightarrow> gerr + string list \<times> flag_values" where
  "parse_args fs pos vals args =
     (case parse_flags fs vals args of
        Inl e \<Rightarrow> Inl e
      | Inr (vals', []) \<Rightarrow> Inr (pos, vals')
      | Inr (vals', a # rest) \<Rightarrow> parse_args fs (pos @ [a]) vals' rest)"
  by pat_completeness auto
termination
  by (relation "measure (\<lambda>(fs, pos, vals, args). length args)") (auto dest: parse_flags_shrinks)

declare parse_args.simps [simp del]

text \<open>What a flag holds after parsing: its last value, or the default.\<close>

definition flag_value :: "flag_values \<Rightarrow> string \<Rightarrow> string \<Rightarrow> string" where
  "flag_value vals n dflt = (case map_of (rev vals) n of None \<Rightarrow> dflt | Some v \<Rightarrow> v)"

definition flag_bool :: "flag_values \<Rightarrow> string \<Rightarrow> bool" where
  "flag_bool vals n = (parse_bool (flag_value vals n ''false'') = Some True)"

definition flag_int :: "flag_values \<Rightarrow> string \<Rightarrow> int \<Rightarrow> int" where
  "flag_int vals n dflt =
     (case map_of (rev vals) n of None \<Rightarrow> dflt
      | Some v \<Rightarrow> (case parse_int v of None \<Rightarrow> dflt | Some i \<Rightarrow> i))"

section \<open>Flags anywhere\<close>

text \<open>A command line written item by item: a positional argument, or a flag as \<^verbatim>\<open>-name=value\<close>.\<close>

datatype item = Pos string | Flag string string

fun item_text :: "item \<Rightarrow> string" where
  "item_text (Pos p) = p"
| "item_text (Flag n v) = CHR ''-'' # n @ CHR ''='' # v"

definition item_ok :: "flag_set \<Rightarrow> item \<Rightarrow> bool" where
  "item_ok fs i = (case i of
     Pos p \<Rightarrow> p = [] \<or> hd p \<noteq> CHR ''-''
   | Flag n v \<Rightarrow> n \<noteq> [] \<and> hd n \<noteq> CHR ''-'' \<and> CHR ''='' \<notin> set n \<and>
       (case map_of fs n of None \<Rightarrow> False | Some kind \<Rightarrow> value_ok kind v))"

fun positionals :: "item list \<Rightarrow> string list" where
  "positionals [] = []"
| "positionals (Pos p # is) = p # positionals is"
| "positionals (Flag n v # is) = positionals is"

fun flag_items :: "item list \<Rightarrow> flag_values" where
  "flag_items [] = []"
| "flag_items (Pos p # is) = flag_items is"
| "flag_items (Flag n v # is) = (n, v) # flag_items is"

lemma parse_one_flag:
  assumes "item_ok fs (Flag n v)"
  shows "parse_one fs (item_text (Flag n v) # rest) = Seen n v rest"
proof -
  from assms obtain c cs kind where n: "n = c # cs" and c: "c \<noteq> CHR ''-''" "c \<noteq> CHR ''=''"
    and k: "map_of fs n = Some kind" "value_ok kind v" and eq: "CHR ''='' \<notin> set n"
    by (cases n) (auto simp: item_ok_def split: option.splits)
  have "parse_one fs (item_text (Flag n v) # rest)
      = take_flag fs (item_text (Flag n v)) (n @ CHR ''='' # v) rest"
    using c by (simp add: parse_one_def n)
  also have "\<dots> = Seen n v rest"
    using c k cut_char_append [OF eq, of v] by (cases kind) (simp_all add: take_flag_def n)
  finally show ?thesis .
qed

lemma parse_one_pos: "item_ok fs (Pos p) \<Longrightarrow> parse_one fs (p # rest) = Stop (p # rest)"
  by (cases p) (auto simp: parse_one_def item_ok_def)

lemma parse_args_items:
  "\<forall>i \<in> set is. item_ok fs i \<Longrightarrow>
     parse_args fs pos vals (map item_text is) = Inr (pos @ positionals is, vals @ flag_items is)"
proof (induction "is" arbitrary: pos vals)
  case Nil
  show ?case
    by (simp add: parse_args.simps [of fs pos vals "[]"] parse_flags.simps [of fs vals "[]"] parse_one_def)
next
  case (Cons i "is")
  show ?case
  proof (cases i)
    case (Pos p)
    with Cons.prems have "parse_one fs (p # map item_text is) = Stop (p # map item_text is)"
      by (intro parse_one_pos) simp
    with Cons Pos show ?thesis
      by (simp add: parse_args.simps [of fs pos vals "p # map item_text is"]
          parse_flags.simps [of fs vals "p # map item_text is"])
  next
    case (Flag n v)
    let ?t = "item_text (Flag n v) # map item_text is"
    from Cons.prems Flag have one: "parse_one fs ?t = Seen n v (map item_text is)"
      by (intro parse_one_flag) simp
    then have "parse_flags fs vals ?t = parse_flags fs (vals @ [(n, v)]) (map item_text is)"
      by (subst parse_flags.simps) (simp only: flag_step.case)
    then have "parse_args fs pos vals ?t = parse_args fs pos (vals @ [(n, v)]) (map item_text is)"
      by (simp only: parse_args.simps [of fs pos vals ?t]
          parse_args.simps [of fs pos "vals @ [(n, v)]" "map item_text is"])
    with Cons Flag show ?thesis by simp
  qed
qed

section \<open>Values of the declared kinds\<close>

text \<open>\<open>typed fs n v\<close>: \<open>n\<close> is a declared flag and \<open>v\<close> a text of its kind.\<close>

definition typed :: "flag_set \<Rightarrow> string \<Rightarrow> string \<Rightarrow> bool" where
  "typed fs n v = (case map_of fs n of None \<Rightarrow> False | Some kind \<Rightarrow> value_ok kind v)"

lemma bool_texts_ok: "value_ok FBool ''true''" "value_ok FBool ''false''"
  by (simp_all add: value_ok_def parse_bool_def)

lemma take_flag_typed:
  assumes "take_flag fs s name rest = Seen n v rest'"
  shows "typed fs n v"
proof -
  obtain m w has where c: "cut ''='' name = (m, w, has)"
    by (metis prod_cases3)
  show ?thesis
  proof (cases "map_of fs m")
    case None
    with assms c show ?thesis by (simp add: take_flag_def split: if_splits)
  next
    case (Some kind)
    with assms c show ?thesis
      by (cases kind; cases has; cases rest)
        (auto simp: take_flag_def typed_def bool_texts_ok split: if_splits)
  qed
qed

lemma parse_one_typed: "parse_one fs args = Seen n v rest \<Longrightarrow> typed fs n v"
  by (auto simp: parse_one_def dest: take_flag_typed split: list.splits if_splits)

lemma parse_flags_typed:
  "parse_flags fs vals args = Inr (vals', rest) \<Longrightarrow> \<forall>(n, v) \<in> set vals. typed fs n v \<Longrightarrow> \<forall>(n, v) \<in> set vals'. typed fs n v"
proof (induction fs vals args rule: parse_flags.induct)
  case (1 fs vals args)
  show ?case
  proof (cases "parse_one fs args")
    case (Stop r)
    with "1.prems" show ?thesis by (simp add: parse_flags.simps [of fs vals args])
  next
    case (Seen n v r)
    with "1.prems" have "parse_flags fs (vals @ [(n, v)]) r = Inr (vals', rest)"
      by (simp add: parse_flags.simps [of fs vals args])
    with "1.IH" [OF Seen] "1.prems"(2) parse_one_typed [OF Seen] show ?thesis by auto
  next
    case (Bad e)
    with "1.prems" show ?thesis by (simp add: parse_flags.simps [of fs vals args])
  qed
qed

lemma parse_args_typed:
  "parse_args fs pos vals args = Inr (pos', vals') \<Longrightarrow> \<forall>(n, v) \<in> set vals. typed fs n v \<Longrightarrow> \<forall>(n, v) \<in> set vals'. typed fs n v"
proof (induction fs pos vals args rule: parse_args.induct)
  case (1 fs pos vals args)
  show ?case
  proof (cases "parse_flags fs vals args")
    case (Inl e)
    with "1.prems" show ?thesis by (simp add: parse_args.simps [of fs pos vals args])
  next
    case (Inr r)
    then obtain vs as where r: "parse_flags fs vals args = Inr (vs, as)" by (cases r) auto
    note vs = parse_flags_typed [OF r "1.prems"(2)]
    show ?thesis
    proof (cases as)
      case Nil
      with r vs "1.prems"(1) show ?thesis by (simp add: parse_args.simps [of fs pos vals args])
    next
      case (Cons a rest)
      with r "1.prems"(1) have "parse_args fs (pos @ [a]) vs rest = Inr (pos', vals')"
        by (simp add: parse_args.simps [of fs pos vals args])
      with "1.IH" [OF r _ Cons] vs show ?thesis by auto
    qed
  qed
qed

lemma flag_value_typed:
  assumes "\<forall>(n, v) \<in> set vals. typed fs n v" and "typed fs n dflt"
  shows "typed fs n (flag_value vals n dflt)"
proof (cases "map_of (rev vals) n")
  case None
  with assms(2) show ?thesis by (simp add: flag_value_def)
next
  case (Some v)
  then have "(n, v) \<in> set vals" by (auto dest: map_of_SomeD)
  with assms(1) Some show ?thesis by (auto simp: flag_value_def)
qed



end
