(* ===== verification/GoPath.thy ===== *)
theory GoPath
  imports GoFlags
begin

text \<open>
  Go's \<^verbatim>\<open>path/filepath\<close> on Unix, as the programs that touch the file system use it: \<^verbatim>\<open>Clean\<close>,
  \<^verbatim>\<open>Join\<close>, \<^verbatim>\<open>Dir\<close>, \<^verbatim>\<open>Base\<close>, \<^verbatim>\<open>Rel\<close> and the order in which \<^verbatim>\<open>WalkDir\<close> visits a tree.
  The central fact is \<open>path_comps_join\<close>: joining plain components onto a directory adds
  exactly these components, so the result lies under the directory.
\<close>

section \<open>Clean and Join\<close>

definition slash :: char where
  "slash = CHR ''/''"

definition rooted :: "string \<Rightarrow> bool" where
  "rooted p = (case p of [] \<Rightarrow> False | c # _ \<Rightarrow> c = slash)"

text \<open>The cleaned components, innermost first: what \<^verbatim>\<open>Clean\<close>'s loop keeps.\<close>

fun clean_comps :: "bool \<Rightarrow> string list \<Rightarrow> string list \<Rightarrow> string list" where
  "clean_comps r out [] = out"
| "clean_comps r out (c # cs) =
     (if c = [] \<or> c = ''.'' then clean_comps r out cs
      else if c = ''..'' then
        (case out of
           [] \<Rightarrow> clean_comps r (if r then [] else [c]) cs
         | d # ds \<Rightarrow> clean_comps r (if d = ''..'' then c # out else ds) cs)
      else clean_comps r (c # out) cs)"

definition path_comps :: "string \<Rightarrow> string list" where
  "path_comps p = rev (clean_comps (rooted p) [] (split_on slash p))"

definition render :: "bool \<Rightarrow> string list \<Rightarrow> string" where
  "render r cs = (if r then slash # join [slash] cs else if cs = [] then ''.'' else join [slash] cs)"

definition path_clean :: "string \<Rightarrow> string" where
  "path_clean p = render (rooted p) (path_comps p)"

definition path_join :: "string list \<Rightarrow> string" where
  "path_join elems = (case dropWhile (\<lambda>e. e = []) elems of [] \<Rightarrow> [] | es \<Rightarrow> path_clean (join [slash] es))"

text \<open>\<^verbatim>\<open>Base\<close>: trailing slashes stripped, then what follows the last one.\<close>

definition path_base :: "string \<Rightarrow> string" where
  "path_base p =
     (if p = [] then ''.''
      else case trim_right (\<lambda>c. c = slash) p of
        [] \<Rightarrow> [slash]
      | q \<Rightarrow> (case after_last slash q of None \<Rightarrow> q | Some b \<Rightarrow> b))"

text \<open>\<^verbatim>\<open>Dir\<close>: up to and including the last slash, cleaned.\<close>

definition path_dir :: "string \<Rightarrow> string" where
  "path_dir p = path_clean (trim_right (\<lambda>c. c \<noteq> slash) p)"

fun drop_common :: "string list \<Rightarrow> string list \<Rightarrow> string list \<times> string list" where
  "drop_common (b # bs) (t # ts) = (if b = t then drop_common bs ts else (b # bs, t # ts))"
| "drop_common bs ts = (bs, ts)"

text \<open>\<^verbatim>\<open>Rel\<close>: up for what is left of the base, then down for what is left of the target.\<close>

definition path_rel :: "string \<Rightarrow> string \<Rightarrow> gerr + string" where
  "path_rel base targ =
     (if rooted base \<noteq> rooted targ
      then Inl (Err (''Rel: can't make '' @ targ @ '' relative to '' @ base))
      else case drop_common (path_comps base) (path_comps targ) of (bs, ts) \<Rightarrow>
        if bs \<noteq> [] \<and> hd bs = ''..''
        then Inl (Err (''Rel: can't make '' @ targ @ '' relative to '' @ base))
        else case map (\<lambda>_. ''..'') bs @ ts of
               [] \<Rightarrow> Inr ''.'' | cs \<Rightarrow> Inr (join [slash] cs))"

section \<open>Plain components\<close>

definition plain :: "string \<Rightarrow> bool" where
  "plain c \<longleftrightarrow> c \<noteq> [] \<and> c \<noteq> ''.'' \<and> c \<noteq> ''..'' \<and> slash \<notin> set c"

lemma clean_comps_append:
  "clean_comps r out (cs @ ds) = clean_comps r (clean_comps r out cs) ds"
  by (induction r out cs rule: clean_comps.induct) (auto split: list.splits)

lemma clean_comps_plain:
  "\<forall>c \<in> set cs. plain c \<Longrightarrow> clean_comps r out cs = rev cs @ out"
  by (induction cs arbitrary: out) (auto simp: plain_def)

lemma split_on_append_any: "split_on d (a @ d # b) = split_on d a @ split_on d b"
  by (induction a) (auto split: list.splits)

lemma set_clean_comps: "set (clean_comps r out cs) \<subseteq> set out \<union> (set cs - {[], ''.''})"
proof (induction r out cs rule: clean_comps.induct)
  case (2 r out c cs)
  then show ?case
    by (cases out) (auto split: if_splits)
qed simp

lemma rooted_no_dotdot:
  "''..'' \<notin> set out \<Longrightarrow> ''..'' \<notin> set (clean_comps True out cs)"
proof (induction cs arbitrary: out)
  case (Cons c cs)
  then show ?case by (cases out) auto
qed simp

lemma plain_path_comps: "rooted p \<Longrightarrow> c \<in> set (path_comps p) \<Longrightarrow> plain c"
proof -
  assume r: "rooted p" and c: "c \<in> set (path_comps p)"
  then have "c \<in> set (clean_comps True [] (split_on slash p))"
    by (simp add: path_comps_def)
  moreover have "''..'' \<notin> set (clean_comps True [] (split_on slash p))"
    by (rule rooted_no_dotdot) simp
  moreover have "set (clean_comps True [] (split_on slash p)) \<subseteq> set (split_on slash p) - {[], ''.''}"
    using set_clean_comps [of True "[]" "split_on slash p"] by simp
  ultimately show "plain c"
    using split_on_free [of c slash p] by (auto simp: plain_def)
qed

text \<open>A path that is rendered from plain components has these components.\<close>

lemma path_comps_rooted:
  "\<forall>c \<in> set cs. plain c \<Longrightarrow> path_comps (slash # join [slash] cs) = cs"
proof (cases "cs = []")
  case True
  then show ?thesis by (simp add: path_comps_def)
next
  case False
  assume p: "\<forall>c \<in> set cs. plain c"
  with False have "split_on slash (join [slash] cs) = cs"
    by (intro split_on_join) (auto simp: plain_def)
  with p show ?thesis
    by (simp add: path_comps_def clean_comps_plain)
qed

lemma path_clean_idem: "rooted p \<Longrightarrow> path_clean (path_clean p) = path_clean p"
  using plain_path_comps [of p]
  by (simp add: path_clean_def render_def path_comps_rooted rooted_def)

lemma rooted_append: "p \<noteq> [] \<Longrightarrow> rooted (p @ q) = rooted p"
  by (cases p) (simp_all add: rooted_def)

text \<open>Joining plain components onto a path adds exactly these.\<close>

lemma path_join_root:
  assumes "root \<noteq> []"
  shows "path_join (root # parts) = path_clean (join [slash] (root # parts))"
  using assms by (simp add: path_join_def)

lemma path_comps_onto:
  assumes "root \<noteq> []" and "\<forall>c \<in> set parts. plain c"
  shows "path_comps (join [slash] (root # parts)) = path_comps root @ parts"
proof (cases "parts = []")
  case True
  then show ?thesis by simp
next
  case False
  then have "join [slash] (root # parts) = root @ slash # join [slash] parts"
    by (simp add: join_Cons)
  moreover from False assms(2) have "split_on slash (join [slash] parts) = parts"
    by (intro split_on_join) (auto simp: plain_def)
  ultimately show ?thesis
    using assms
    by (simp add: path_comps_def split_on_append_any rooted_append clean_comps_append clean_comps_plain)
qed

lemma path_join_plain:
  assumes "root \<noteq> []" and "\<forall>c \<in> set parts. plain c"
  shows "path_join (root # parts) = render (rooted root) (path_comps root @ parts)"
proof -
  have "rooted (join [slash] (root # parts)) = rooted root"
    using assms(1) by (cases parts) (simp_all add: rooted_append)
  then show ?thesis
    unfolding path_join_root [OF assms(1)] path_clean_def path_comps_onto [OF assms] by simp
qed

lemma rooted_not_empty: "rooted root \<Longrightarrow> root \<noteq> []"
  by (auto simp: rooted_def)

lemma path_comps_join:
  assumes "rooted root" and "\<forall>c \<in> set parts. plain c"
  shows "path_comps (path_join (root # parts)) = path_comps root @ parts"
proof -
  have "\<forall>c \<in> set (path_comps root @ parts). plain c"
    using assms plain_path_comps [OF assms(1)] by auto
  from path_comps_rooted [OF this] show ?thesis
    using assms by (simp add: path_join_plain rooted_not_empty render_def)
qed

lemma rooted_join:
  assumes "rooted root" and "\<forall>c \<in> set parts. plain c"
  shows "rooted (path_join (root # parts))"
  using assms by (simp add: path_join_plain rooted_not_empty render_def) (simp add: rooted_def)

text \<open>\<^verbatim>\<open>Rel\<close> undoes \<^verbatim>\<open>Join\<close>.\<close>

lemma drop_common_prefix: "drop_common bs (bs @ ts) = ([], ts)"
  by (induction bs) (cases ts, simp_all)

lemma path_rel_under:
  assumes "rooted base" "rooted targ" "path_comps targ = path_comps base @ ts" "ts \<noteq> []"
  shows "path_rel base targ = Inr (join [slash] ts)"
  using assms by (cases ts) (simp_all add: path_rel_def drop_common_prefix)

section \<open>Trees\<close>

text \<open>
  What is on disk: regular files, directories in the order of their names, and everything
  else (links, sockets, devices). \<^verbatim>\<open>WalkDir\<close> visits a directory before its entries and
  does not follow links.
\<close>

datatype tree = Regular bytes | Directory "(string \<times> tree) list" | Special

datatype visit = Visit (visit_path: string) (visit_tree: tree) | VisitErr string gerr

function walk_dir :: "string \<Rightarrow> tree \<Rightarrow> visit list" where
  "walk_dir p (Regular b) = [Visit p (Regular b)]"
| "walk_dir p Special = [Visit p Special]"
| "walk_dir p (Directory es) =
     Visit p (Directory es) # concat (map (\<lambda>e. walk_dir (path_join [p, fst e]) (snd e)) es)"
  by pat_completeness auto
termination
proof (relation "measure (\<lambda>(p, t). size t)")
  fix p :: string and es :: "(string \<times> tree) list" and e
  assume "e \<in> set es"
  then have "size_list (size_prod (\<lambda>_. 0) size) es \<ge> size_prod (\<lambda>_. 0) size e"
    by (simp add: size_list_estimation')
  moreover have "size (snd e) < size_prod (\<lambda>_. 0) size e"
    by (cases e) simp
  ultimately show "((path_join [p, fst e], snd e), p, Directory es) \<in> measure (\<lambda>(p, t). size t)"
    by simp
qed simp

end
