(* ===== verification/WorkerPool.thy ===== *)
theory WorkerPool
  imports GoPath
begin

text \<open>
  The worker pool of \<^verbatim>\<open>importFiles\<close> and \<^verbatim>\<open>download\<close> in \<^verbatim>\<open>cmd/go-iroh-sendme\<close>: one goroutine per
  file, a channel of \<open>jobs\<close> slots as the semaphore, a mutex around the results. A worker
  waits for a slot, works, and records its outcome under the mutex before it gives the slot
  back. The scheduler may start and finish workers in any order; the locale \<open>workers\<close> is
  what the recorded results must satisfy for that not to matter.
\<close>

section \<open>Steps\<close>

datatype worker = Waiting | Running | Finished

record 'acc pool =
  pool_workers :: "worker list"
  pool_acc :: 'acc
  pool_order :: "nat list"

definition running :: "worker list \<Rightarrow> nat" where
  "running ws = length (filter (\<lambda>w. w = Running) ws)"

definition new_pool :: "nat \<Rightarrow> 'acc \<Rightarrow> 'acc pool" where
  "new_pool n acc = \<lparr>pool_workers = replicate n Waiting, pool_acc = acc, pool_order = []\<rparr>"

inductive pool_step :: "nat \<Rightarrow> (nat \<Rightarrow> 'acc \<Rightarrow> 'acc) \<Rightarrow> 'acc pool \<Rightarrow> 'acc pool \<Rightarrow> bool"
  for jobs :: nat and finish :: "nat \<Rightarrow> 'acc \<Rightarrow> 'acc" where
  start_worker:
    "i < length (pool_workers p) \<Longrightarrow> pool_workers p ! i = Waiting \<Longrightarrow> running (pool_workers p) < jobs \<Longrightarrow>
     pool_step jobs finish p (p\<lparr>pool_workers := (pool_workers p)[i := Running]\<rparr>)"
| finish_worker:
    "i < length (pool_workers p) \<Longrightarrow> pool_workers p ! i = Running \<Longrightarrow>
     pool_step jobs finish p (p\<lparr>pool_workers := (pool_workers p)[i := Finished],
       pool_acc := finish i (pool_acc p), pool_order := pool_order p @ [i]\<rparr>)"

definition pool_steps :: "nat \<Rightarrow> (nat \<Rightarrow> 'acc \<Rightarrow> 'acc) \<Rightarrow> 'acc pool \<Rightarrow> 'acc pool \<Rightarrow> bool" where
  "pool_steps jobs finish = (pool_step jobs finish)\<^sup>*\<^sup>*"

definition pool_done :: "'acc pool \<Rightarrow> bool" where
  "pool_done p \<longleftrightarrow> list_all (\<lambda>w. w = Finished) (pool_workers p)"

text \<open>What a worker has still to do, summed: every step lowers it by one.\<close>

fun worker_left :: "worker \<Rightarrow> nat" where
  "worker_left Waiting = 2"
| "worker_left Running = 1"
| "worker_left Finished = 0"

definition pool_left :: "'acc pool \<Rightarrow> nat" where
  "pool_left p = sum_list (map worker_left (pool_workers p))"

section \<open>Invariants\<close>

lemma running_update:
  "i < length ws \<Longrightarrow> running (ws[i := w]) =
     running ws - (if ws ! i = Running then 1 else 0) + (if w = Running then 1 else 0)"
proof (induction ws arbitrary: i)
  case (Cons v ws)
  then show ?case
  proof (cases i)
    case (Suc j)
    with Cons have "ws ! j = Running \<Longrightarrow> 0 < running ws"
      by (auto simp: running_def filter_empty_conv in_set_conv_nth)
    with Cons Suc show ?thesis by (auto simp: running_def)
  qed (auto simp: running_def)
qed simp

lemma running_new [simp]: "running (replicate n Waiting) = 0"
  by (simp add: running_def)

definition pool_inv :: "nat \<Rightarrow> nat \<Rightarrow> (nat \<Rightarrow> 'acc \<Rightarrow> 'acc) \<Rightarrow> 'acc \<Rightarrow> 'acc pool \<Rightarrow> bool" where
  "pool_inv jobs n finish acc p \<longleftrightarrow>
     length (pool_workers p) = n \<and> running (pool_workers p) \<le> jobs \<and>
     distinct (pool_order p) \<and> set (pool_order p) = {i. i < n \<and> pool_workers p ! i = Finished} \<and>
     pool_acc p = fold finish (pool_order p) acc"

lemma pool_inv_new: "pool_inv jobs n finish acc (new_pool n acc)"
  by (auto simp: pool_inv_def new_pool_def)

lemma pool_inv_step:
  assumes "pool_inv jobs n finish acc p" and "pool_step jobs finish p q"
  shows "pool_inv jobs n finish acc q"
  using assms(2)
proof (cases rule: pool_step.cases)
  case (start_worker i)
  have "pool_workers p ! j = Finished \<and> j < n \<longleftrightarrow> (pool_workers p)[i := Running] ! j = Finished \<and> j < n" for j
    using start_worker assms(1) by (cases "i = j") (auto simp: pool_inv_def)
  then have "{j. j < n \<and> (pool_workers p)[i := Running] ! j = Finished}
      = {j. j < n \<and> pool_workers p ! j = Finished}"
    by blast
  with start_worker assms(1) show ?thesis
    by (simp add: pool_inv_def running_update)
next
  case (finish_worker i)
  have new: "i \<notin> set (pool_order p)"
    using finish_worker assms(1) by (simp add: pool_inv_def)
  have "{j. j < n \<and> (pool_workers p)[i := Finished] ! j = Finished}
      = insert i {j. j < n \<and> pool_workers p ! j = Finished}"
    using finish_worker assms(1) by (auto simp: pool_inv_def nth_list_update)
  moreover have "running (pool_workers p) - 1 \<le> jobs"
    using assms(1) unfolding pool_inv_def by linarith
  ultimately show ?thesis
    using finish_worker assms(1) new by (simp add: pool_inv_def running_update)
qed

lemma pool_inv_steps:
  "pool_steps jobs finish p q \<Longrightarrow> pool_inv jobs n finish acc p \<Longrightarrow> pool_inv jobs n finish acc q"
  unfolding pool_steps_def by (induction rule: rtranclp_induct) (auto dest: pool_inv_step)

lemma pool_reach: "pool_steps jobs finish (new_pool n acc) q \<Longrightarrow> pool_inv jobs n finish acc q"
  by (erule pool_inv_steps) (rule pool_inv_new)

text \<open>When every worker has finished, each has recorded its outcome once.\<close>

lemma pool_done_order:
  assumes "pool_inv jobs n finish acc q" "pool_done q"
  shows "mset (pool_order q) = mset [0..<n]"
proof -
  have "set (pool_order q) = {i. i < n}"
    using assms by (auto simp: pool_inv_def pool_done_def list_all_length)
  then have "set (pool_order q) = set [0..<n]"
    by (simp add: atLeast0LessThan lessThan_def)
  moreover have "distinct (pool_order q)"
    using assms(1) by (simp add: pool_inv_def)
  ultimately show ?thesis
    by (metis distinct_upt set_eq_iff_mset_eq_distinct)
qed

text \<open>Some worker can go on as long as one has not finished, and not for ever.\<close>

lemma pool_progress:
  assumes "pool_inv jobs n finish acc p" "1 \<le> jobs" "\<not> pool_done p"
  shows "\<exists>q. pool_step jobs finish p q"
proof (cases "Running \<in> set (pool_workers p)")
  case True
  then obtain i where "i < length (pool_workers p)" "pool_workers p ! i = Running"
    by (auto simp: in_set_conv_nth)
  then show ?thesis
    by (blast intro: finish_worker)
next
  case False
  then have idle: "running (pool_workers p) = 0"
    by (auto simp: running_def filter_empty_conv)
  from assms(3) obtain i where i: "i < length (pool_workers p)" "pool_workers p ! i \<noteq> Finished"
    by (auto simp: pool_done_def list_all_length)
  with False have "pool_workers p ! i = Waiting"
    by (cases "pool_workers p ! i") (auto simp: in_set_conv_nth)
  with i idle assms(2) show ?thesis
    by (metis (no_types, lifting) start_worker less_eq_Suc_le One_nat_def)
qed

lemma sum_left_update:
  assumes "i < length ws"
  shows "sum_list (map worker_left (ws[i := w])) + worker_left (ws ! i)
     = sum_list (map worker_left ws) + worker_left w"
proof -
  from assms obtain xs v ys where "ws = xs @ v # ys" "i = length xs"
    by (metis id_take_nth_drop length_take min.absorb4)
  then show ?thesis by simp
qed

lemma pool_left_step:
  assumes "pool_step jobs finish p q"
  shows "pool_left p = Suc (pool_left q)"
  using assms
proof (cases rule: pool_step.cases)
  case (start_worker i)
  with sum_left_update [of i "pool_workers p" Running] show ?thesis
    by (simp add: pool_left_def)
next
  case (finish_worker i)
  with sum_left_update [of i "pool_workers p" Finished] show ?thesis
    by (simp add: pool_left_def)
qed

section \<open>Results that do not depend on the order\<close>

text \<open>
  \<open>finish i\<close> records worker \<open>i\<close>'s outcome; \<open>view\<close> is the part of the results the caller
  goes on with.
\<close>

locale workers =
  fixes finish :: "nat \<Rightarrow> 'acc \<Rightarrow> 'acc"
    and view :: "'acc \<Rightarrow> 'v"
  assumes view_step: "view a = view b \<Longrightarrow> view (finish i a) = view (finish i b)"
    and view_swap: "i \<noteq> j \<Longrightarrow> view (finish i (finish j a)) = view (finish j (finish i a))"
begin

lemma view_fold: "view a = view b \<Longrightarrow> view (fold finish is a) = view (fold finish is b)"
proof (induction "is" arbitrary: a b)
  case (Cons i "is")
  from Cons.IH [OF view_step [OF Cons.prems]] show ?case by simp
qed simp

lemma view_move:
  "i \<notin> set is \<Longrightarrow> view (fold finish (is @ [i]) a) = view (fold finish (i # is) a)"
proof (induction "is" arbitrary: a)
  case (Cons j js)
  then have "view (fold finish (js @ [i]) (finish j a)) = view (fold finish js (finish i (finish j a)))"
    by simp
  also have "\<dots> = view (fold finish js (finish j (finish i a)))"
    using Cons.prems by (intro view_fold view_swap) simp
  finally show ?case by simp
qed simp

lemma view_perm:
  "mset is = mset js \<Longrightarrow> distinct is \<Longrightarrow> view (fold finish is a) = view (fold finish js a)"
proof (induction "is" arbitrary: js a)
  case (Cons i "is")
  then obtain xs ys where js: "js = xs @ i # ys"
    by (metis in_set_conv_decomp list.set_intros(1) mset_eq_setD)
  have "distinct js"
    using Cons.prems by (metis mset_eq_imp_distinct_iff)
  with js have i: "i \<notin> set xs"
    by simp
  have "view (fold finish js a) = view (fold finish ys (fold finish (xs @ [i]) a))"
    by (simp add: js)
  also have "\<dots> = view (fold finish ys (fold finish (i # xs) a))"
    using view_move [OF i] by (rule view_fold)
  also have "\<dots> = view (fold finish (xs @ ys) (finish i a))"
    by simp
  also have "\<dots> = view (fold finish is (finish i a))"
    using Cons by (intro Cons.IH [symmetric]) (simp_all add: js)
  finally show ?case by simp
qed simp

text \<open>Every run of the pool to its end shows what one worker after the other would.\<close>

lemma pool_view:
  assumes "pool_steps jobs finish (new_pool n acc) q" "pool_done q"
  shows "view (pool_acc q) = view (fold finish [0..<n] acc)"
proof -
  have inv: "pool_inv jobs n finish acc q"
    using assms(1) by (rule pool_reach)
  from inv have "pool_acc q = fold finish (pool_order q) acc"
    by (simp add: pool_inv_def)
  with view_perm [OF pool_done_order [OF inv assms(2)]] inv show ?thesis
    by (simp add: pool_inv_def)
qed

end

end
