(* ===== verification/SendmeCli.thy ===== *)
theory SendmeCli
  imports WorkerPool
begin

text \<open>
  \<^verbatim>\<open>cmd/go-iroh-sendme/main.go\<close>, what both commands share: the options, the spellings of
  the ticket type, the secret key, \<^verbatim>\<open>bind\<close>, \<^verbatim>\<open>exportPath\<close>, \<^verbatim>\<open>limitWriter\<close> and
  \<^verbatim>\<open>humanBytes\<close>, with the blob library as a record of the functions the code calls.
\<close>

section \<open>The blob library\<close>

record ticket =
  tk_addr :: endpoint_addr
  tk_hash :: string
  tk_hash_seq :: bool

type_synonym entry = "string \<times> string"

text \<open>
  \<^verbatim>\<open>blobs.Ticket\<close>, \<^verbatim>\<open>blobs.Collection\<close> and \<^verbatim>\<open>blobs.HashSequence\<close> are not under \<^verbatim>\<open>src/\<close>: their
  encodings are parameters. An entry is a name and a hash, both texts. \<open>walk_of\<close> is what
  \<^verbatim>\<open>WalkDir\<close> visits under a path.
\<close>

record blob_lib =
  parse_ticket :: "string \<Rightarrow> gerr + ticket"
  ticket_text :: "ticket \<Rightarrow> string"
  parse_seq :: "bytes \<Rightarrow> gerr + string list"
  collection_seq :: "entry list \<Rightarrow> bytes"
  collection_meta :: "entry list \<Rightarrow> bytes"
  parse_collection :: "string list \<Rightarrow> bytes \<Rightarrow> gerr + entry list"
  walk_of :: "io_hist \<Rightarrow> string \<Rightarrow> visit list"

definition blobs_alpn :: string where
  "blobs_alpn = ''blobs.ALPN''"

section \<open>Options\<close>

datatype ticket_type = RelayAndAddresses | IdOnly | RelayOnly | AddressesOnly

text \<open>The constants in the order of the code's \<^verbatim>\<open>iota\<close>.\<close>

fun ticket_type_code :: "ticket_type \<Rightarrow> nat" where
  "ticket_type_code RelayAndAddresses = 0"
| "ticket_type_code IdOnly = 1"
| "ticket_type_code RelayOnly = 2"
| "ticket_type_code AddressesOnly = 3"

instantiation ticket_type :: linorder
begin

definition less_eq_ticket_type :: "ticket_type \<Rightarrow> ticket_type \<Rightarrow> bool" where
  "less_eq_ticket_type a b = (ticket_type_code a \<le> ticket_type_code b)"

definition less_ticket_type :: "ticket_type \<Rightarrow> ticket_type \<Rightarrow> bool" where
  "less_ticket_type a b = (ticket_type_code a < ticket_type_code b)"

instance
proof
  fix a b :: ticket_type
  show "a \<le> b \<Longrightarrow> b \<le> a \<Longrightarrow> a = b"
    by (cases a; cases b) (simp_all add: less_eq_ticket_type_def)
qed (auto simp: less_eq_ticket_type_def less_ticket_type_def)

end

definition parse_ticket_type :: "string \<Rightarrow> gerr + ticket_type" where
  "parse_ticket_type s =
     (let t = to_lower (filter (\<lambda>c. c \<noteq> CHR ''-'') s) in
      if t = ''relayandaddresses'' then Inr RelayAndAddresses
      else if t = ''id'' then Inr IdOnly
      else if t = ''relay'' then Inr RelayOnly
      else if t = ''addresses'' then Inr AddressesOnly
      else Inl (Err (''invalid ticket type '' @ quote s)))"

record options =
  opt_relay :: string
  opt_ipv4 :: string
  opt_ipv6 :: string
  opt_format :: string
  opt_jobs :: int
  opt_show_secret :: bool
  opt_verbose :: bool
  opt_ticket_type :: ticket_type
  opt_secret :: string

definition usage_lines :: "string list" where
  "usage_lines =
     [''usage:'',
      ''  go-iroh-sendme send [flags] <path>'',
      ''  go-iroh-sendme receive [flags] <ticket>'',
      [],
      ''With no arguments a directory is sent and received over loopback.'',
      ''Flags: -relay default|disabled|<url>, -ticket-type id|relay-and-addresses|relay|addresses (send),'',
      ''-magic-ipv4-addr addr:port, -magic-ipv6-addr addr:port, -format hex|cid, -jobs n,'',
      ''-show-secret, -no-progress, -v. IROH_SECRET sets the secret key.'']"

fun eprintln_all :: "string list \<Rightarrow> unit io" where
  "eprintln_all [] = go_ret ()"
| "eprintln_all (s # ss) = go_then (eprintln s) (eprintln_all ss)"

definition usage :: "'a io" where
  "usage = go_then (eprintln_all usage_lines) (go_fail ErrUsage)"

text \<open>\<^verbatim>\<open>secretKey\<close>: from the environment, or a new one, shown if asked. Keys are their texts.\<close>

definition secret_key :: "call world \<Rightarrow> bool \<Rightarrow> string io" where
  "secret_key W show_it =
     go_try (query W got_text (Os (Getenv ''IROH_SECRET''))) (\<lambda>s.
     if s \<noteq> [] then go_wrap ''invalid secret'' (invoke_get W got_text (Os (ParseKey s)))
     else
       go_try (invoke_get W got_text (Os GenerateKey)) (\<lambda>sk.
       if show_it then
         go_try (query W got_bytes (Os (KeyBytes sk))) (\<lambda>seed.
         go_then (eprintln (''using secret key '' @ hex_encode seed)) (go_ret sk))
       else go_ret sk))"

definition relay_mode_of :: "call world \<Rightarrow> string \<Rightarrow> relay_mode io" where
  "relay_mode_of W s =
     (if s = ''default'' then go_ret RelayDefault
      else if s = ''disabled'' then go_ret RelayDisabled
      else go_try (go_wrap (''invalid relay '' @ quote s)
               (invoke_get W got_text (Os (ParseText ''relay url'' s)))) (\<lambda>u.
           go_ret (RelayCustom [u])))"

text \<open>
  \<^verbatim>\<open>bind\<close>: at most one bind address, the two fields concatenated because one is empty; no
  address means no \<^verbatim>\<open>WithBindAddr\<close> at all.
\<close>

definition sendme_bind :: "call world \<Rightarrow> options \<Rightarrow> bind_opt list \<Rightarrow> nat io" where
  "sendme_bind W opt opts =
     go_try
       (if opt_ipv4 opt \<noteq> [] \<and> opt_ipv6 opt \<noteq> [] then
          go_fail (Err ''go-iroh binds one socket: give -magic-ipv4-addr or -magic-ipv6-addr, not both'')
        else if opt_ipv4 opt \<noteq> [] \<or> opt_ipv6 opt \<noteq> [] then
          go_try (go_wrap ''parse bind address''
            (invoke_get W got_text (Os (ParseText ''addrport'' (opt_ipv4 opt @ opt_ipv6 opt)))))
            (\<lambda>ap. go_ret [WithBindAddr ap])
        else go_ret []) (\<lambda>addr.
     go_try (relay_mode_of W (opt_relay opt)) (\<lambda>mode.
     invoke W (Net (Bind (opts @ [WithSecretKey (opt_secret opt)] @ addr @ [WithRelayMode mode])))))"

lemma owns_eprintln_all: "owns opens frees {} (eprintln_all ss) own"
  by (induction ss) (auto intro!: owns_then [where F = "{}"] drops_eprintln simp: owns_ret)

lemma owns_usage: "owns opens_endpoint frees_endpoint {} usage own"
  unfolding usage_def
  by (rule owns_then [where F = "{}"] drops_owns owns_eprintln_all owns_fail | simp)+

lemma owns_secret_key: "owns opens_endpoint frees_endpoint {} (secret_key W b) (\<lambda>_. {})"
  unfolding secret_key_def
  by (rule owns_try owns_query owns_invoke_get owns_wrap owns_cases owns_ret
      owns_then [where F = "{}"] drops_eprintln | simp)+

lemma owns_relay_mode: "owns opens_endpoint frees_endpoint {} (relay_mode_of W s) (\<lambda>_. {})"
  unfolding relay_mode_of_def
  by (rule owns_try owns_invoke_get owns_wrap owns_cases owns_ret | simp)+

lemma owns_sendme_bind: "owns opens_endpoint frees_endpoint {} (sendme_bind W opt opts) (\<lambda>n. {n})"
  unfolding sendme_bind_def
  by (rule owns_try [where own = "\<lambda>_. {}"] owns_relay_mode owns_invoke_get owns_wrap owns_cases
      owns_ret owns_fail owns_weaken [OF owns_invoke_open] | simp)+

lemma dirs_secret_key: "owns opens_dir frees_dir {} (secret_key W b) (\<lambda>_. {})"
  unfolding secret_key_def
  by (rule owns_try owns_query owns_invoke_get owns_wrap owns_cases owns_ret
      owns_then [where F = "{}"] drops_eprintln | simp)+

lemma dirs_sendme_bind: "owns opens_dir frees_dir {} (sendme_bind W opt opts) (\<lambda>_. {})"
  unfolding sendme_bind_def relay_mode_of_def
  by (rule owns_try [where own = "\<lambda>_. {}"] owns_invoke_get owns_wrap owns_cases
      owns_ret owns_fail owns_invoke | simp)+

section \<open>Names and paths\<close>

text \<open>\<^verbatim>\<open>exportPath\<close>: a collection name onto the directory it is written under.\<close>

definition bad_component :: "string \<Rightarrow> bool" where
  "bad_component p \<longleftrightarrow> p = [] \<or> p = ''.'' \<or> p = ''..'' \<or> CHR 0x5C \<in> set p"

definition export_path :: "string \<Rightarrow> string \<Rightarrow> gerr + string" where
  "export_path root name =
     (let parts = split_on slash name in
      if list_ex bad_component parts
      then Inl (Err (''invalid name '' @ quote name @ '' in collection''))
      else Inr (path_join (root # parts)))"

lemma good_components_plain:
  "\<not> list_ex bad_component (split_on slash name) \<Longrightarrow> \<forall>c \<in> set (split_on slash name). plain c"
  by (auto simp: list_ex_iff bad_component_def plain_def dest: split_on_free)

lemma export_path_comps:
  assumes "rooted root" and "export_path root name = Inr p"
  shows "rooted p \<and> path_comps p = path_comps root @ split_on slash name \<and>
    (\<forall>c \<in> set (split_on slash name). plain c)"
  using assms good_components_plain [of name]
  by (auto simp: export_path_def Let_def path_comps_join rooted_join split: if_splits)

lemma export_path_inj:
  assumes "rooted root" "export_path root a = Inr p" "export_path root b = Inr p"
  shows "a = b"
proof -
  have "split_on slash a = split_on slash b"
    using export_path_comps [OF assms(1,2)] export_path_comps [OF assms(1,3)] by auto
  then show ?thesis by (metis join_split_on)
qed

section \<open>Bounded buffers\<close>

definition max_meta_size :: int where
  "max_meta_size = 32 * 2 ^ 20"

record limit_writer =
  lim_n :: int
  lim_buf :: bytes

definition limit_write :: "limit_writer \<Rightarrow> bytes \<Rightarrow> gerr + limit_writer" where
  "limit_write l p =
     (if int (length p) > lim_n l then Inl (Err ''blob too large'')
      else Inr (l\<lparr>lim_n := lim_n l - int (length p), lim_buf := lim_buf l @ p\<rparr>))"

lemma limit_write_sum:
  "limit_write l p = Inr l' \<Longrightarrow> 0 \<le> lim_n l' \<and>
     lim_n l' + int (length (lim_buf l')) = lim_n l + int (length (lim_buf l))"
  by (auto simp: limit_write_def split: if_splits)

section \<open>Sizes\<close>

text \<open>
  \<^verbatim>\<open>float64(n)\<close> for a natural number: 53 significant bits, a tie to the even one. A
  division by 1024 is exact, so the value printed is \<open>round_f64 n\<close> over a power of 1024.
\<close>

function bit_len :: "nat \<Rightarrow> nat" where
  "bit_len n = (if n = 0 then 0 else Suc (bit_len (n div 2)))"
  by auto
termination by (relation "measure id") auto

declare bit_len.simps [simp del]

definition div_even :: "nat \<Rightarrow> nat \<Rightarrow> nat" where
  "div_even a d =
     (let q = a div d; r = a mod d in
      if 2 * r < d then q else if 2 * r > d then q + 1 else if even q then q else q + 1)"

definition round_f64 :: "nat \<Rightarrow> nat" where
  "round_f64 n = (let e = bit_len n - 53 in div_even n (2 ^ e) * 2 ^ e)"

definition two_digits :: "nat \<Rightarrow> string" where
  "two_digits n = [char_of (48 + n div 10), char_of (48 + n mod 10)]"

fun human_units :: "nat \<Rightarrow> nat \<Rightarrow> string list \<Rightarrow> string" where
  "human_units f scale [] = []"
| "human_units f scale (u # us) =
     (if f < 1024 * scale \<or> us = []
      then (let c = div_even (f * 100) scale in
            digits_of (c div 100) @ ''.'' @ two_digits (c mod 100) @ '' '' @ u)
      else human_units f (scale * 1024) us)"

definition human_bytes :: "int \<Rightarrow> string" where
  "human_bytes n =
     (if n < 1024 then (if n < 0 then ''-'' @ digits_of (nat (- n)) else digits_of (nat n)) @ '' B''
      else human_units (round_f64 (nat n)) 1024 [''KiB'', ''MiB'', ''GiB'', ''TiB''])"

text \<open>Rounding to two decimals moves a value by at most half a hundredth.\<close>

lemma div_even_near: "0 < d \<Longrightarrow> 2 * (div_even a d * d) \<le> 2 * a + d \<and> 2 * a \<le> 2 * (div_even a d * d) + d"
proof -
  assume d: "0 < d"
  define q r where "q = a div d" and "r = a mod d"
  have a: "a = q * d + r" and r: "r < d"
    using d by (simp_all add: q_def r_def)
  have "div_even a d = q \<and> 2 * r \<le> d \<or> div_even a d = q + 1 \<and> d \<le> 2 * r"
    by (auto simp: div_even_def Let_def q_def r_def)
  then show ?thesis
    using a r by (auto simp: add_mult_distrib)
qed

lemma bit_len_less: "n < 2 ^ k \<Longrightarrow> bit_len n \<le> k"
proof (induction k arbitrary: n)
  case 0
  then show ?case by (simp add: bit_len.simps)
next
  case (Suc k)
  show ?case
  proof (cases "n = 0")
    case False
    from Suc.prems have "n div 2 < 2 ^ k" by simp
    with Suc.IH False show ?thesis by (simp add: bit_len.simps [of n])
  qed (simp add: bit_len.simps)
qed

lemma round_f64_exact: "n < 2 ^ 53 \<Longrightarrow> round_f64 n = n"
  using bit_len_less [of n 53] by (simp add: round_f64_def div_even_def Let_def)

end
