(* ===== verification/SendmeSend.thy ===== *)
theory SendmeSend
  imports SendmeCli
begin

text \<open>
  \<^verbatim>\<open>cmd/go-iroh-sendme/main.go\<close>, the sending side: \<^verbatim>\<open>walk\<close>, \<^verbatim>\<open>importFiles\<close>, \<^verbatim>\<open>ticketAddr\<close>,
  \<^verbatim>\<open>serve\<close>, \<^verbatim>\<open>startSend\<close> and \<^verbatim>\<open>Close\<close>. The library lemmas show what \<^verbatim>\<open>walk\<close> finds in a tree,
  that the import's result does not depend on the scheduler, and what is left on disk and
  open on every path through \<^verbatim>\<open>startSend\<close>.
\<close>

section \<open>Listing the files\<close>

record source_file =
  file_name :: string
  file_path :: string

text \<open>The callback of \<^verbatim>\<open>WalkDir\<close>: an error ends the walk, anything but a regular file is skipped.\<close>

definition walk_one :: "string \<Rightarrow> visit \<Rightarrow> gerr + source_file list" where
  "walk_one parent v =
     (case v of
        VisitErr p e \<Rightarrow> Inl e
      | Visit p t \<Rightarrow>
        (case t of
           Regular b \<Rightarrow>
             (case path_rel parent p of
                Inl e \<Rightarrow> Inl e
              | Inr r \<Rightarrow>
                (let parts = split_on slash r in
                 case find_first (contains_any [slash, CHR 0x5C]) parts of
                   Some part \<Rightarrow> Inl (Err (''invalid path component '' @ quote part))
                 | None \<Rightarrow> Inr [\<lparr>file_name = join [slash] parts, file_path = p\<rparr>]))
         | Directory es \<Rightarrow> Inr []
         | Special \<Rightarrow> Inr []))"

fun walk_all :: "string \<Rightarrow> visit list \<Rightarrow> gerr + source_file list" where
  "walk_all parent [] = Inr []"
| "walk_all parent (v # vs) =
     (case walk_one parent v of
        Inl e \<Rightarrow> Inl e
      | Inr fs \<Rightarrow> (case walk_all parent vs of Inl e \<Rightarrow> Inl e | Inr gs \<Rightarrow> Inr (fs @ gs)))"

definition walk :: "string \<Rightarrow> visit list \<Rightarrow> gerr + source_file list" where
  "walk path vs =
     (case walk_all (path_dir path) vs of Inl e \<Rightarrow> Inl e | Inr fs \<Rightarrow> Inr (sort_key file_name fs))"

section \<open>Importing them\<close>

record import_acc =
  imp_entries :: "entry list"
  imp_size :: u64
  imp_err :: "gerr option"

type_synonym import_outcome = "gerr option \<times> string \<times> nat"

text \<open>One worker, up to the mutex: \<^verbatim>\<open>Stat\<close> is made whether or not the import failed.\<close>

definition import_one :: "call world \<Rightarrow> nat \<Rightarrow> source_file \<Rightarrow> import_outcome io" where
  "import_one W store f =
     go_catch (invoke_get W got_text (Blob (ImportFile store (file_path f)))) (\<lambda>r.
     go_catch (invoke_get W got_nat (Os (Stat (file_path f)))) (\<lambda>st.
     go_ret (case r of
         Inl e \<Rightarrow> (Some e, [], 0)
       | Inr h \<Rightarrow> (case st of Inl e \<Rightarrow> (Some e, h, 0) | Inr n \<Rightarrow> (None, h, n)))))"

text \<open>The part under the mutex: the first error to be recorded is kept.\<close>

definition import_done :: "source_file list \<Rightarrow> nat \<Rightarrow> import_outcome \<Rightarrow> import_acc \<Rightarrow> import_acc" where
  "import_done files i out acc =
     (case out of (err, h, n) \<Rightarrow>
        acc\<lparr>imp_err := (case (err, imp_err acc) of
                (Some e, None) \<Rightarrow> Some (Wrapf (''error importing '' @ file_name (files ! i)) e)
              | _ \<Rightarrow> imp_err acc),
            imp_entries := (imp_entries acc)[i := (file_name (files ! i), h)],
            imp_size := imp_size acc + word_of_nat n\<rparr>)"

definition import_start :: "source_file list \<Rightarrow> import_acc" where
  "import_start files = \<lparr>imp_entries = replicate (length files) ([], []), imp_size = 0, imp_err = None\<rparr>"

text \<open>The workers in the order in which they finish.\<close>

fun import_all :: "call world \<Rightarrow> nat \<Rightarrow> source_file list \<Rightarrow> nat list \<Rightarrow> import_acc \<Rightarrow> import_acc io" where
  "import_all W store files [] acc = go_ret acc"
| "import_all W store files (i # is) acc =
     go_try (import_one W store (files ! i)) (\<lambda>out.
     import_all W store files is (import_done files i out acc))"

definition import_files ::
  "call world \<Rightarrow> blob_lib \<Rightarrow> (nat \<Rightarrow> nat list) \<Rightarrow> nat \<Rightarrow> source_file list \<Rightarrow> (string \<times> u64) io" where
  "import_files W L sched store files =
     go_try (import_all W store files (sched (length files)) (import_start files)) (\<lambda>acc.
     case imp_err acc of
       Some e \<Rightarrow> go_fail e
     | None \<Rightarrow>
       go_try (invoke_get W got_text (Blob (AddBlob store (collection_meta L (imp_entries acc))))) (\<lambda>_.
       go_try (invoke_get W got_text (Blob (AddBlob store (collection_seq L (imp_entries acc))))) (\<lambda>root.
       go_ret (root, imp_size acc))))"

section \<open>The ticket\<close>

record prefix_info =
  pre_text :: string
  pre_link_local :: bool
  pre_is4 :: bool

record iface_info =
  ifc_up :: bool
  ifc_addrs :: "prefix_info option list"

record local_addr =
  loc_unspecified :: bool
  loc_is4 :: bool
  loc_port :: nat

text \<open>
  What the network reports, as a function of the history: the socket's bound address and
  the interfaces, each address already parsed (\<^verbatim>\<open>None\<close>: \<^verbatim>\<open>ParsePrefix\<close> fails).
\<close>

record net_view =
  bound_addr :: "io_hist \<Rightarrow> nat \<Rightarrow> local_addr"
  interfaces :: "io_hist \<Rightarrow> iface_info list"
  addr_port :: "string \<Rightarrow> nat \<Rightarrow> string"

definition advertised :: "net_view \<Rightarrow> local_addr \<Rightarrow> iface_info list \<Rightarrow> string list" where
  "advertised N bound ifaces =
     concat (map (\<lambda>ifc. if \<not> ifc_up ifc then []
        else concat (map (\<lambda>a. case a of
            None \<Rightarrow> []
          | Some p \<Rightarrow> if pre_link_local p \<or> loc_is4 bound \<and> \<not> pre_is4 p then []
                      else [addr_port N (pre_text p) (loc_port bound)]) (ifc_addrs ifc))) ifaces)"

definition direct_addrs :: "call world \<Rightarrow> net_view \<Rightarrow> nat \<Rightarrow> string list io" where
  "direct_addrs W N ep =
     go_try (query W got_texts (Net (IPAddrs (AddrOf ep)))) (\<lambda>out.
     go_try (query W (\<lambda>_ h _. bound_addr N h ep) (Net (LocalAddr ep))) (\<lambda>bound.
     if \<not> loc_unspecified bound then go_ret out
     else go_try (query W (\<lambda>_ h _. interfaces N h) (Os Interfaces)) (\<lambda>ifaces.
       go_ret (out @ advertised N bound ifaces))))"

definition ticket_addr :: "call world \<Rightarrow> net_view \<Rightarrow> nat \<Rightarrow> ticket_type \<Rightarrow> endpoint_addr io" where
  "ticket_addr W N ep tt =
     go_try (query W got_text (Net (EndpointID ep))) (\<lambda>i.
     let addr = NewAddr i in
     if tt = IdOnly then go_ret addr
     else
       go_try (if tt \<noteq> AddressesOnly then query W got_texts (Net (RelayURLs (AddrOf ep))) else go_ret []) (\<lambda>urls.
       go_try (if tt \<noteq> RelayOnly then direct_addrs W N ep else go_ret []) (\<lambda>aps.
       go_ret (foldl WithIP (foldl WithRelayURL addr urls) aps))))"

section \<open>Serving\<close>

definition serve_stream :: "call world \<Rightarrow> nat \<Rightarrow> nat \<Rightarrow> unit io" where
  "serve_stream W store s =
     go_catch (invoke W (Blob (ServeBlob s store))) (\<lambda>r.
     case r of
       Inr _ \<Rightarrow> go_ret ()
     | Inl e \<Rightarrow> go_then (invoke W (Net (CancelRead s 1))) (go_then (invoke W (Net (CancelWrite s 1))) (go_ret ())))"

definition serve_conn :: "call world \<Rightarrow> nat \<Rightarrow> nat \<Rightarrow> nat \<Rightarrow> unit io" where
  "serve_conn W fuel store conn =
     go_defer (invoke W (Net (CloseConn conn 0 [])))
       (go_loop fuel (\<lambda>_. go_catch (invoke W (Net (AcceptStream conn))) (\<lambda>r.
          case r of
            Inl e \<Rightarrow> go_ret (Inl ())
          | Inr s \<Rightarrow> go_then (serve_stream W store s) (go_ret (Inr ())))) ())"

definition serve :: "call world \<Rightarrow> nat \<Rightarrow> nat \<Rightarrow> nat \<Rightarrow> unit io" where
  "serve W fuel ep store =
     go_loop fuel (\<lambda>_. go_catch (invoke W (Net (Accept ep))) (\<lambda>r.
       case r of
         Inl e \<Rightarrow> go_ret (Inl ())
       | Inr conn \<Rightarrow> go_then (serve_conn W fuel store conn) (go_ret (Inr ())))) ()"

section \<open>A sender\<close>

record sender =
  snd_ep :: nat
  snd_store_dir :: string
  snd_store :: nat
  snd_ticket :: ticket

definition remove_store :: "call world \<Rightarrow> string \<Rightarrow> nat io" where
  "remove_store W dir = invoke W (Os (RemoveAll dir))"

definition publisher_opts :: "call world \<Rightarrow> options \<Rightarrow> bind_opt list io" where
  "publisher_opts W opt =
     (if opt_ticket_type opt = IdOnly
      then go_try (invoke W (Blob (Publisher (opt_secret opt)))) (\<lambda>_. go_ret [WithAddressLookup ''pkarr publisher''])
      else go_ret [])"

text \<open>From the bound endpoint on nothing can fail: the ticket is made and printed.\<close>

definition announce ::
  "call world \<Rightarrow> blob_lib \<Rightarrow> net_view \<Rightarrow> string \<Rightarrow> options \<Rightarrow> source_file list \<Rightarrow> string \<Rightarrow> u64 \<Rightarrow> nat \<Rightarrow> ticket io" where
  "announce W L N path opt files root amount ep =
     go_then (if opt_relay opt \<noteq> ''disabled'' then invoke W (Net (Online ep)) else go_ret 0)
     (go_try (ticket_addr W N ep (opt_ticket_type opt)) (\<lambda>addr.
      go_catch (invoke_get W got_flag (Os (Stat path))) (\<lambda>st.
      let t = \<lparr>tk_addr = addr, tk_hash = root, tk_hash_seq = True\<rparr>;
          kind = (case st of Inr True \<Rightarrow> ''file'' | _ \<Rightarrow> ''directory'') in
      go_then (println (''imported '' @ kind @ '' '' @ path_base path @ '', '' @
                 human_bytes (sint amount) @ '', hash '' @ root))
     (go_then (if opt_verbose opt then println_all (map (\<lambda>f. ''    '' @ file_name f) files) else go_ret ())
     (go_then (println ''to get this data, use'')
     (go_then (println (''sendme receive '' @ ticket_text L t))
     (go_ret t)))))))"

definition start_send ::
  "call world \<Rightarrow> blob_lib \<Rightarrow> net_view \<Rightarrow> (nat \<Rightarrow> nat list) \<Rightarrow> string \<Rightarrow> string \<Rightarrow> options \<Rightarrow> sender io" where
  "start_send W L N sched path dir opt =
     go_try (go_try (query W (\<lambda>_ h _. walk_of L h path) (Os (WalkDir path))) (\<lambda>vs. go_lift (walk path vs))) (\<lambda>files.
     go_catch (invoke W (Os (Stat dir))) (\<lambda>st.
     case st of
       Inr _ \<Rightarrow> go_fail (Err (''can not share twice from the same directory: '' @ dir))
     | Inl _ \<Rightarrow>
     go_try (invoke W (Blob (NewStore dir))) (\<lambda>store.
     go_catch (import_files W L sched store files) (\<lambda>imp.
     case imp of
       Inl e \<Rightarrow> go_then (remove_store W dir) (go_fail e)
     | Inr (root, amount) \<Rightarrow>
     go_try (publisher_opts W opt) (\<lambda>lookup.
     go_catch (sendme_bind W opt (WithALPNs [blobs_alpn] # lookup)) (\<lambda>b.
     case b of
       Inl e \<Rightarrow> go_then (remove_store W dir) (go_fail e)
     | Inr ep \<Rightarrow>
     go_try (announce W L N path opt files root amount ep) (\<lambda>t.
     go_ret \<lparr>snd_ep = ep, snd_store_dir = dir, snd_store = store, snd_ticket = t\<rparr>)))))))"

text \<open>
  \<^verbatim>\<open>Close\<close>: the serving goroutines end, the endpoint is shut down, the store deleted; the
  first error is returned.
\<close>

definition close_sender :: "call world \<Rightarrow> nat \<Rightarrow> sender \<Rightarrow> unit io" where
  "close_sender W fuel s =
     go_catch (shutdown W (snd_ep s)) (\<lambda>r.
     go_then (serve W fuel (snd_ep s) (snd_store s))
     (go_catch (remove_store W (snd_store_dir s)) (\<lambda>r2.
       case r of
         Inl e \<Rightarrow> go_fail e
       | Inr _ \<Rightarrow> (case r2 of Inl e \<Rightarrow> go_fail e | Inr _ \<Rightarrow> go_ret ()))))"

section \<open>What walk finds\<close>

lemma walk_all_append:
  "walk_all parent (vs @ ws) =
     (case walk_all parent vs of Inl e \<Rightarrow> Inl e
      | Inr fs \<Rightarrow> (case walk_all parent ws of Inl e \<Rightarrow> Inl e | Inr gs \<Rightarrow> Inr (fs @ gs)))"
  by (induction vs) (auto split: sum.splits)

text \<open>A directory entry's name as the file system allows it.\<close>

fun plain_tree :: "tree \<Rightarrow> bool" where
  "plain_tree (Regular b) = True"
| "plain_tree Special = True"
| "plain_tree (Directory es) =
     (distinct (map fst es) \<and> (\<forall>e \<in> set es. plain (fst e) \<and> plain_tree (snd e)))"

text \<open>
  Where the walk is, in components: below the path it started from, by the names it went
  through; and no path is visited twice.
\<close>

lemma walk_dir_paths:
  assumes "plain_tree t" "rooted p" "v \<in> set (walk_dir p t)"
  shows "\<exists>q t' cs. v = Visit q t' \<and> rooted q \<and> path_comps q = path_comps p @ cs \<and> (\<forall>c \<in> set cs. plain c)"
  using assms
proof (induction p t arbitrary: v rule: walk_dir.induct)
  case (3 p es)
  from "3.prems"(3) consider "v = Visit p (Directory es)"
    | e where "e \<in> set es" "v \<in> set (walk_dir (path_join [p, fst e]) (snd e))"
    by auto
  then show ?case
  proof cases
    case 2
    have e: "\<forall>c \<in> set [fst e]. plain c" "plain_tree (snd e)"
      using "3.prems"(1) 2(1) by auto
    from "3.IH" [OF 2(1) e(2) rooted_join [OF "3.prems"(2) e(1)] 2(2)]
    obtain q t' cs where v: "v = Visit q t'" "rooted q" "\<forall>c \<in> set cs. plain c"
      "path_comps q = path_comps (path_join [p, fst e]) @ cs"
      by blast
    then have "path_comps q = path_comps p @ fst e # cs"
      using path_comps_join [OF "3.prems"(2) e(1)] by simp
    with v e(1) show ?thesis
      by (intro exI [of _ q] exI [of _ t'] exI [of _ "fst e # cs"]) auto
  qed (use "3.prems"(2) in auto)
qed auto

lemma distinct_concat_map:
  assumes "distinct (map key es)" and "\<And>e. e \<in> set es \<Longrightarrow> distinct (g e)"
    and "\<And>e x. e \<in> set es \<Longrightarrow> x \<in> set (g e) \<Longrightarrow> owner x = key e"
  shows "distinct (concat (map g es))"
  using assms
proof (induction es)
  case (Cons e es)
  have "set (g e) \<inter> set (concat (map g es)) = {}"
  proof (rule equals0I)
    fix x assume x: "x \<in> set (g e) \<inter> set (concat (map g es))"
    then obtain e' where "e' \<in> set es" "x \<in> set (g e')" by auto
    with Cons.prems(3) [of e' x] Cons.prems(3) [of e x] x have "key e' = key e" by auto
    with \<open>e' \<in> set es\<close> have "key e \<in> key ` set es" by (metis imageI)
    with Cons.prems(1) show False by simp
  qed
  moreover have "distinct (concat (map g es))"
    using Cons.prems by (intro Cons.IH) auto
  ultimately show ?case
    using Cons.prems(2) by simp
qed simp

abbreviation comps_of :: "visit \<Rightarrow> string list" where
  "comps_of v \<equiv> path_comps (visit_path v)"

lemma walk_dir_distinct:
  assumes "plain_tree t" "rooted p"
  shows "distinct (map comps_of (walk_dir p t))"
  using assms
proof (induction p t rule: walk_dir.induct)
  case (3 p es)
  let ?g = "\<lambda>e. map comps_of (walk_dir (path_join [p, fst e]) (snd e))"
  let ?n = "length (path_comps p)"
  have below: "\<exists>cs. x = path_comps p @ fst e # cs" if "e \<in> set es" "x \<in> set (?g e)" for e x
  proof -
    have e: "\<forall>c \<in> set [fst e]. plain c" "plain_tree (snd e)"
      using "3.prems"(1) that(1) by auto
    from that(2) obtain v where "v \<in> set (walk_dir (path_join [p, fst e]) (snd e))" "x = comps_of v"
      by auto
    with walk_dir_paths [OF e(2) rooted_join [OF "3.prems"(2) e(1)]] path_comps_join [OF "3.prems"(2) e(1)]
    show ?thesis by fastforce
  qed
  have "distinct (concat (map ?g es))"
  proof (rule distinct_concat_map [where key = fst and owner = "\<lambda>x. x ! ?n"])
    show "distinct (map fst es)"
      using "3.prems"(1) by simp
    fix e assume e: "e \<in> set es"
    with "3.prems" have "\<forall>c \<in> set [fst e]. plain c" "plain_tree (snd e)" by auto
    with "3.IH" [OF e] rooted_join [OF "3.prems"(2)] show "distinct (?g e)" by blast
    fix x assume "x \<in> set (?g e)"
    with below [OF e] show "x ! ?n = fst e"
      by (metis nth_append_length)
  qed
  moreover have "path_comps p \<notin> set (concat (map ?g es))"
    using below by fastforce
  ultimately show ?case
    by (simp add: map_concat comp_def)
qed auto

lemma join_nonempty: "ws \<noteq> [] \<Longrightarrow> \<forall>w \<in> set ws. w \<noteq> [] \<Longrightarrow> join sep ws \<noteq> []"
  by (cases ws) (auto simp: join_Cons split: if_splits elim: join.elims)

lemma walk_one_under:
  assumes "rooted parent" "rooted q" "path_comps q = path_comps parent @ cs" "cs \<noteq> []"
    and "\<forall>c \<in> set cs. plain c" and "walk_one parent (Visit q t) = Inr fs"
  shows "fs = [] \<or> fs = [\<lparr>file_name = join [slash] cs, file_path = q\<rparr>] \<and> (\<forall>c \<in> set cs. CHR 0x5C \<notin> set c)"
proof -
  have "split_on slash (join [slash] cs) = cs"
    using assms(4,5) by (intro split_on_join) (auto simp: plain_def)
  with assms(6) path_rel_under [OF assms(1-4)] show ?thesis
    by (auto simp: walk_one_def Let_def contains_any_def list_ex_iff split: tree.splits option.splits)
qed

text \<open>Where the entry is whose name is split: the parent of a cleaned path.\<close>

lemma path_dir_parent:
  assumes "\<forall>c \<in> set (cs @ [b]). plain c"
  shows "rooted (path_dir (render True (cs @ [b]))) \<and> path_comps (path_dir (render True (cs @ [b]))) = cs"
proof -
  have b: "slash \<notin> set b"
    using assms by (simp add: plain_def)
  have strip: "trim_right (\<lambda>c. c \<noteq> slash) (x @ slash # b) = x @ [slash]" for x
    using b by (simp add: trim_right_def dropWhile_append)
  obtain x where x: "render True (cs @ [b]) = x @ slash # b" "x @ [slash] = (if cs = [] then [slash] else slash # join [slash] cs @ [slash])"
  proof (cases "cs = []")
    case True
    with that [of "[]"] show ?thesis by (simp add: render_def)
  next
    case False
    then have "join [slash] (cs @ [b]) = join [slash] cs @ slash # b"
    proof (induction cs)
      case (Cons a cs)
      then show ?case by (cases "cs = []") (simp_all add: join_Cons)
    qed simp
    with False that [of "slash # join [slash] cs"] show ?thesis by (simp add: render_def)
  qed
  have r: "rooted (x @ [slash])"
    by (simp add: x(2) rooted_def)
  have "split_on slash (x @ [slash]) = (if cs = [] then [[], []] else [] # cs @ [[]])"
    using assms by (simp add: x(2) split_on_append_any split_on_join plain_def)
  then have "path_comps (x @ [slash]) = cs"
    using assms r by (simp add: path_comps_def clean_comps_append clean_comps_plain)
  moreover have "path_dir (render True (cs @ [b])) = render True (path_comps (x @ [slash]))"
    using r by (simp add: path_dir_def x(1) strip path_clean_def)
  ultimately show ?thesis
    using assms by (simp add: render_def path_comps_rooted) (simp add: rooted_def)
qed

text \<open>The files found, each below the parent by the components of its name.\<close>

definition file_under :: "string \<Rightarrow> source_file \<Rightarrow> bool" where
  "file_under parent f \<longleftrightarrow>
     path_comps (file_path f) = path_comps parent @ split_on slash (file_name f) \<and>
     (\<forall>c \<in> set (split_on slash (file_name f)). plain c \<and> CHR 0x5C \<notin> set c)"

lemma walk_all_under:
  assumes "rooted parent"
    and "\<forall>v \<in> set vs. \<exists>q t cs. v = Visit q t \<and> rooted q \<and> path_comps q = path_comps parent @ cs \<and>
           cs \<noteq> [] \<and> (\<forall>c \<in> set cs. plain c)"
    and "distinct (map comps_of vs)" and "walk_all parent vs = Inr fs"
  shows "(\<forall>f \<in> set fs. file_under parent f \<and> path_comps (file_path f) \<in> comps_of ` set vs) \<and>
    distinct (map file_name fs)"
  using assms(2-)
proof (induction vs arbitrary: fs)
  case (Cons v vs)
  from Cons.prems(1) obtain q t cs where v: "v = Visit q t" "rooted q" "path_comps q = path_comps parent @ cs"
    "cs \<noteq> []" "\<forall>c \<in> set cs. plain c"
    by auto
  from Cons.prems(3) obtain gs hs where gs: "walk_one parent v = Inr gs" "walk_all parent vs = Inr hs" "fs = gs @ hs"
    by (auto split: sum.splits)
  have IH: "(\<forall>f \<in> set hs. file_under parent f \<and> path_comps (file_path f) \<in> comps_of ` set vs) \<and>
    distinct (map file_name hs)"
    using Cons.prems gs by (intro Cons.IH) auto
  from walk_one_under [OF assms(1) v(2-5)] gs(1) v(1)
  consider "gs = []" | "gs = [\<lparr>file_name = join [slash] cs, file_path = q\<rparr>]" "\<forall>c \<in> set cs. CHR 0x5C \<notin> set c"
    by blast
  then show ?case
  proof cases
    case 2
    have s: "split_on slash (join [slash] cs) = cs"
      using v(4,5) by (intro split_on_join) (auto simp: plain_def)
    have "join [slash] cs \<notin> file_name ` set hs"
    proof
      assume "join [slash] cs \<in> file_name ` set hs"
      then obtain f where f: "f \<in> set hs" "file_name f = join [slash] cs" by auto
      with IH have "path_comps (file_path f) = path_comps parent @ split_on slash (join [slash] cs)"
        and in_vs: "path_comps (file_path f) \<in> comps_of ` set vs"
        unfolding file_under_def by metis+
      then have "path_comps (file_path f) = path_comps q"
        using s v(3) by simp
      with in_vs Cons.prems(2) v(1) show False by auto
    qed
    moreover have "file_under parent \<lparr>file_name = join [slash] cs, file_path = q\<rparr>"
      using s v 2(2) by (simp add: file_under_def)
    moreover have "\<forall>f \<in> set hs. file_under parent f \<and> path_comps (file_path f) \<in> comps_of ` set (v # vs)"
      using IH by simp
    ultimately show ?thesis
      using 2(1) IH gs(3) v(1) by simp
  qed (use IH gs(3) in auto)
qed simp

lemma walk_under:
  assumes "\<forall>c \<in> set (cs @ [b]). plain c" "plain_tree t"
    and "walk (render True (cs @ [b])) (walk_dir (render True (cs @ [b])) t) = Inr files"
  shows "(\<forall>f \<in> set files. path_comps (file_path f) = cs @ split_on slash (file_name f) \<and>
      (\<forall>c \<in> set (split_on slash (file_name f)). plain c \<and> CHR 0x5C \<notin> set c)) \<and>
    distinct (map file_name files) \<and> sorted (map file_name files)"
proof -
  let ?p = "render True (cs @ [b])"
  let ?d = "path_dir ?p"
  have d: "rooted ?d" "path_comps ?d = cs"
    using path_dir_parent [OF assms(1)] by auto
  have p: "rooted ?p" "path_comps ?p = cs @ [b]"
    using assms(1) path_comps_rooted [of "cs @ [b]"] by (simp_all add: render_def rooted_def)
  from assms(3) obtain fs where fs: "walk_all ?d (walk_dir ?p t) = Inr fs" "files = sort_key file_name fs"
    by (auto simp: walk_def split: sum.splits)
  have "\<forall>v \<in> set (walk_dir ?p t). \<exists>q t' cs'. v = Visit q t' \<and> rooted q \<and> path_comps q = path_comps ?d @ cs' \<and>
      cs' \<noteq> [] \<and> (\<forall>c \<in> set cs'. plain c)"
  proof
    fix v assume "v \<in> set (walk_dir ?p t)"
    from walk_dir_paths [OF assms(2) p(1) this] obtain q t' cs' where
      "v = Visit q t'" "rooted q" "path_comps q = path_comps ?d @ (b # cs')" "\<forall>c \<in> set cs'. plain c"
      using p d by auto
    with assms(1) show "\<exists>q t' cs'. v = Visit q t' \<and> rooted q \<and> path_comps q = path_comps ?d @ cs' \<and>
        cs' \<noteq> [] \<and> (\<forall>c \<in> set cs'. plain c)"
      by (intro exI [of _ q] exI [of _ t'] exI [of _ "b # cs'"]) auto
  qed
  from walk_all_under [OF d(1) this walk_dir_distinct [OF assms(2) p(1)] fs(1)]
  have fs': "\<forall>f \<in> set fs. file_under ?d f" "distinct (map file_name fs)"
    by auto
  have "distinct (map file_name files)"
    using fs'(2) fs(2) by (simp add: distinct_map)
  with fs fs' d show ?thesis
    by (auto simp: file_under_def)
qed

section \<open>Imports in any order\<close>

definition import_view :: "import_acc \<Rightarrow> entry list \<times> u64 \<times> bool" where
  "import_view acc = (imp_entries acc, imp_size acc, imp_err acc = None)"

lemma import_view_done:
  "import_view (import_done files i out acc) =
     ((imp_entries acc)[i := (file_name (files ! i), fst (snd out))],
      imp_size acc + word_of_nat (snd (snd out)), imp_err acc = None \<and> fst out = None)"
  by (cases out; cases "fst out"; cases "imp_err acc") (simp_all add: import_view_def import_done_def)

lemma imp_fields_done [simp]:
  "imp_entries (import_done files i out acc) = (imp_entries acc)[i := (file_name (files ! i), fst (snd out))]"
  "imp_size (import_done files i out acc) = imp_size acc + word_of_nat (snd (snd out))"
  "imp_err (import_done files i out acc) = None \<longleftrightarrow> imp_err acc = None \<and> fst out = None"
  using import_view_done [of files i out acc] by (simp_all add: import_view_def)

interpretation importing: workers "\<lambda>i. import_done files i (outs i)" import_view for files outs
  by unfold_locales (auto simp: import_view_def list_update_swap add_ac)

definition import_entry :: "source_file list \<Rightarrow> (nat \<Rightarrow> import_outcome) \<Rightarrow> nat \<Rightarrow> entry" where
  "import_entry files outs i = (file_name (files ! i), fst (snd (outs i)))"

lemma import_in_order:
  "n \<le> length files \<Longrightarrow>
     import_view (fold (\<lambda>i. import_done files i (outs i)) [0..<n] (import_start files)) =
       (map (import_entry files outs) [0..<n] @ replicate (length files - n) ([], []),
        (\<Sum>i\<leftarrow>[0..<n]. word_of_nat (snd (snd (outs i)))), \<forall>i<n. fst (outs i) = None)"
proof (induction n)
  case 0
  then show ?case by (simp add: import_view_def import_start_def)
next
  case (Suc n)
  let ?a = "fold (\<lambda>i. import_done files i (outs i)) [0..<n] (import_start files)"
  have "replicate (length files - n) ([], []) = ([], []) # replicate (length files - Suc n) (([], []) :: entry)"
    using Suc.prems by (metis Suc_diff_Suc Suc_le_lessD replicate_Suc)
  with Suc have "import_view ?a = (map (import_entry files outs) [0..<n] @ ([], []) # replicate (length files - Suc n) ([], []),
      (\<Sum>i\<leftarrow>[0..<n]. word_of_nat (snd (snd (outs i)))), \<forall>i<n. fst (outs i) = None)"
    by simp
  then show ?case
    by (auto simp: import_view_def import_entry_def list_update_append less_Suc_eq)
qed

text \<open>The error that is reported is one worker's own, with its file's name.\<close>

definition import_error :: "source_file list \<Rightarrow> (nat \<Rightarrow> import_outcome) \<Rightarrow> nat \<Rightarrow> gerr \<Rightarrow> bool" where
  "import_error files outs i e \<longleftrightarrow>
     (\<exists>e'. fst (outs i) = Some e' \<and> e = Wrapf (''error importing '' @ file_name (files ! i)) e')"

lemma import_err_from:
  "imp_err (fold (\<lambda>i. import_done files i (outs i)) is acc) = Some e \<Longrightarrow>
     imp_err acc = Some e \<or> (\<exists>i \<in> set is. import_error files outs i e)"
proof (induction "is" arbitrary: acc)
  case (Cons i "is")
  then have "imp_err (import_done files i (outs i) acc) = Some e \<or> (\<exists>i \<in> set is. import_error files outs i e)"
    by simp
  then show ?case
    by (cases "outs i"; cases "fst (outs i)"; cases "imp_err acc")
      (auto simp: import_done_def import_error_def)
qed simp

section \<open>What is left behind\<close>

lemmas endpoint_rules = owns_try owns_invoke owns_invoke_get owns_query owns_lift owns_cases
  owns_ret owns_fail

lemma owns_import_one: "owns opens_endpoint frees_endpoint {} (import_one W store f) (\<lambda>_. {})"
  unfolding import_one_def
  by (rule owns_catch [where own = "\<lambda>_. {}"] owns_invoke_get owns_ret | simp)+

lemma dirs_import_one: "owns opens_dir frees_dir {} (import_one W store f) (\<lambda>_. {})"
  unfolding import_one_def
  by (rule owns_catch [where own = "\<lambda>_. {}"] owns_invoke_get owns_ret | simp)+

lemma owns_import_files: "owns opens_endpoint frees_endpoint {} (import_files W L sched store files) (\<lambda>_. {})"
proof -
  have all: "owns opens_endpoint frees_endpoint {} (import_all W store files is acc) (\<lambda>_. {})" for "is" acc
    by (induction "is" arbitrary: acc) (auto intro!: owns_ret owns_try [OF owns_import_one])
  show ?thesis
    unfolding import_files_def by (rule owns_try [OF all] | rule endpoint_rules | simp)+
qed

lemma dirs_import_files: "owns opens_dir frees_dir {} (import_files W L sched store files) (\<lambda>_. {})"
proof -
  have all: "owns opens_dir frees_dir {} (import_all W store files is acc) (\<lambda>_. {})" for "is" acc
    by (induction "is" arbitrary: acc) (auto intro!: owns_ret owns_try [OF dirs_import_one])
  show ?thesis
    unfolding import_files_def by (rule owns_try [OF all] | rule endpoint_rules | simp)+
qed

text \<open>The announcement asks and prints, and cannot fail.\<close>

lemma succeeds_announce: "succeeds (announce W L N path opt files root amount ep)"
  unfolding announce_def ticket_addr_def direct_addrs_def by (rule succeeds_rules)+

lemmas quiet_rules = quiet_then owns_println owns_println_all owns_eprintln

lemma owns_announce:
  "owns opens_endpoint frees_endpoint {} (announce W L N path opt files root amount ep) (\<lambda>_. {})"
  unfolding announce_def ticket_addr_def direct_addrs_def
  by (rule quiet_rules owns_quiet_try owns_quiet_catch endpoint_rules | simp)+

lemma dirs_announce:
  "owns opens_dir frees_dir {} (announce W L N path opt files root amount ep) (\<lambda>_. {})"
  unfolding announce_def ticket_addr_def direct_addrs_def
  by (rule quiet_rules owns_quiet_try owns_quiet_catch endpoint_rules | simp)+

lemma owns_publisher: "owns opens_endpoint frees_endpoint {} (publisher_opts W opt) (\<lambda>_. {})"
  unfolding publisher_opts_def by (rule endpoint_rules | simp)+

text \<open>A sender that is started owns its endpoint; one that is not started leaves none open.\<close>

lemma owns_start_send: "owns opens_endpoint frees_endpoint {} (start_send W L N sched path dir opt) (\<lambda>s. {snd_ep s})"
  unfolding start_send_def remove_store_def
  by (simp only: sum.case Un_empty_left | rule owns_try_safe [OF succeeds_no_error [OF succeeds_announce] owns_announce]
      owns_catch [OF owns_import_files] owns_catch [OF owns_sendme_bind] owns_catch [OF owns_invoke]
      owns_try [OF owns_publisher] quiet_rules endpoint_rules | simp)+

lemma drops_remove: "drops opens_dir frees_dir {Named dir} (remove_store W dir)"
  unfolding remove_store_def by (rule drops_mono [OF drops_invoke]) simp_all

text \<open>The same for the store directory, unless the ticket is to hold an ID only.\<close>

lemma dirs_start_send:
  assumes "opt_ticket_type opt \<noteq> IdOnly"
  shows "owns opens_dir frees_dir {} (start_send W L N sched path dir opt) (\<lambda>s. {Named (snd_store_dir s)})"
proof -
  have pub: "publisher_opts W opt = go_ret []"
    using assms by (simp add: publisher_opts_def)
  show ?thesis
    unfolding start_send_def pub go_try_ret
    by (simp only: sum.case Un_empty_left
      | rule owns_try_safe [OF succeeds_no_error [OF succeeds_announce] dirs_announce]
      owns_catch [OF dirs_import_files] owns_catch [OF dirs_sendme_bind] owns_catch [OF owns_invoke]
      owns_then [OF drops_remove] owns_try [OF owns_invoke_open] endpoint_rules | (simp; fail))+
qed

lemma owns_serve: "owns opens_endpoint frees_endpoint {} (serve W fuel ep store) (\<lambda>_. {})"
  unfolding serve_def serve_conn_def serve_stream_def
  by (rule owns_loop owns_catch [where own = "\<lambda>_. {}"] owns_defer [where F = "{}"] quiet_rules
      endpoint_rules | simp)+

lemma dirs_serve: "owns opens_dir frees_dir {} (serve W fuel ep store) (\<lambda>_. {})"
  unfolding serve_def serve_conn_def serve_stream_def
  by (rule owns_loop owns_catch [where own = "\<lambda>_. {}"] owns_defer [where F = "{}"] quiet_rules
      endpoint_rules | simp)+

lemma owns_close_sender: "owns opens_endpoint frees_endpoint {snd_ep s} (close_sender W fuel s) (\<lambda>_. {})"
proof -
  have remove: "owns opens_endpoint frees_endpoint {} (remove_store W d) (\<lambda>_. {})" for d
    unfolding remove_store_def by (rule owns_invoke) simp
  show ?thesis
    unfolding close_sender_def
    by (rule owns_catch_drops [OF drops_shutdown] owns_catch [OF remove] owns_serve quiet_then
        endpoint_rules | simp)+
qed

lemma dirs_close_sender: "owns opens_dir frees_dir {Named (snd_store_dir s)} (close_sender W fuel s) (\<lambda>_. {})"
proof -
  have down: "owns opens_dir frees_dir {} (shutdown W n) (\<lambda>_. {})" for n
    unfolding shutdown_def by (rule owns_invoke) simp
  show ?thesis
    unfolding close_sender_def
    by (rule owns_catch [OF down] owns_catch_drops [OF drops_remove] dirs_serve quiet_then
        endpoint_rules | simp)+
qed

section \<open>Properties\<close>

text \<open>C4. What the sender lists, any receiver can write, and nothing else: for a tree whose names
  the file system allows, the files \<^verbatim>\<open>walk\<close> returns have pairwise different names in sorted
  order, each name is the file's path relative to the parent of what was sent, and
  \<^verbatim>\<open>exportPath\<close> accepts it and puts it at that relative path under the receiver's directory,
  no two files at one place.\<close>

theorem sent_names_can_be_exported:
  assumes "\<forall>c \<in> set (parent @ [base]). plain c" and "plain_tree t" and "rooted dst"
    and "walk (render True (parent @ [base])) (walk_dir (render True (parent @ [base])) t) = Inr files"
  shows "sorted (map file_name files) \<and> distinct (map file_name files) \<and>
    (\<forall>f \<in> set files. \<exists>q rel. path_comps (file_path f) = parent @ rel \<and>
       export_path dst (file_name f) = Inr q \<and> rooted q \<and> path_comps q = path_comps dst @ rel) \<and>
    distinct (map (\<lambda>f. export_path dst (file_name f)) files)"
proof -
  note under = walk_under [OF assms(1,2,4)]
  have export: "export_path dst (file_name f) = Inr (path_join (dst # split_on slash (file_name f)))"
    if "f \<in> set files" for f
    using under that by (auto simp: export_path_def Let_def list_ex_iff bad_component_def plain_def)
  have "inj_on (\<lambda>f. export_path dst (file_name f)) (set files)"
  proof (rule inj_onI)
    fix f g assume "f \<in> set files" "g \<in> set files" "export_path dst (file_name f) = export_path dst (file_name g)"
    with export have "file_name f = file_name g"
      using export_path_inj [OF assms(3)] by metis
    with under \<open>f \<in> set files\<close> \<open>g \<in> set files\<close> show "f = g"
      by (auto simp: distinct_map dest: inj_onD)
  qed
  with under have "distinct (map (\<lambda>f. export_path dst (file_name f)) files)"
    by (simp add: distinct_map)
  moreover have "\<exists>q rel. path_comps (file_path f) = parent @ rel \<and>
       export_path dst (file_name f) = Inr q \<and> rooted q \<and> path_comps q = path_comps dst @ rel" if "f \<in> set files" for f
    using export [OF that] under that export_path_comps [OF assms(3) export [OF that]] by blast
  ultimately show ?thesis
    using under by blast
qed

definition demo_tree :: tree where
  "demo_tree = Directory [(''a.txt'', Regular []), (''trip'', Directory [(''b.txt'', Regular [])])]"

lemma walk_demo:
  "walk (render True ([''w''] @ [''photos''])) (walk_dir (render True ([''w''] @ [''photos''])) demo_tree) =
     Inr [\<lparr>file_name = ''photos/a.txt'', file_path = ''/w/photos/a.txt''\<rparr>,
          \<lparr>file_name = ''photos/trip/b.txt'', file_path = ''/w/photos/trip/b.txt''\<rparr>]"
  by code_simp

theorem sent_names_can_be_exported_witness:
  "\<exists>q. export_path ''/dst'' ''photos/trip/b.txt'' = Inr q \<and> path_comps q = [''dst'', ''photos'', ''trip'', ''b.txt'']"
proof -
  have ok: "\<forall>c \<in> set ([''w''] @ [''photos'']). plain c" "plain_tree demo_tree" "rooted ''/dst''"
    "path_comps ''/dst'' = [''dst'']" "path_comps ''/w/photos/trip/b.txt'' = [''w'', ''photos'', ''trip'', ''b.txt'']"
    by code_simp+
  from sent_names_can_be_exported [OF ok(1-3) walk_demo] ok(4,5) show ?thesis
    by auto
qed

text \<open>C5. The import does not depend on the scheduler: in whatever order the workers start and
  finish, when all have finished an error is reported exactly if some file failed, it is
  that file's own with its name, and otherwise the collection lists every file in the
  order of the names with its hash and the size is the sum of theirs.\<close>

theorem import_any_schedule:
  assumes "pool_steps jobs (\<lambda>i. import_done files i (outs i)) (new_pool (length files) (import_start files)) q"
    and "pool_done q"
  shows "(imp_err (pool_acc q) = None \<longleftrightarrow> (\<forall>i < length files. fst (outs i) = None)) \<and>
    (\<forall>e. imp_err (pool_acc q) = Some e \<longrightarrow> (\<exists>i < length files. import_error files outs i e)) \<and>
    imp_entries (pool_acc q) = map (import_entry files outs) [0..<length files] \<and>
    imp_size (pool_acc q) = (\<Sum>i\<leftarrow>[0..<length files]. word_of_nat (snd (snd (outs i))))"
proof -
  have inv: "pool_inv jobs (length files) (\<lambda>i. import_done files i (outs i)) (import_start files) q"
    by (rule pool_reach) (rule assms(1))
  have "imp_err (pool_acc q) = Some e \<Longrightarrow> \<exists>i < length files. import_error files outs i e" for e
  proof -
    assume "imp_err (pool_acc q) = Some e"
    moreover have "pool_acc q = fold (\<lambda>i. import_done files i (outs i)) (pool_order q) (import_start files)"
      using inv by (simp add: pool_inv_def)
    ultimately have "\<exists>i \<in> set (pool_order q). import_error files outs i e"
      using import_err_from [of files outs "pool_order q" "import_start files" e]
      by (simp add: import_start_def)
    moreover have "set (pool_order q) \<subseteq> {i. i < length files}"
      using inv by (auto simp: pool_inv_def)
    ultimately show ?thesis by blast
  qed
  with importing.pool_view [OF assms] show ?thesis
    by (simp add: import_in_order) (simp add: import_view_def)
qed

text \<open>C6. The semaphore holds and the pool ends: in every state that can be reached at most
  \<open>jobs\<close> workers run; as long as one has not finished some worker can go on; and every step
  uses up one of the two steps each worker has.\<close>

theorem pool_runs_to_its_end:
  assumes "pool_steps jobs finish (new_pool n acc) p" and "1 \<le> jobs"
  shows "running (pool_workers p) \<le> jobs \<and>
    (\<not> pool_done p \<longrightarrow> (\<exists>q. pool_step jobs finish p q)) \<and>
    (\<forall>q. pool_step jobs finish p q \<longrightarrow> pool_left q < pool_left p)"
proof -
  note inv = pool_reach [OF assms(1)]
  then have "running (pool_workers p) \<le> jobs"
    unfolding pool_inv_def by blast
  moreover have "pool_step jobs finish p q \<Longrightarrow> pool_left q < pool_left p" for q
    by (simp add: pool_left_step)
  ultimately show ?thesis
    using pool_progress [OF inv assms(2)] by blast
qed

lemma one_worker:
  "pool_steps 1 finish (new_pool 1 a) \<lparr>pool_workers = [Finished], pool_acc = finish 0 a, pool_order = [0]\<rparr>"
proof -
  let ?p = "\<lparr>pool_workers = [Running], pool_acc = a, pool_order = []\<rparr>"
  have "pool_step 1 finish (new_pool 1 a) ?p"
    using start_worker [of 0 "new_pool 1 a" 1 finish] by (simp add: new_pool_def running_def)
  moreover have "pool_step 1 finish ?p \<lparr>pool_workers = [Finished], pool_acc = finish 0 a, pool_order = [0]\<rparr>"
    using finish_worker [of 0 ?p 1 finish] by simp
  ultimately show ?thesis
    unfolding pool_steps_def by (meson r_into_rtranclp rtranclp_trans)
qed

theorem pool_runs_to_its_end_witness:
  "\<exists>q. pool_step 1 (\<lambda>i n. n + i) (new_pool 3 (0::nat)) q"
proof -
  have "pool_steps 1 (\<lambda>i n. n + i) (new_pool 3 0) (new_pool 3 (0::nat))"
    by (simp add: pool_steps_def)
  from pool_runs_to_its_end [OF this] show ?thesis
    by (simp add: pool_done_def new_pool_def numeral_3_eq_3)
qed

theorem import_any_schedule_witness:
  "\<exists>q. pool_steps 1 (\<lambda>i. import_done [\<lparr>file_name = ''a'', file_path = ''/a''\<rparr>] i (None, ''h'', 5))
       (new_pool 1 (import_start [\<lparr>file_name = ''a'', file_path = ''/a''\<rparr>])) q \<and>
     imp_entries (pool_acc q) = [(''a'', ''h'')] \<and> imp_size (pool_acc q) = 5"
proof -
  let ?files = "[\<lparr>file_name = ''a'', file_path = ''/a''\<rparr>]"
  let ?f = "\<lambda>i. import_done ?files i (None, ''h'', 5)"
  let ?q = "\<lparr>pool_workers = [Finished], pool_acc = ?f 0 (import_start ?files), pool_order = [0]\<rparr>"
  have run: "pool_steps 1 ?f (new_pool 1 (import_start ?files)) ?q"
    by (rule one_worker)
  then have "pool_steps 1 ?f (new_pool (length ?files) (import_start ?files)) ?q" "pool_done ?q"
    by (simp_all add: pool_done_def)
  from import_any_schedule [OF this] have "imp_entries (pool_acc ?q) = [(''a'', ''h'')]" "imp_size (pool_acc ?q) = 5"
    by (simp_all add: import_entry_def)
  with run show ?thesis by blast
qed


definition demo_options :: options where
  "demo_options = \<lparr>opt_relay = ''disabled'', opt_ipv4 = [], opt_ipv6 = loopback, opt_format = ''hex'', opt_jobs = 4,
     opt_show_secret = False, opt_verbose = False, opt_ticket_type = RelayAndAddresses, opt_secret = ''k''\<rparr>"


text \<open>With \<^verbatim>\<open>-ticket-type id\<close> the store is left behind: when the publisher cannot be made,
  \<^verbatim>\<open>startSend\<close> returns its error without the \<^verbatim>\<open>os.RemoveAll\<close> of the paths around it.\<close>

lemma id_only_send_leaves_store:
  "\<exists>W L e. fst (start_send W L N (\<lambda>n. [0..<n]) path dir (opt\<lparr>opt_ticket_type := IdOnly\<rparr>) []) = Inl e \<and>
     Named dir \<in> dirs_left (snd (start_send W L N (\<lambda>n. [0..<n]) path dir (opt\<lparr>opt_ticket_type := IdOnly\<rparr>) []))"
proof -
  let ?fails = "\<lambda>(h :: io_hist) c. case c of Os (Stat p) \<Rightarrow> Some ErrNotExist
      | Blob (Publisher k) \<Rightarrow> Some (Err ''invalid key'') | _ \<Rightarrow> None"
  let ?W = "\<lparr>fails = ?fails, got_bytes = \<lambda>_ _. [], got_text = \<lambda>_ _. [], got_texts = \<lambda>_ _. [], got_nat = \<lambda>_ _. 0, got_flag = \<lambda>_ _. False\<rparr>"
  let ?L = "\<lparr>parse_ticket = \<lambda>_. Inl ErrEOF, ticket_text = \<lambda>_. [], parse_seq = \<lambda>_. Inr [], collection_seq = \<lambda>_. [],
      collection_meta = \<lambda>_. [], parse_collection = \<lambda>_ _. Inr [], walk_of = \<lambda>_ _. []\<rparr>"
  show ?thesis
    by (rule exI [of _ ?W], rule exI [of _ ?L])
      (simp add: start_send_def go_simps walk_def import_files_def import_start_def publisher_opts_def dirs_left_def)
qed

end
