(* ===== verification/SendmeReceive.thy ===== *)
theory SendmeReceive
  imports SendmeSend
begin

text \<open>
  \<^verbatim>\<open>cmd/go-iroh-sendme/main.go\<close>, the receiving side and the command line: \<^verbatim>\<open>fetch\<close>,
  \<^verbatim>\<open>fetchSmall\<close>, \<^verbatim>\<open>download\<close>, \<^verbatim>\<open>receive\<close>, \<^verbatim>\<open>run\<close>, \<^verbatim>\<open>main\<close> and the demo. The properties are
  about what an untrusted sender can make the receiver do: where it writes, what it
  overwrites, how much it keeps in memory.
\<close>

section \<open>Fetching\<close>

text \<open>
  \<^verbatim>\<open>blobs.DownloadBlob\<close> writes the pieces it has verified and returns the writer's error or
  its own; the pieces are the world's, a writer is a program over its own state.
\<close>

fun deliver :: "('w \<Rightarrow> bytes \<Rightarrow> 'w io) \<Rightarrow> 'w \<Rightarrow> bytes list \<Rightarrow> 'w io" where
  "deliver wr w [] = go_ret w"
| "deliver wr w (c # cs) = go_try (wr w c) (\<lambda>w'. deliver wr w' cs)"

definition fetch :: "call world \<Rightarrow> nat \<Rightarrow> string \<Rightarrow> ('w \<Rightarrow> bytes \<Rightarrow> 'w io) \<Rightarrow> 'w \<Rightarrow> 'w io" where
  "fetch W conn h wr w =
     go_try (invoke W (Net (OpenStream conn))) (\<lambda>s.
     go_defer (invoke W (Net (CloseStream s)))
       (go_try (query W (\<lambda>W h c. map bytes_of (got_texts W h c)) (Blob (BlobChunks s h))) (\<lambda>cs.
        go_try (deliver wr w cs) (\<lambda>w'.
        go_try (invoke W (Blob (GetBlob s h))) (\<lambda>_.
        go_ret w')))))"

definition fetch_small :: "call world \<Rightarrow> nat \<Rightarrow> string \<Rightarrow> bytes io" where
  "fetch_small W conn h =
     go_try (fetch W conn h (\<lambda>l p. go_lift (limit_write l p)) \<lparr>lim_n = max_meta_size, lim_buf = []\<rparr>) (\<lambda>l.
     go_ret (lim_buf l))"

text \<open>The file's offset after the fetch is what counts as downloaded, error or not.\<close>

definition download_file :: "call world \<Rightarrow> nat \<Rightarrow> string \<Rightarrow> string \<Rightarrow> (gerr option \<times> nat) io" where
  "download_file W conn h path =
     go_catch (invoke W (Os (Create path))) (\<lambda>r.
     case r of
       Inl e \<Rightarrow> go_ret (Some e, 0)
     | Inr f \<Rightarrow>
       go_catch (fetch W conn h (\<lambda>u p. go_try (invoke W (Os (WriteTo f p))) (\<lambda>_. go_ret u)) ()) (\<lambda>r1.
       go_try (query W got_nat (Os (SeekCurrent f))) (\<lambda>n.
       go_catch (invoke W (Os (CloseFile f))) (\<lambda>r2.
       go_ret (case r1 of
                 Inl e \<Rightarrow> Some e
               | Inr _ \<Rightarrow> (case r2 of Inl e \<Rightarrow> Some e | Inr _ \<Rightarrow> None), n)))))"

record download_acc =
  dl_size :: u64
  dl_err :: "gerr option"

definition download_done :: "entry list \<Rightarrow> nat \<Rightarrow> gerr option \<times> nat \<Rightarrow> download_acc \<Rightarrow> download_acc" where
  "download_done entries i out acc =
     acc\<lparr>dl_size := dl_size acc + word_of_nat (snd out),
         dl_err := (case (fst out, dl_err acc) of
             (Some e, None) \<Rightarrow> Some (Wrapf (''download '' @ fst (entries ! i)) e)
           | _ \<Rightarrow> dl_err acc)\<rparr>"

text \<open>The workers in the order in which they finish; the first error cancels the context.\<close>

fun download_all :: "call world \<Rightarrow> nat \<Rightarrow> entry list \<Rightarrow> string \<Rightarrow> nat list \<Rightarrow> download_acc \<Rightarrow> download_acc io" where
  "download_all W conn entries dir [] acc = go_ret acc"
| "download_all W conn entries dir (i # is) acc =
     go_try (download_file W conn (snd (entries ! i)) (path_join [dir, digits_of i])) (\<lambda>out.
     go_then (if fst out \<noteq> None \<and> dl_err acc = None then query W got_nat (Os Cancel) else go_ret 0)
     (download_all W conn entries dir is (download_done entries i out acc)))"

definition download :: "call world \<Rightarrow> (nat \<Rightarrow> nat list) \<Rightarrow> nat \<Rightarrow> entry list \<Rightarrow> string \<Rightarrow> u64 io" where
  "download W sched conn entries dir =
     go_try (download_all W conn entries dir (sched (length entries)) \<lparr>dl_size = 0, dl_err = None\<rparr>) (\<lambda>acc.
     case dl_err acc of Some e \<Rightarrow> go_fail e | None \<Rightarrow> go_ret (dl_size acc))"

section \<open>Receiving\<close>

definition exists_already :: "string \<Rightarrow> gerr" where
  "exists_already t = Err (''target '' @ t @ '' already exists'')"

text \<open>Every name is checked, and every target found absent, before anything is written.\<close>

fun check_targets :: "call world \<Rightarrow> string \<Rightarrow> entry list \<Rightarrow> string list io" where
  "check_targets W dst [] = go_ret []"
| "check_targets W dst (e # es) =
     go_try (go_lift (export_path dst (fst e))) (\<lambda>t.
     go_catch (invoke W (Os (Lstat t))) (\<lambda>r.
     case r of
       Inr _ \<Rightarrow> go_fail (exists_already t)
     | Inl _ \<Rightarrow> go_try (check_targets W dst es) (\<lambda>ts. go_ret (t # ts))))"

definition export_one :: "call world \<Rightarrow> options \<Rightarrow> string \<Rightarrow> nat \<Rightarrow> entry \<Rightarrow> string \<Rightarrow> unit io" where
  "export_one W opt tmp i e t =
     go_then (if opt_verbose opt then println (''    '' @ snd e @ '' '' @ fst e) else go_ret ())
     (go_catch (invoke W (Os (Lstat t))) (\<lambda>r.
      case r of
        Inr _ \<Rightarrow> go_fail (exists_already t)
      | Inl _ \<Rightarrow>
        go_try (invoke W (Os (MkdirAll (path_dir t)))) (\<lambda>_.
        go_try (invoke W (Os (Rename (path_join [tmp, digits_of i]) t))) (\<lambda>_.
        go_ret ()))))"

fun export_all :: "call world \<Rightarrow> options \<Rightarrow> string \<Rightarrow> nat \<Rightarrow> (entry \<times> string) list \<Rightarrow> unit io" where
  "export_all W opt tmp i [] = go_ret ()"
| "export_all W opt tmp i ((e, t) # ets) =
     go_try (export_one W opt tmp i e t) (\<lambda>_. export_all W opt tmp (Suc i) ets)"

text \<open>\<^verbatim>\<open>receive\<close> from the point where the collection is known.\<close>

definition receive_entries ::
  "call world \<Rightarrow> (nat \<Rightarrow> nat list) \<Rightarrow> (string \<Rightarrow> unit io) \<Rightarrow> nat \<Rightarrow> string \<Rightarrow> entry list \<Rightarrow> string \<Rightarrow> options \<Rightarrow> unit io" where
  "receive_entries W sched log conn root entries dst opt =
     go_try (check_targets W dst entries) (\<lambda>targets.
     go_then (log (''getting collection '' @ root @ '' '' @ digits_of (length entries) @ '' files''))
     (let tmp = path_join [dst, ''.sendme-recv-'' @ root] in
      go_try (invoke W (Os (MkdirAll tmp))) (\<lambda>_.
      go_defer (invoke W (Os (RemoveAll tmp)))
        (go_try (download W sched conn entries tmp) (\<lambda>amount.
         go_then (case entries of
             [] \<Rightarrow> go_ret ()
           | e # _ \<Rightarrow> println (''exporting to '' @ hd (split_on slash (fst e))))
         (go_try (export_all W opt tmp 0 (zip entries targets)) (\<lambda>_.
          if opt_verbose opt then
            go_try (query W got_text (Os Elapsed)) (\<lambda>took.
            go_try (query W got_nat (Os Elapsed)) (\<lambda>rate.
            println (''downloaded '' @ digits_of (length entries) @ '' files, '' @ human_bytes (sint amount) @
              ''. took '' @ took @ '' ('' @ human_bytes (int rate) @ ''/s)'')))
          else go_ret ())))))))"

text \<open>The collection's root, its name list, and what they say.\<close>

definition fetch_collection :: "call world \<Rightarrow> blob_lib \<Rightarrow> nat \<Rightarrow> string \<Rightarrow> entry list io" where
  "fetch_collection W L conn root =
     go_try (go_wrap ''fetch collection root'' (fetch_small W conn root)) (\<lambda>b.
     go_try (go_lift (parse_seq L b)) (\<lambda>hs.
     case hs of
       [] \<Rightarrow> go_fail (Err ''empty collection'')
     | m # _ \<Rightarrow>
       go_try (go_wrap ''fetch collection names'' (fetch_small W conn m)) (\<lambda>names.
       go_lift (parse_collection L hs names))))"

definition receive ::
  "call world \<Rightarrow> blob_lib \<Rightarrow> (nat \<Rightarrow> nat list) \<Rightarrow> (string \<Rightarrow> unit io) \<Rightarrow> string \<Rightarrow> string \<Rightarrow> options \<Rightarrow> unit io" where
  "receive W L sched log ticket dst opt =
     go_try (go_wrap ''parse ticket'' (go_lift (parse_ticket L ticket))) (\<lambda>t.
     if \<not> tk_hash_seq t then go_fail (Err ''ticket names a raw blob, not a collection'')
     else
     go_try (query W got_texts (Net (IPAddrs (tk_addr t)))) (\<lambda>ips.
     go_try (query W got_texts (Net (RelayURLs (tk_addr t)))) (\<lambda>urls.
     go_try (sendme_bind W opt (if ips = [] \<and> urls = [] then [WithAddressLookup ''n0 dns''] else [])) (\<lambda>ep.
     go_defer (shutdown W ep)
       (go_then (if ips = [] \<and> opt_relay opt \<noteq> ''disabled'' then invoke W (Net (Online ep)) else go_ret 0)
       (go_try (query W got_text (Net (ShortID (tk_addr t)))) (\<lambda>short.
        go_try (go_wrap (''connect to '' @ short) (invoke W (Net (Connect ep (tk_addr t) blobs_alpn)))) (\<lambda>conn.
        go_defer (invoke W (Net (CloseConn conn 0 [])))
          (go_try (fetch_collection W L conn (tk_hash t)) (\<lambda>entries.
           receive_entries W sched log conn (tk_hash t) entries dst opt))))))))))"

section \<open>The command line\<close>

definition sendme_flags :: flag_set where
  "sendme_flags =
     [(''relay'', FString), (''magic-ipv4-addr'', FString), (''magic-ipv6-addr'', FString),
      (''format'', FString), (''jobs'', FInt), (''show-secret'', FBool), (''v'', FBool),
      (''no-progress'', FBool), (''ticket-type'', FString)]"

text \<open>The fields before the secret is read; \<open>ncpu\<close> is \<^verbatim>\<open>runtime.NumCPU()\<close>.\<close>

definition options_of :: "int \<Rightarrow> flag_values \<Rightarrow> options" where
  "options_of ncpu vals =
     \<lparr>opt_relay = flag_value vals ''relay'' ''default'',
      opt_ipv4 = flag_value vals ''magic-ipv4-addr'' [],
      opt_ipv6 = flag_value vals ''magic-ipv6-addr'' [],
      opt_format = flag_value vals ''format'' ''hex'',
      opt_jobs = flag_int vals ''jobs'' ncpu,
      opt_show_secret = flag_bool vals ''show-secret'',
      opt_verbose = flag_bool vals ''v'',
      opt_ticket_type = RelayAndAddresses,
      opt_secret = []\<rparr>"

definition send_command ::
  "call world \<Rightarrow> blob_lib \<Rightarrow> net_view \<Rightarrow> (nat \<Rightarrow> nat list) \<Rightarrow> nat \<Rightarrow> flag_values \<Rightarrow> string \<Rightarrow> options \<Rightarrow> unit io" where
  "send_command W L N sched fuel vals arg opt =
     go_try (go_lift (parse_ticket_type (flag_value vals ''ticket-type'' ''relay-and-addresses''))) (\<lambda>tt.
     go_try (invoke_get W got_text (Os Getwd)) (\<lambda>cwd.
     go_try (invoke_get W got_text (Os (AbsPath arg))) (\<lambda>path.
     if path = cwd then go_fail (Err ''can not share from the current directory'')
     else
     go_try (query W got_bytes (Os (RandomBytes 16))) (\<lambda>suffix.
     go_try (start_send W L N sched path (path_join [cwd, ''.sendme-send-'' @ hex_encode suffix])
               (opt\<lparr>opt_ticket_type := tt\<rparr>)) (\<lambda>s.
     go_catch (go_then (query W got_nat (Os WaitDone)) (println ''shutting down'')) (\<lambda>_.
     close_sender W fuel s))))))"

definition sendme_command ::
  "call world \<Rightarrow> blob_lib \<Rightarrow> net_view \<Rightarrow> (nat \<Rightarrow> nat list) \<Rightarrow> nat \<Rightarrow> int \<Rightarrow> bool \<Rightarrow> string list \<Rightarrow> unit io" where
  "sendme_command W L N sched fuel ncpu sending args =
     (case parse_args sendme_flags [] [] args of
        Inl e \<Rightarrow> if err_is ErrHelp e then go_fail e else usage
      | Inr (pos, vals) \<Rightarrow>
        (let opt = options_of ncpu vals in
         if length pos \<noteq> 1 \<or> opt_format opt \<noteq> ''hex'' \<and> opt_format opt \<noteq> ''cid'' \<or> opt_jobs opt < 1
         then usage
         else
           go_try (secret_key W (opt_show_secret opt \<or> opt_verbose opt)) (\<lambda>sk.
           go_try (query W got_nat (Os NotifyContext)) (\<lambda>_.
           if sending then send_command W L N sched fuel vals (hd pos) (opt\<lparr>opt_secret := sk\<rparr>)
           else
             go_try (invoke_get W got_text (Os Getwd)) (\<lambda>cwd.
             receive W L sched eprintln (hd pos) cwd (opt\<lparr>opt_secret := sk\<rparr>))))))"

section \<open>The demo\<close>

definition demo_files :: "(string \<times> string) list" where
  "demo_files =
     [(''a.txt'', ''the first file'' @ [CHR 0x0A]),
      (''trip/b.txt'', ''a file in a subdirectory'' @ [CHR 0x0A]),
      (''trip/c/d.txt'', ''and one further down'' @ [CHR 0x0A])]"

definition write_demo_file :: "call world \<Rightarrow> string \<Rightarrow> string \<times> string \<Rightarrow> unit io" where
  "write_demo_file W src nb =
     (let p = path_join [src, fst nb] in
      go_try (invoke W (Os (MkdirAll (path_dir p)))) (\<lambda>_.
      go_try (invoke W (Os (WriteFile p (bytes_of (snd nb))))) (\<lambda>_.
      go_ret ())))"

definition show_received :: "call world \<Rightarrow> string \<Rightarrow> visit \<Rightarrow> unit io" where
  "show_received W dst v =
     (case v of
        VisitErr p e \<Rightarrow> go_fail e
      | Visit p t \<Rightarrow>
        (case t of
           Directory es \<Rightarrow> go_ret ()
         | _ \<Rightarrow>
           go_try (invoke_get W got_bytes (Os (ReadFile p))) (\<lambda>b.
           println (''received '' @ (case path_rel dst p of Inl e \<Rightarrow> [] | Inr r \<Rightarrow> r) @ '': '' @ quote (text_of b)))))"

definition demo_opt :: "string \<Rightarrow> options" where
  "demo_opt sk =
     \<lparr>opt_relay = ''disabled'', opt_ipv4 = [], opt_ipv6 = loopback, opt_format = [], opt_jobs = 4,
      opt_show_secret = False, opt_verbose = False, opt_ticket_type = RelayAndAddresses, opt_secret = sk\<rparr>"

text \<open>\<open>order\<close> is the order in which \<^verbatim>\<open>range\<close> goes through the map of files.\<close>

definition sendme_demo ::
  "call world \<Rightarrow> blob_lib \<Rightarrow> net_view \<Rightarrow> (nat \<Rightarrow> nat list) \<Rightarrow> nat list \<Rightarrow> nat \<Rightarrow> unit io" where
  "sendme_demo W L N sched order fuel =
     go_try (invoke W (Os (MkdirTemp ''go-iroh-sendme-''))) (\<lambda>w.
     go_defer (invoke W (Os (RemoveTemp w)))
       (go_try (query W got_text (Os (TempPath w))) (\<lambda>work.
        go_try (go_each (\<lambda>i. write_demo_file W (path_join [work, ''src'', ''photos'']) (demo_files ! i)) order) (\<lambda>_.
        go_try (invoke_get W got_text (Os GenerateKey)) (\<lambda>sk.
        go_try (start_send W L N sched (path_join [work, ''src'', ''photos''])
                  (path_join [work, ''.sendme-send'']) (demo_opt sk)) (\<lambda>s.
        go_defer (close_sender W fuel s)
          (let dst = path_join [work, ''dst''] in
           go_try (invoke W (Os (Mkdir dst))) (\<lambda>_.
           go_try (invoke_get W got_text (Os GenerateKey)) (\<lambda>sk2.
           go_try (receive W L sched println (ticket_text L (snd_ticket s)) dst (demo_opt sk2)) (\<lambda>_.
           go_try (query W (\<lambda>_ h _. walk_of L h dst) (Os (WalkDir dst))) (\<lambda>vs.
           go_each (show_received W dst) vs)))))))))))"

definition sendme_run ::
  "call world \<Rightarrow> blob_lib \<Rightarrow> net_view \<Rightarrow> (nat \<Rightarrow> nat list) \<Rightarrow> nat list \<Rightarrow> nat \<Rightarrow> int \<Rightarrow> string list \<Rightarrow> unit io" where
  "sendme_run W L N sched order fuel ncpu args =
     (case args of
        [] \<Rightarrow> sendme_demo W L N sched order fuel
      | a # rest \<Rightarrow>
        if a \<in> set [''-h'', ''-help'', ''--help''] then go_fail ErrHelp
        else if a = ''send'' then sendme_command W L N sched fuel ncpu True rest
        else if a \<in> set [''receive'', ''recv''] then sendme_command W L N sched fuel ncpu False rest
        else usage)"

text \<open>\<^verbatim>\<open>main\<close>: the exit code, with the help text or the error printed.\<close>

definition sendme_main :: "unit io \<Rightarrow> io_hist \<Rightarrow> nat \<times> io_hist" where
  "sendme_main m h =
     (case m h of
        (Inr _, h') \<Rightarrow> (0, h')
      | (Inl e, h') \<Rightarrow>
        if err_is ErrHelp e then (0, snd (println_all usage_lines h'))
        else if err_is ErrUsage e then (1, h')
        else (1, ErrOut (err_text e) # h'))"

section \<open>What a sender can make a receiver write\<close>

text \<open>
  Where a file appears: strictly below the directory, by plain components; directly after
  a check that found nothing there and the creation of its directory.
\<close>

definition strictly_below :: "string \<Rightarrow> string \<Rightarrow> bool" where
  "strictly_below dst p \<longleftrightarrow> rooted p \<and>
     (\<exists>cs. cs \<noteq> [] \<and> path_comps p = path_comps dst @ cs \<and> (\<forall>c \<in> set cs. plain c))"

fun export_guard :: "string \<Rightarrow> call event \<Rightarrow> io_hist \<Rightarrow> bool" where
  "export_guard dst (Did (Os (Rename a b))) past =
     (strictly_below dst b \<and> (\<exists>d e rest. past = Did (Os (MkdirAll d)) # Failed (Os (Lstat b)) e # rest))"
| "export_guard dst e past = True"

lemma export_path_below:
  "rooted dst \<Longrightarrow> export_path dst name = Inr p \<Longrightarrow> strictly_below dst p"
  using export_path_comps [of dst name p] by (auto simp: strictly_below_def)

lemma check_targets_below:
  "rooted dst \<Longrightarrow> check_targets W dst es h = (Inr ts, h') \<Longrightarrow> \<forall>t \<in> set ts. strictly_below dst t"
  by (induction es arbitrary: h ts)
    (auto simp: go_simps export_path_below split: sum.splits prod.splits option.splits)

lemma keeps_check_targets: "keeps (export_guard dst) (check_targets W d es)"
proof (induction es)
  case Nil
  show ?case by (simp add: keeps_ret)
next
  case (Cons e es)
  then show ?case
    by (auto intro!: keeps_try keeps_lift keeps_catch keeps_invoke keeps_cases keeps_fail keeps_ret)
qed

lemma keeps_export_one:
  assumes "strictly_below dst t"
  shows "keeps (export_guard dst) (export_one W opt tmp i e t)"
  unfolding keeps_def
proof (intro allI impI)
  fix h assume "always (export_guard dst) h"
  with assms show "always (export_guard dst) (snd (export_one W opt tmp i e t h))"
    by (auto simp: export_one_def go_simps split: option.splits sum.splits)
qed

lemma keeps_export_all:
  "\<forall>(e, t) \<in> set ets. strictly_below dst t \<Longrightarrow> keeps (export_guard dst) (export_all W opt tmp i ets)"
  by (induction W opt tmp i ets rule: export_all.induct)
    (auto intro: keeps_ret keeps_try keeps_export_one)

lemma keeps_deliver: "(\<And>w c. keeps P (wr w c)) \<Longrightarrow> keeps P (deliver wr w cs)"
  by (induction cs arbitrary: w) (auto intro: keeps_ret keeps_try)

lemma keeps_download: "keeps (export_guard dst) (download W sched conn entries dir)"
proof -
  have "keeps (export_guard dst) (download_file W conn h p)" for h p
    unfolding download_file_def fetch_def
    by (intro keeps_rules keeps_deliver) auto
  then have "keeps (export_guard dst) (download_all W conn entries dir is acc)" for "is" acc
    by (induction "is" arbitrary: acc) (auto intro!: keeps_ret keeps_try keeps_then keeps_if keeps_query)
  then show ?thesis
    unfolding download_def by (auto intro!: keeps_try keeps_cases keeps_fail keeps_ret)
qed

lemma keeps_fetch_collection: "keeps (export_guard dst) (fetch_collection W L conn root)"
  unfolding fetch_collection_def fetch_small_def fetch_def
  by (intro keeps_rules keeps_deliver) auto

lemma keeps_receive_entries:
  assumes "rooted dst" and log: "\<And>s. keeps (export_guard dst) (log s)"
  shows "keeps (export_guard dst) (receive_entries W sched log conn root entries dst opt)"
  unfolding keeps_def
proof (intro allI impI)
  fix h assume h: "always (export_guard dst) h"
  obtain r h1 where c: "check_targets W dst entries h = (r, h1)" by fastforce
  with keepsD' [OF keeps_check_targets c] h have h1: "always (export_guard dst) h1" by blast
  show "always (export_guard dst) (snd (receive_entries W sched log conn root entries dst opt h))"
  proof (cases r)
    case (Inl e)
    with c h1 show ?thesis by (simp add: receive_entries_def go_try_def)
  next
    case (Inr ts)
    with c check_targets_below [OF assms(1)] have "\<forall>t \<in> set ts. strictly_below dst t" by blast
    then have "\<forall>(e, t) \<in> set (zip entries ts). strictly_below dst t"
      by (auto dest: set_zip_rightD)
    note tail = keeps_export_all [OF this]
    show ?thesis
      unfolding receive_entries_def go_try_def [of "check_targets W dst entries"] c Inr
      by (simp only: prod.case sum.case)
        (rule keepsD [OF _ h1], intro keeps_rules tail keeps_download log, auto)
  qed
qed

section \<open>Ownership\<close>

lemma owns_deliver:
  "(\<And>w c. owns opens frees {} (wr w c) (\<lambda>_. {})) \<Longrightarrow> owns opens frees {} (deliver wr w cs) (\<lambda>_. {})"
  by (induction cs arbitrary: w) (auto intro: owns_ret owns_quiet_try)

lemmas plain_rules = owns_quiet_try owns_quiet_catch owns_wrap owns_defer [where F = "{}"] quiet_rules
  owns_deliver endpoint_rules

lemma owns_download: "owns opens_endpoint frees_endpoint {} (download W sched conn entries dir) (\<lambda>_. {})"
proof -
  have one: "owns opens_endpoint frees_endpoint {} (download_file W conn h p) (\<lambda>_. {})" for h p
    unfolding download_file_def fetch_def by (rule plain_rules | simp)+
  have all: "owns opens_endpoint frees_endpoint {} (download_all W conn entries dir is acc) (\<lambda>_. {})" for "is" acc
    by (induction "is" arbitrary: acc) (simp_all, (rule one plain_rules | simp)+)
  show ?thesis
    unfolding download_def by (rule all plain_rules | simp)+
qed

lemma dirs_download: "owns opens_dir frees_dir {} (download W sched conn entries dir) (\<lambda>_. {})"
proof -
  have one: "owns opens_dir frees_dir {} (download_file W conn h p) (\<lambda>_. {})" for h p
    unfolding download_file_def fetch_def by (rule plain_rules | simp)+
  have all: "owns opens_dir frees_dir {} (download_all W conn entries dir is acc) (\<lambda>_. {})" for "is" acc
    by (induction "is" arbitrary: acc) (simp_all, (rule one plain_rules | simp)+)
  show ?thesis
    unfolding download_def by (rule all plain_rules | simp)+
qed

text \<open>What the receiver prints to may be any writer that opens nothing.\<close>

lemma owns_receive_entries:
  assumes log: "\<And>s. owns opens_endpoint frees_endpoint {} (log s) (\<lambda>_. {})"
  shows "owns opens_endpoint frees_endpoint {} (receive_entries W sched log conn root entries dst opt) (\<lambda>_. {})"
proof -
  have check: "owns opens_endpoint frees_endpoint {} (check_targets W dst es) (\<lambda>_. {})" for es
    by (induction es) (simp_all, (rule plain_rules | simp)+)
  have one: "owns opens_endpoint frees_endpoint {} (export_one W opt tmp i e t) (\<lambda>_. {})" for tmp i e t
    unfolding export_one_def by (rule plain_rules | simp)+
  have export: "owns opens_endpoint frees_endpoint {} (export_all W opt tmp i ets) (\<lambda>_. {})" for tmp i ets
  proof (induction ets arbitrary: i)
    case (Cons et ets)
    show ?case
      by (cases et) (simp add: owns_quiet_try [OF one Cons.IH])
  qed (simp add: owns_ret)
  show ?thesis
    unfolding receive_entries_def Let_def by (rule check export log owns_download plain_rules | simp)+
qed

lemma dirs_receive_entries:
  assumes log: "\<And>s. owns opens_dir frees_dir {} (log s) (\<lambda>_. {})"
  shows "owns opens_dir frees_dir {} (receive_entries W sched log conn root entries dst opt) (\<lambda>_. {})"
proof -
  have check: "owns opens_dir frees_dir {} (check_targets W dst es) (\<lambda>_. {})" for es
    by (induction es) (simp_all, (rule plain_rules | simp)+)
  have one: "owns opens_dir frees_dir {} (export_one W opt tmp i e t) (\<lambda>_. {})" for tmp i e t
    unfolding export_one_def by (rule plain_rules | simp)+
  have export: "owns opens_dir frees_dir {} (export_all W opt tmp i ets) (\<lambda>_. {})" for tmp i ets
  proof (induction ets arbitrary: i)
    case (Cons et ets)
    show ?case
      by (cases et) (simp add: owns_quiet_try [OF one Cons.IH])
  qed (simp add: owns_ret)
  have remove: "owns opens_dir frees_dir {} (invoke W (Os (RemoveAll d))) (\<lambda>_. {})" for d
    by (rule owns_invoke) simp
  show ?thesis
    unfolding receive_entries_def Let_def by (rule check export log dirs_download plain_rules | simp)+
qed

lemma owns_fetch_collection: "owns opens_endpoint frees_endpoint {} (fetch_collection W L conn root) (\<lambda>_. {})"
  unfolding fetch_collection_def fetch_small_def fetch_def by (rule plain_rules | simp)+

lemma dirs_fetch_collection: "owns opens_dir frees_dir {} (fetch_collection W L conn root) (\<lambda>_. {})"
  unfolding fetch_collection_def fetch_small_def fetch_def by (rule plain_rules | simp)+

lemma owns_receive:
  assumes "\<And>s. owns opens_endpoint frees_endpoint {} (log s) (\<lambda>_. {})"
  shows "owns opens_endpoint frees_endpoint {} (receive W L sched log tk dst opt) (\<lambda>_. {})"
  unfolding receive_def
  by (rule owns_receive_entries [OF assms] owns_fetch_collection owns_try [OF owns_sendme_bind]
      owns_defer [OF drops_shutdown] plain_rules | simp)+

lemma dirs_receive:
  assumes "\<And>s. owns opens_dir frees_dir {} (log s) (\<lambda>_. {})"
  shows "owns opens_dir frees_dir {} (receive W L sched log tk dst opt) (\<lambda>_. {})"
proof -
  have down: "owns opens_dir frees_dir {} (shutdown W n) (\<lambda>_. {})" for n
    unfolding shutdown_def by (rule owns_invoke) simp
  show ?thesis
    unfolding receive_def
    by (rule dirs_receive_entries [OF assms] dirs_fetch_collection owns_try [OF dirs_sendme_bind]
        down plain_rules | simp)+
qed

lemma drops_temp: "drops opens_dir frees_dir {Temp w} (invoke W (Os (RemoveTemp w)))"
  by (rule drops_mono [OF drops_invoke]) simp_all

lemma owns_sendme_demo: "owns opens_endpoint frees_endpoint {} (sendme_demo W L N sched order fuel) (\<lambda>_. {})"
proof -
  have put: "owns opens_endpoint frees_endpoint {} (write_demo_file W src nb) (\<lambda>_. {})" for src nb
    unfolding write_demo_file_def by (rule plain_rules | simp)+
  have show_it: "owns opens_endpoint frees_endpoint {} (show_received W dst v) (\<lambda>_. {})" for dst v
  proof (cases v)
    case (Visit p t)
    then show ?thesis
      by (cases t) (simp_all add: show_received_def owns_ret owns_quiet_try [OF owns_invoke_get owns_println])
  qed (simp add: show_received_def owns_fail)
  show ?thesis
    unfolding sendme_demo_def Let_def
    by (rule owns_try [OF owns_start_send] owns_defer [OF drops_owns [OF owns_close_sender]]
        owns_receive owns_println owns_each put show_it plain_rules | simp)+
qed

text \<open>The demo's temporary directory holds the store, so what it leaves is what it made.\<close>

lemma dirs_sendme_demo: "owns opens_dir frees_dir {} (sendme_demo W L N sched order fuel) (\<lambda>_. {})"
proof -
  have put: "owns opens_dir frees_dir {} (write_demo_file W src nb) (\<lambda>_. {})" for src nb
    unfolding write_demo_file_def by (rule plain_rules | simp)+
  have show_it: "owns opens_dir frees_dir {} (show_received W dst v) (\<lambda>_. {})" for dst v
  proof (cases v)
    case (Visit p t)
    then show ?thesis
      by (cases t) (simp_all add: show_received_def owns_ret owns_quiet_try [OF owns_invoke_get owns_println])
  qed (simp add: show_received_def owns_fail)
  have start: "owns opens_dir frees_dir {} (start_send W L N sched path dir (demo_opt k)) (\<lambda>s. {Named (snd_store_dir s)})" for path dir k
    by (rule dirs_start_send) (simp add: demo_opt_def)
  show ?thesis
    unfolding sendme_demo_def Let_def
    by (rule owns_try [OF owns_invoke_open] owns_defer [OF drops_temp] owns_try [OF start]
        owns_defer [OF drops_owns [OF dirs_close_sender]]
        dirs_receive owns_println owns_each put show_it plain_rules | simp)+
qed

lemma owns_sendme_command:
  "owns opens_endpoint frees_endpoint {} (sendme_command W L N sched fuel ncpu sending args) (\<lambda>_. {})"
  unfolding sendme_command_def send_command_def Let_def
  by (rule owns_receive owns_eprintln owns_usage owns_secret_key[THEN owns_try] owns_close_sender
      owns_try [OF owns_start_send] owns_catch [OF owns_then [where F = "{}"]] plain_rules | simp)+

lemma owns_sendme_run: "owns opens_endpoint frees_endpoint {} (sendme_run W L N sched order fuel ncpu args) (\<lambda>_. {})"
  unfolding sendme_run_def
  by (rule owns_cases owns_sendme_demo owns_sendme_command owns_usage owns_fail refl)+

section \<open>Properties\<close>

text \<open>
  A world to evaluate with: every call succeeds, except that no target exists yet and no
  connection is accepted; a blob is one piece; and a library that knows one collection.
\<close>

definition demo_world :: "call world" where
  "demo_world =
     \<lparr>fails = \<lambda>h c. (case c of Os (Lstat p) \<Rightarrow> Some ErrNotExist | Os (Stat p) \<Rightarrow> Some ErrNotExist
          | Net (Accept n) \<Rightarrow> Some ErrEOF | _ \<Rightarrow> None),
      got_bytes = \<lambda>h c. [], got_text = \<lambda>h c. [], got_texts = \<lambda>h c. (case c of Blob (BlobChunks s k) \<Rightarrow> [''xyz''] | _ \<Rightarrow> []),
      got_nat = \<lambda>h c. 0, got_flag = \<lambda>h c. False\<rparr>"

definition demo_lib :: "entry list \<Rightarrow> blob_lib" where
  "demo_lib es =
     \<lparr>parse_ticket = \<lambda>s. Inr \<lparr>tk_addr = ParsedAddr s, tk_hash = ''r'', tk_hash_seq = True\<rparr>, ticket_text = \<lambda>t. ''blob'',
      parse_seq = \<lambda>b. Inr [''m''], collection_seq = \<lambda>es. [], collection_meta = \<lambda>es. [],
      parse_collection = \<lambda>hs b. Inr es, walk_of = \<lambda>h p. []\<rparr>"

text \<open>C3. Receiving is safe against the sender: whatever ticket, collection and names arrive, a
  file is only ever put strictly below the receiver's directory, by components none of
  which climbs out of it, and only directly after a check that found nothing there.\<close>

theorem receive_stays_below_and_never_overwrites:
  assumes "rooted dst"
    and "snd (receive W L sched (if to_err then eprintln else println) tk dst opt []) =
      after @ Did (Os (Rename a p)) # before"
  shows "strictly_below dst p \<and> (\<exists>d e rest. before = Did (Os (MkdirAll d)) # Failed (Os (Lstat p)) e # rest)"
proof -
  have log: "keeps (export_guard dst) ((if to_err then eprintln else println) s)" for s
    by (simp add: keeps_println keeps_eprintln)
  have "keeps (export_guard dst) (receive W L sched (if to_err then eprintln else println) tk dst opt)"
    unfolding receive_def sendme_bind_def relay_mode_of_def shutdown_def
    by (intro keeps_rules keeps_receive_entries [OF assms(1) log] keeps_fetch_collection) auto
  then have "always (export_guard dst) (after @ Did (Os (Rename a p)) # before)"
    using assms(2) keepsD [of "export_guard dst" _ "[]"] by (metis always.simps(1))
  from always_append [OF this] show ?thesis by simp
qed

abbreviation demo_receive :: "entry list \<Rightarrow> (gerr + unit) \<times> io_hist" where
  "demo_receive es \<equiv> receive demo_world (demo_lib es) (\<lambda>n. [0..<n]) (if True then eprintln else println) ''t'' ''/d'' demo_options []"

lemma demo_receive_renames:
  "snd (demo_receive [(''a/b'', ''h'')]) = take 3 (snd (demo_receive [(''a/b'', ''h'')])) @
     Did (Os (Rename ''/d/.sendme-recv-r/0'' ''/d/a/b'')) # drop 4 (snd (demo_receive [(''a/b'', ''h'')]))"
  by code_simp

theorem receive_stays_below_and_never_overwrites_witness:
  "strictly_below ''/d'' ''/d/a/b'' \<and> (\<exists>d e rest. drop 4 (snd (demo_receive [(''a/b'', ''h'')])) =
     Did (Os (MkdirAll d)) # Failed (Os (Lstat ''/d/a/b'')) e # rest)"
proof -
  have "rooted ''/d''" by code_simp
  from receive_stays_below_and_never_overwrites [OF this demo_receive_renames] show ?thesis .
qed

text \<open>A collection with one name that would climb out is refused as a whole: before it has
  fetched or written anything \<^verbatim>\<open>receive\<close> has only asked whether targets exist.\<close>

lemma bad_name_writes_nothing:
  assumes "(name, k) \<in> set entries" and "export_path dst name = Inl e"
  shows "\<exists>e' asked. receive_entries W sched log conn root entries dst opt h = (Inl e', asked @ h) \<and>
    (\<forall>ev \<in> set asked. \<exists>p. ev = Did (Os (Lstat p)) \<or> (\<exists>er. ev = Failed (Os (Lstat p)) er))"
proof -
  have "\<exists>e' asked. check_targets W dst entries h = (Inl e', asked @ h) \<and>
    (\<forall>ev \<in> set asked. \<exists>p. ev = Did (Os (Lstat p)) \<or> (\<exists>er. ev = Failed (Os (Lstat p)) er))"
    using assms(1)
  proof (induction entries arbitrary: h)
    case (Cons en es)
    show ?case
    proof (cases "export_path dst (fst en)")
      case (Inl er)
      then show ?thesis by (simp add: go_simps)
    next
      case (Inr t)
      with Cons.prems assms(2) have "(name, k) \<in> set es" by auto
      with Cons.IH [of "Failed (Os (Lstat t)) er # h" for er] obtain e' asked where
        IH: "\<And>er. check_targets W dst es (Failed (Os (Lstat t)) er # h) = (Inl (e' er), asked er @ Failed (Os (Lstat t)) er # h)"
        "\<And>er ev. ev \<in> set (asked er) \<Longrightarrow> \<exists>p. ev = Did (Os (Lstat p)) \<or> (\<exists>er. ev = Failed (Os (Lstat p)) er)"
        by metis
      show ?thesis
      proof (cases "fails W h (Os (Lstat t))")
        case None
        with Inr show ?thesis by (simp add: go_simps)
      next
        case (Some er)
        with Inr IH show ?thesis
          by (intro exI [of _ "e' er"] exI [of _ "asked er @ [Failed (Os (Lstat t)) er]"]) (auto simp: go_simps)
      qed
    qed
  qed simp
  then show ?thesis
    by (auto simp: receive_entries_def go_try_def)
qed

lemma bad_name_writes_nothing_witness:
  "\<exists>e' asked. receive_entries demo_world (\<lambda>n. [0..<n]) println 0 ''r'' [(''a'', ''h''), (''../b'', ''i'')] ''/d'' demo_options []
     = (Inl e', asked @ [])"
proof -
  have "(''../b'', ''i'') \<in> set [(''a'', ''h''), (''../b'', ''i'')]" by simp
  moreover obtain e where "export_path ''/d'' ''../b'' = Inl e"
    by (simp add: export_path_def slash_def bad_component_def)
  ultimately show ?thesis
    using bad_name_writes_nothing [of "''../b''" "''i''" _ "''/d''" e demo_world "\<lambda>n. [0..<n]" println 0 "''r''" demo_options "[]"]
    by blast
qed

text \<open>C8. \<^verbatim>\<open>exportPath\<close> confines: a name it accepts lands below the root by exactly the components
  of the name, and different names at different places.\<close>

theorem export_path_confines:
  assumes "rooted root" and "export_path root name = Inr p"
  shows "rooted p \<and> path_comps p = path_comps root @ split_on slash name \<and>
    (\<forall>c \<in> set (split_on slash name). plain c \<and> CHR 0x5C \<notin> set c) \<and>
    (\<forall>name'. export_path root name' = Inr p \<longrightarrow> name' = name)"
proof -
  have "\<forall>c \<in> set (split_on slash name). CHR 0x5C \<notin> set c"
    using assms(2) by (auto simp: export_path_def Let_def list_ex_iff bad_component_def split: if_splits)
  with export_path_comps [OF assms] export_path_inj [OF assms(1) _ assms(2)] show ?thesis
    by blast
qed

theorem export_path_confines_witness:
  "path_comps ''/d/a/b'' = [''d'', ''a'', ''b''] \<and> {n. export_path ''/d'' n = Inr ''/d/a/b''} = {''a/b''}"
proof -
  have "rooted ''/d''" "export_path ''/d'' ''a/b'' = Inr ''/d/a/b''" "path_comps ''/d/a/b'' = [''d'', ''a'', ''b'']"
    by code_simp+
  with export_path_confines [of "''/d''" "''a/b''" "''/d/a/b''"] show ?thesis by blast
qed

lemma deliver_limited:
  "deliver (\<lambda>l p. go_lift (limit_write l p)) l cs h = (Inr l', h') \<Longrightarrow> 0 \<le> lim_n l \<Longrightarrow>
     0 \<le> lim_n l' \<and> lim_buf l' = lim_buf l @ concat cs \<and>
     lim_n l' + int (length (lim_buf l')) = lim_n l + int (length (lim_buf l))"
proof (induction cs arbitrary: l)
  case (Cons c cs)
  show ?case
  proof (cases "limit_write l c")
    case (Inl e)
    with Cons.prems show ?thesis by (simp add: go_fail_def)
  next
    case (Inr l1)
    with Cons.prems have "deliver (\<lambda>l p. go_lift (limit_write l p)) l1 cs h = (Inr l', h')" by simp
    with limit_write_sum [OF Inr] Cons.IH [OF this] Inr show ?thesis
      by (auto simp: limit_write_def split: if_splits)
  qed
qed (simp add: go_ret_def)

text \<open>C9. What a receiver holds in memory is bounded: \<^verbatim>\<open>fetchSmall\<close> returns at most 32 MiB, and
  exactly the pieces that were delivered, however the peer cuts them.\<close>

theorem fetch_small_bounded:
  assumes "fst (fetch_small W conn k h) = Inr b"
  shows "int (length b) \<le> 32 * 2 ^ 20 \<and>
    (\<exists>s h1. b = concat (map bytes_of (got_texts W h1 (Blob (BlobChunks s k)))))"
proof -
  let ?l = "\<lparr>lim_n = max_meta_size, lim_buf = []\<rparr>"
  from assms obtain s h1 h2 h3 l' where
    "deliver (\<lambda>l p. go_lift (limit_write l p)) ?l (map bytes_of (got_texts W h1 (Blob (BlobChunks s k)))) h2 = (Inr l', h3)"
    "b = lim_buf l'"
    by (auto simp: fetch_small_def fetch_def go_simps split: prod.splits sum.splits option.splits)
  moreover have "0 \<le> lim_n ?l" by (simp add: max_meta_size_def)
  ultimately have "0 \<le> lim_n l'" "b = lim_buf ?l @ concat (map bytes_of (got_texts W h1 (Blob (BlobChunks s k))))"
    "lim_n l' + int (length b) = lim_n ?l + int (length (lim_buf ?l))"
    using deliver_limited by metis+
  then have "int (length b) \<le> 32 * 2 ^ 20" and "b = concat (map bytes_of (got_texts W h1 (Blob (BlobChunks s k))))"
    unfolding max_meta_size_def by simp_all
  then show ?thesis by blast
qed

theorem fetch_small_bounded_witness:
  "\<exists>b. fst (fetch_small demo_world 0 ''r'' []) = Inr b \<and> int (length b) \<le> 32 * 2 ^ 20"
proof -
  have "fst (fetch_small demo_world 0 ''r'' []) = Inr (bytes_of ''xyz'')"
    by (simp add: fetch_small_def fetch_def go_simps demo_world_def limit_write_def max_meta_size_def)
  with fetch_small_bounded [OF this] show ?thesis by blast
qed

text \<open>Flags may stand anywhere: a command line whose items are flags of the command, written
  \<^verbatim>\<open>-name=value\<close> with a value of their kind, and positional arguments, in any order, parses
  to the positional arguments and the flags, each in its order.\<close>

lemma flags_anywhere:
  "\<forall>i \<in> set items. item_ok sendme_flags i \<Longrightarrow>
     parse_args sendme_flags [] [] (map item_text items) = Inr (positionals items, flag_items items)"
  using parse_args_items [of items sendme_flags "[]" "[]"] by simp

theorem flags_anywhere_witness:
  "parse_args sendme_flags [] [] [''-jobs=4'', ''photos'', ''-v=true''] = Inr ([''photos''], [(''jobs'', ''4''), (''v'', ''true'')])"
proof -
  have "\<forall>i \<in> set [Flag ''jobs'' ''4'', Pos ''photos'', Flag ''v'' ''true'']. item_ok sendme_flags i"
    by code_simp
  from flags_anywhere [OF this] show ?thesis by simp
qed

end
