(* ===== verification/Pipe.thy ===== *)
theory Pipe
  imports SendmeSend
begin

text \<open>
  \<^verbatim>\<open>cmd/go-iroh-dumbpipe/main.go\<close>, the pipe itself: the handshake, the choice of protocol,
  and \<^verbatim>\<open>forward\<close>, first as the two copying goroutines with every interleaving of their
  steps, then as the calls it makes.
\<close>

section \<open>Protocol and handshake\<close>

definition dumbpipe_alpn :: string where
  "dumbpipe_alpn = ''DUMBPIPEV0''"

definition handshake :: string where
  "handshake = ''hello''"

text \<open>\<^verbatim>\<open>config.alpn\<close>: the protocol, and whether the handshake goes with it.\<close>

definition pipe_alpn :: "string \<Rightarrow> gerr + string \<times> bool" where
  "pipe_alpn custom =
     (if custom = [] then Inr (dumbpipe_alpn, True)
      else case cut_prefix ''utf8:'' custom of
        Some t \<Rightarrow> Inr (t, False)
      | None \<Rightarrow>
        (case hex_decode custom of
           None \<Rightarrow> Inl (Wrapf ''parse -custom-alpn'' (Err ''encoding/hex: invalid text''))
         | Some b \<Rightarrow> Inr (text_of b, False)))"

definition read_handshake :: "(duplex, unit) go" where
  "read_handshake =
     go_try (read_full (length handshake)) (\<lambda>buf.
     if text_of buf \<noteq> handshake then go_fail (Err (''invalid dumbpipe handshake '' @ quote (text_of buf)))
     else go_ret ())"

definition write_handshake :: "(duplex, unit) go" where
  "write_handshake = write_bytes (bytes_of handshake)"

section \<open>The two copies of forward\<close>

text \<open>
  A leg is one goroutine: the chunks its reader has still to give and how reading ends, what
  it has written, and whether it has ended its writer's write side, which it does last,
  however the copy ended. \<open>env_write\<close> is the writer: the error for a chunk, given what has
  been written. Only the leg into the stream reports the error of the half-close.
\<close>

record leg =
  leg_in :: "bytes list"
  leg_out :: bytes
  leg_shut :: bool

record leg_env =
  env_write :: "bytes \<Rightarrow> bytes \<Rightarrow> gerr option"
  env_read_end :: "gerr option"
  env_close :: "gerr option"

definition leg_finish :: "leg_env \<Rightarrow> leg \<Rightarrow> gerr option \<Rightarrow> leg \<times> gerr option option" where
  "leg_finish env l err = (l\<lparr>leg_shut := True\<rparr>, Some (case err of None \<Rightarrow> env_close env | Some e \<Rightarrow> Some e))"

text \<open>One step of a leg; \<open>Some r\<close>: the leg is over and sends \<open>r\<close> on the channel.\<close>

definition leg_move :: "leg_env \<Rightarrow> leg \<Rightarrow> leg \<times> gerr option option" where
  "leg_move env l =
     (case leg_in l of
        [] \<Rightarrow> leg_finish env l (env_read_end env)
      | c # cs \<Rightarrow>
        (case env_write env (leg_out l) c of
           Some e \<Rightarrow> leg_finish env l (Some e)
         | None \<Rightarrow> (l\<lparr>leg_in := cs, leg_out := leg_out l @ c\<rparr>, None)))"

record pipe =
  up_leg :: leg
  down_leg :: leg
  errc :: "gerr option list"

fun send_err :: "gerr option option \<Rightarrow> gerr option list \<Rightarrow> gerr option list" where
  "send_err None es = es"
| "send_err (Some r) es = es @ [r]"

inductive pipe_step :: "leg_env \<Rightarrow> leg_env \<Rightarrow> pipe \<Rightarrow> pipe \<Rightarrow> bool"
  for up down :: leg_env where
  move_up: "\<not> leg_shut (up_leg p) \<Longrightarrow> leg_move up (up_leg p) = (l, r) \<Longrightarrow>
    pipe_step up down p (p\<lparr>up_leg := l, errc := send_err r (errc p)\<rparr>)"
| move_down: "\<not> leg_shut (down_leg p) \<Longrightarrow> leg_move down (down_leg p) = (l, r) \<Longrightarrow>
    pipe_step up down p (p\<lparr>down_leg := l, errc := send_err r (errc p)\<rparr>)"

inductive_cases pipe_stepE: "pipe_step up down p q"

definition new_leg :: "bytes list \<Rightarrow> leg" where
  "new_leg cs = \<lparr>leg_in = cs, leg_out = [], leg_shut = False\<rparr>"

definition new_pipe :: "bytes list \<Rightarrow> bytes list \<Rightarrow> pipe" where
  "new_pipe from_src from_stream = \<lparr>up_leg = new_leg from_src, down_leg = new_leg from_stream, errc = []\<rparr>"

text \<open>What \<^verbatim>\<open>forward\<close> returns when both have sent: the first error on the channel.\<close>

fun first_err :: "gerr option list \<Rightarrow> gerr option" where
  "first_err [] = None"
| "first_err (None # es) = first_err es"
| "first_err (Some e # es) = Some e"

definition pipe_over :: "pipe \<Rightarrow> bool" where
  "pipe_over p \<longleftrightarrow> leg_shut (up_leg p) \<and> leg_shut (down_leg p)"

section \<open>Invariants of the legs\<close>

text \<open>
  A leg that has shut with no error has written everything; whatever happens, what it has
  written and what it has not, together, are the input.
\<close>

definition leg_error :: "leg_env \<Rightarrow> gerr \<Rightarrow> bool" where
  "leg_error env e \<longleftrightarrow>
     env_read_end env = Some e \<or> env_close env = Some e \<or> (\<exists>w c. env_write env w c = Some e)"

definition leg_inv :: "bytes list \<Rightarrow> leg_env \<Rightarrow> leg \<Rightarrow> gerr option option \<Rightarrow> bool" where
  "leg_inv cs env l res \<longleftrightarrow>
     leg_out l @ concat (leg_in l) = concat cs \<and>
     (leg_shut l \<longleftrightarrow> res \<noteq> None) \<and>
     (res = Some None \<longrightarrow> leg_out l = concat cs \<and> env_read_end env = None \<and> env_close env = None) \<and>
     (\<forall>e. res = Some (Some e) \<longrightarrow> leg_error env e)"

lemma leg_inv_new: "leg_inv cs env (new_leg cs) None"
  by (simp add: leg_inv_def new_leg_def)

lemma leg_inv_move:
  "leg_inv cs env l None \<Longrightarrow> leg_move env l = (l', r) \<Longrightarrow> leg_inv cs env l' r"
  by (auto simp: leg_inv_def leg_move_def leg_finish_def leg_error_def split: list.splits option.splits)

definition pipe_inv :: "bytes list \<Rightarrow> bytes list \<Rightarrow> leg_env \<Rightarrow> leg_env \<Rightarrow> pipe \<Rightarrow> bool" where
  "pipe_inv cs ds up down p \<longleftrightarrow>
     (\<exists>ru rd. leg_inv cs up (up_leg p) ru \<and> leg_inv ds down (down_leg p) rd \<and>
       mset (errc p) = mset (send_err ru []) + mset (send_err rd []))"

lemma mset_send_err: "mset (send_err r es) = mset (send_err r []) + mset es"
  by (cases r) simp_all

lemma pipe_inv_new: "pipe_inv cs ds up down (new_pipe cs ds)"
  unfolding pipe_inv_def new_pipe_def
  by (rule exI [of _ None], rule exI [of _ None]) (simp add: leg_inv_new)

lemma pipe_inv_step: "pipe_step up down p q \<Longrightarrow> pipe_inv cs ds up down p \<Longrightarrow> pipe_inv cs ds up down q"
proof (induction rule: pipe_step.induct)
  case (move_up p l r)
  then obtain ru rd where inv: "leg_inv cs up (up_leg p) ru" "leg_inv ds down (down_leg p) rd"
    "mset (errc p) = mset (send_err ru []) + mset (send_err rd [])"
    by (auto simp: pipe_inv_def)
  with move_up have ru: "ru = None"
    by (cases ru) (auto simp: leg_inv_def)
  with inv(1) move_up(2) have "leg_inv cs up l r"
    by (auto dest: leg_inv_move)
  with inv ru show ?case
    unfolding pipe_inv_def
    by (intro exI [of _ r] exI [of _ rd]) (simp add: mset_send_err [of r "errc p"])
next
  case (move_down p l r)
  then obtain ru rd where inv: "leg_inv cs up (up_leg p) ru" "leg_inv ds down (down_leg p) rd"
    "mset (errc p) = mset (send_err ru []) + mset (send_err rd [])"
    by (auto simp: pipe_inv_def)
  with move_down have rd: "rd = None"
    by (cases rd) (auto simp: leg_inv_def)
  with inv(2) move_down(2) have "leg_inv ds down l r"
    by (auto dest: leg_inv_move)
  with inv rd show ?case
    unfolding pipe_inv_def
    by (intro exI [of _ ru] exI [of _ r])
      (simp add: mset_send_err [of r "errc p"] add.commute)
qed

definition pipe_steps :: "leg_env \<Rightarrow> leg_env \<Rightarrow> pipe \<Rightarrow> pipe \<Rightarrow> bool" where
  "pipe_steps up down = (pipe_step up down)\<^sup>*\<^sup>*"

lemma pipe_reach: "pipe_steps up down (new_pipe cs ds) p \<Longrightarrow> pipe_inv cs ds up down p"
  unfolding pipe_steps_def
  by (induction rule: rtranclp_induct) (auto simp only: pipe_inv_new elim: pipe_inv_step)

lemma first_err_None: "first_err es = None \<longleftrightarrow> set es \<subseteq> {None}"
  by (induction es rule: first_err.induct) auto

lemma first_err_in: "first_err es = Some e \<Longrightarrow> Some e \<in> set es"
  by (induction es rule: first_err.induct) auto

text \<open>Each step uses up a chunk or ends a leg.\<close>

definition leg_left :: "leg \<Rightarrow> nat" where
  "leg_left l = (if leg_shut l then 0 else Suc (length (leg_in l)))"

definition pipe_left :: "pipe \<Rightarrow> nat" where
  "pipe_left p = leg_left (up_leg p) + leg_left (down_leg p)"

lemma leg_move_left: "\<not> leg_shut l \<Longrightarrow> leg_move env l = (l', r) \<Longrightarrow> leg_left l' < leg_left l"
  by (auto simp: leg_left_def leg_move_def leg_finish_def split: list.splits option.splits)

lemma pipe_step_left: "pipe_step up down p q \<Longrightarrow> pipe_left q < pipe_left p"
  by (induction rule: pipe_step.induct) (auto simp: pipe_left_def dest: leg_move_left)

lemma pipe_step_exists: "\<not> pipe_over p \<Longrightarrow> \<exists>q. pipe_step up down p q"
  by (auto simp: pipe_over_def) (metis move_up move_down surj_pair)+

lemma pipe_over_stuck: "pipe_over p \<Longrightarrow> \<not> pipe_step up down p q"
  by (auto simp: pipe_over_def elim: pipe_stepE)

section \<open>Properties\<close>

text \<open>C11. The pipe delivers: in every interleaving of its two copies, when both are over each has
  ended its writer's write side and written a front of what it read; \<^verbatim>\<open>forward\<close> returns no
  error only if both directions were delivered to the last byte, and an error it returns is
  one that a read, a write or the half-close reported.\<close>

theorem forward_delivers:
  assumes "pipe_steps up down (new_pipe cs ds) p" and "pipe_over p"
  shows "length (errc p) = 2 \<and>
    prefix (leg_out (up_leg p)) (concat cs) \<and> prefix (leg_out (down_leg p)) (concat ds) \<and>
    (first_err (errc p) = None \<longrightarrow> leg_out (up_leg p) = concat cs \<and> leg_out (down_leg p) = concat ds) \<and>
    (\<forall>e. first_err (errc p) = Some e \<longrightarrow> leg_error up e \<or> leg_error down e)"
proof -
  obtain ru rd where inv: "leg_inv cs up (up_leg p) ru" "leg_inv ds down (down_leg p) rd"
    "mset (errc p) = mset (send_err ru []) + mset (send_err rd [])"
    using pipe_reach [OF assms(1)] by (auto simp: pipe_inv_def)
  with assms(2) obtain u d where r: "ru = Some u" "rd = Some d"
    by (cases ru; cases rd) (auto simp: leg_inv_def pipe_over_def)
  with inv(3) have m: "mset (errc p) = {#u, d#}"
    by (simp add: add_mset_commute)
  then have "length (errc p) = 2" "set (errc p) = {u, d}"
    by (metis size_mset size_add_mset size_empty numeral_2_eq_2, metis set_mset_mset set_mset_add_mset_insert set_mset_empty)
  moreover have "prefix (leg_out (up_leg p)) (concat cs)" "prefix (leg_out (down_leg p)) (concat ds)"
    using inv(1,2) unfolding leg_inv_def prefix_def by metis+
  moreover have "first_err (errc p) = None \<Longrightarrow> leg_out (up_leg p) = concat cs \<and> leg_out (down_leg p) = concat ds"
    using inv(1,2) r calculation(2) by (simp add: first_err_None leg_inv_def)
  moreover have "first_err (errc p) = Some e \<Longrightarrow> leg_error up e \<or> leg_error down e" for e
    using inv(1,2) r calculation(2) first_err_in [of "errc p" e] by (auto simp: leg_inv_def)
  ultimately show ?thesis by blast
qed


text \<open>A pipe whose reader below gives one chunk, and whose writer below always fails.\<close>

definition good_end :: leg_env where
  "good_end = \<lparr>env_write = \<lambda>w c. None, env_read_end = None, env_close = None\<rparr>"

definition bad_end :: leg_env where
  "bad_end = \<lparr>env_write = \<lambda>w c. Some ErrEOF, env_read_end = None, env_close = None\<rparr>"

lemma demo_pipe:
  "pipe_steps good_end bad_end (new_pipe [[1]] [[2]])
     \<lparr>up_leg = \<lparr>leg_in = [], leg_out = [1], leg_shut = True\<rparr>,
      down_leg = \<lparr>leg_in = [[2]], leg_out = [], leg_shut = True\<rparr>, errc = [Some ErrEOF, None]\<rparr>"
proof -
  let ?u = "\<lambda>i q s. \<lparr>leg_in = i, leg_out = q, leg_shut = s\<rparr>"
  let ?d = "\<lambda>s. \<lparr>leg_in = [[2]], leg_out = [], leg_shut = s\<rparr>"
  have 1: "pipe_step good_end bad_end (new_pipe [[1]] [[2]]) \<lparr>up_leg = ?u [] [1] False, down_leg = ?d False, errc = []\<rparr>"
    using move_up [of "new_pipe [[1]] [[2]]" good_end "?u [] [1] False" None bad_end]
    by (simp add: new_pipe_def new_leg_def leg_move_def good_end_def)
  have 2: "pipe_step good_end bad_end \<lparr>up_leg = ?u [] [1] False, down_leg = ?d False, errc = []\<rparr>
      \<lparr>up_leg = ?u [] [1] False, down_leg = ?d True, errc = [Some ErrEOF]\<rparr>"
    using move_down [of "\<lparr>up_leg = ?u [] [1] False, down_leg = ?d False, errc = []\<rparr>" bad_end "?d True" "Some (Some ErrEOF)" good_end]
    by (simp add: leg_move_def leg_finish_def bad_end_def)
  have 3: "pipe_step good_end bad_end \<lparr>up_leg = ?u [] [1] False, down_leg = ?d True, errc = [Some ErrEOF]\<rparr>
      \<lparr>up_leg = ?u [] [1] True, down_leg = ?d True, errc = [Some ErrEOF, None]\<rparr>"
    using move_up [of "\<lparr>up_leg = ?u [] [1] False, down_leg = ?d True, errc = [Some ErrEOF]\<rparr>" good_end "?u [] [1] True" "Some None" bad_end]
    by (simp add: leg_move_def leg_finish_def good_end_def)
  from 1 2 3 show ?thesis
    unfolding pipe_steps_def by (meson r_into_rtranclp rtranclp_trans)
qed

theorem forward_delivers_witness:
  "\<exists>p. pipe_steps good_end bad_end (new_pipe [[1]] [[2]]) p \<and> first_err (errc p) = Some ErrEOF \<and>
     (leg_error good_end ErrEOF \<or> leg_error bad_end ErrEOF)"
proof -
  let ?p = "\<lparr>up_leg = \<lparr>leg_in = [], leg_out = [1], leg_shut = True\<rparr>,
      down_leg = \<lparr>leg_in = [[2]], leg_out = [], leg_shut = True\<rparr>, errc = [Some ErrEOF, None]\<rparr>"
  have "pipe_over ?p" by (simp add: pipe_over_def)
  from forward_delivers [OF demo_pipe this] have "leg_error good_end ErrEOF \<or> leg_error bad_end ErrEOF" by simp
  with demo_pipe show ?thesis by (intro exI [of _ ?p]) simp
qed


text \<open>C13. The listener passes exactly what the dialer sends: \<^verbatim>\<open>acceptPipe\<close>'s check accepts what
  \<^verbatim>\<open>openPipe\<close> writes, consumes the five bytes and leaves the payload; and it accepts a stream
  only if it starts with them.\<close>

theorem handshake_exact:
  "fst (read_handshake (reader b)) = Inr () \<longleftrightarrow> (\<exists>payload. b = outp (snd (write_handshake (reader []))) @ payload \<and>
     snd (read_handshake (reader b)) = reader payload)"
proof -
  have w: "outp (snd (write_handshake (reader []))) = bytes_of handshake"
    by (simp add: write_handshake_def write_bytes_def)
  show ?thesis
  proof
    assume l: "fst (read_handshake (reader b)) = Inr ()"
    then have "length handshake \<le> length b" "text_of (take (length handshake) b) = handshake"
      by (auto simp: read_handshake_def read_full_def go_simps split: if_splits)
    then have b: "b = bytes_of handshake @ drop (length handshake) b"
      by (metis append_take_drop_id bytes_of_text_of)
    with l have "snd (read_handshake (reader b)) = reader (drop (length handshake) b)"
      by (auto simp: read_handshake_def read_full_def go_simps reader_def split: if_splits)
    with b w show "\<exists>payload. b = outp (snd (write_handshake (reader []))) @ payload \<and>
        snd (read_handshake (reader b)) = reader payload"
      by metis
  next
    assume "\<exists>payload. b = outp (snd (write_handshake (reader []))) @ payload \<and>
        snd (read_handshake (reader b)) = reader payload"
    then obtain payload where "b = bytes_of handshake @ payload"
      using w by auto
    then show "fst (read_handshake (reader b)) = Inr ()"
      by (simp add: read_handshake_def go_simps)
  qed
qed

lemma hex_char_not_u: "n < 16 \<Longrightarrow> hex_char n \<noteq> CHR ''u''"
proof -
  have "\<forall>n \<in> {..<16}. hex_char n \<noteq> CHR ''u''" by code_simp
  then show "n < 16 \<Longrightarrow> hex_char n \<noteq> CHR ''u''" by blast
qed

text \<open>The spellings of \<^verbatim>\<open>-custom-alpn\<close> agree: hex of a text's bytes and \<^verbatim>\<open>utf8:\<close> before the text
  name the same protocol, without the handshake, so peers may use either.\<close>

lemma custom_alpn_spellings:
  "t \<noteq> [] \<Longrightarrow> pipe_alpn (hex_encode (bytes_of t)) = Inr (t, False) \<and> pipe_alpn (''utf8:'' @ t) = Inr (t, False)"
proof
  assume t: "t \<noteq> []"
  show "pipe_alpn (''utf8:'' @ t) = Inr (t, False)"
    by (simp add: pipe_alpn_def cut_prefix_def has_prefix_def)
  obtain c cs where b: "bytes_of t = c # cs"
    using t by (cases t) (auto simp: bytes_of_def)
  have "unat c div 16 < 16"
    using unat_byte_less [of c] by linarith
  then have "cut_prefix ''utf8:'' (hex_encode (bytes_of t)) = None"
    by (simp add: b cut_prefix_def has_prefix_def hex_char_not_u)
  moreover have "hex_encode (bytes_of t) \<noteq> []"
    by (simp add: b)
  ultimately show "pipe_alpn (hex_encode (bytes_of t)) = Inr (t, False)"
    by (simp add: pipe_alpn_def)
qed

lemma custom_alpn_spellings_witness:
  "pipe_alpn ''6874'' = Inr (''ht'', False)"
proof -
  have "hex_encode (bytes_of ''ht'') = ''6874''"
    by code_simp
  with custom_alpn_spellings [of "''ht''"] show ?thesis by simp
qed

end
