(* ===== verification/Dumbpipe.thy ===== *)
theory Dumbpipe
  imports Pipe SendmeReceive
begin

text \<open>
  \<^verbatim>\<open>cmd/go-iroh-dumbpipe/main.go\<close>, the commands: the command line, \<^verbatim>\<open>bind\<close> and
  \<^verbatim>\<open>bindListener\<close>, the stdin/stdout pipe, the forwarding to and from local sockets, and the
  demo. Proved of them: every endpoint and every local connection is given back on every
  path, and nothing is called before a command line is known to be usable.
\<close>

section \<open>Configuration\<close>

record config =
  cfg_cmd :: string
  cfg_ipv4 :: string
  cfg_ipv6 :: string
  cfg_custom_alpn :: string
  cfg_no_relay :: bool
  cfg_verbose :: bool
  cfg_recv_only :: bool
  cfg_host :: string
  cfg_addr :: string
  cfg_socket_path :: string
  cfg_ticket :: "endpoint_addr option"

text \<open>\<^verbatim>\<open>endpointticket\<close>, which is not under \<^verbatim>\<open>src/\<close>.\<close>

record ticket_lib =
  et_decode :: "string \<Rightarrow> gerr + endpoint_addr"
  et_encode :: "endpoint_addr \<Rightarrow> string"
  et_short :: "endpoint_addr \<Rightarrow> string"

definition dp_usage_lines :: "string list" where
  "dp_usage_lines =
     [''usage:'',
      ''  go-iroh-dumbpipe generate-ticket'',
      ''  go-iroh-dumbpipe listen [-recv-only] [flags]'',
      ''  go-iroh-dumbpipe connect [-recv-only] [flags] <ticket>'',
      ''  go-iroh-dumbpipe listen-tcp -host host:port [flags]'',
      ''  go-iroh-dumbpipe connect-tcp -addr addr:port [flags] <ticket>'',
      ''  go-iroh-dumbpipe listen-unix -socket-path path [flags]'',
      ''  go-iroh-dumbpipe connect-unix -socket-path path [flags] <ticket>'',
      [],
      ''Flags: -ipv4-addr addr:port, -ipv6-addr addr:port, -custom-alpn utf8:<text>|<hex>,'',
      ''-no-relay, -v. IROH_SECRET sets the secret key.'',
      ''With no arguments both halves run in one process over loopback.'']"

definition dp_usage :: "'a io" where
  "dp_usage = go_then (eprintln_all dp_usage_lines) (go_fail ErrUsage)"

text \<open>\<^verbatim>\<open>secretKey\<close>: as sendme's, with a new key always shown.\<close>

definition dp_secret_key :: "call world \<Rightarrow> string io" where
  "dp_secret_key W = secret_key W True"

definition generate_ticket :: "call world \<Rightarrow> ticket_lib \<Rightarrow> unit io" where
  "generate_ticket W T =
     go_try (dp_secret_key W) (\<lambda>sk.
     go_try (query W got_text (Os (PublicID sk))) (\<lambda>i.
     println (et_encode T (NewAddr i))))"

text \<open>The relay URLs of the ticket; a command without a ticket has the zero address.\<close>

definition ticket_relays :: "call world \<Rightarrow> config \<Rightarrow> string list io" where
  "ticket_relays W cfg =
     (case cfg_ticket cfg of None \<Rightarrow> go_ret [] | Some a \<Rightarrow> query W got_texts (Net (RelayURLs a)))"

definition dp_bind :: "call world \<Rightarrow> config \<Rightarrow> string list \<Rightarrow> nat io" where
  "dp_bind W cfg alpns =
     go_try (dp_secret_key W) (\<lambda>sk.
     go_try
       (if cfg_ipv4 cfg \<noteq> [] \<and> cfg_ipv6 cfg \<noteq> [] then
          go_fail (Err ''go-iroh binds one socket: give -ipv4-addr or -ipv6-addr, not both'')
        else if cfg_ipv4 cfg \<noteq> [] \<or> cfg_ipv6 cfg \<noteq> [] then
          go_try (go_wrap ''parse bind address''
            (invoke_get W got_text (Os (ParseText ''addrport'' (cfg_ipv4 cfg @ cfg_ipv6 cfg)))))
            (\<lambda>ap. go_ret [WithBindAddr ap])
        else go_ret []) (\<lambda>addr.
     go_try (ticket_relays W cfg) (\<lambda>relays.
     invoke W (Net (Bind ([WithSecretKey sk] @ (if alpns = [] then [] else [WithALPNs alpns]) @ addr @
       (if cfg_no_relay cfg then []
        else if relays \<noteq> [] then [WithRelayMode (RelayCustom relays)]
        else [WithRelayMode RelayDefault])))))))"

definition interface_addrs :: "iface_info list \<Rightarrow> bool \<Rightarrow> string list" where
  "interface_addrs ifaces v4only =
     concat (map (\<lambda>ifc. if \<not> ifc_up ifc then []
        else concat (map (\<lambda>a. case a of
            None \<Rightarrow> []
          | Some p \<Rightarrow> if pre_link_local p \<or> v4only \<and> \<not> pre_is4 p then [] else [pre_text p]) (ifc_addrs ifc))) ifaces)"

definition dp_ticket_addr :: "call world \<Rightarrow> net_view \<Rightarrow> nat \<Rightarrow> endpoint_addr io" where
  "dp_ticket_addr W N ep =
     go_try (query W got_text (Net (EndpointID ep))) (\<lambda>i.
     go_try (query W got_texts (Net (RelayURLs (AddrOf ep)))) (\<lambda>urls.
     go_try (query W got_texts (Net (IPAddrs (AddrOf ep)))) (\<lambda>ips.
     go_try (query W (\<lambda>_ h _. bound_addr N h ep) (Net (LocalAddr ep))) (\<lambda>bound.
     let addr = foldl WithIP (foldl WithRelayURL (NewAddr i) urls) ips in
     if loc_unspecified bound then
       go_try (query W (\<lambda>_ h _. interfaces N h) (Os Interfaces)) (\<lambda>ifaces.
       go_ret (foldl WithIP addr (map (\<lambda>ip. addr_port N ip (loc_port bound)) (interface_addrs ifaces (loc_is4 bound)))))
     else go_ret addr))))"

definition listener_lines :: "config \<Rightarrow> string \<Rightarrow> string \<Rightarrow> string list" where
  "listener_lines cfg ticket short =
     (if cfg_cmd cfg = ''listen'' then
        [''Listening. To connect, use:'', ''dumbpipe connect '' @ ticket] @
        (if cfg_verbose cfg then [''or:'', ''dumbpipe connect '' @ short] else [])
      else if cfg_cmd cfg = ''listen-tcp'' then
        [''Forwarding incoming requests to '' @ [CHR 0x27] @ cfg_host cfg @ [CHR 0x27] @ ''.'',
         ''To connect, use e.g.:'', ''dumbpipe connect-tcp '' @ ticket] @
        (if cfg_verbose cfg then [''or:'', ''dumbpipe connect-tcp '' @ short] else [])
      else if cfg_cmd cfg = ''listen-unix'' then
        [''Forwarding incoming requests to '' @ [CHR 0x27] @ cfg_socket_path cfg @ [CHR 0x27] @ ''.'',
         ''To connect, use e.g.:'',
         ''dumbpipe connect-unix --socket-path /path/to/client.sock '' @ ticket,
         ''dumbpipe connect-tcp --addr 127.0.0.1:8080 '' @ ticket]
      else [])"

text \<open>From the bound endpoint on nothing fails.\<close>

definition announce_listener :: "call world \<Rightarrow> ticket_lib \<Rightarrow> net_view \<Rightarrow> config \<Rightarrow> nat \<Rightarrow> unit io" where
  "announce_listener W T N cfg ep =
     go_then (if cfg_no_relay cfg then go_ret ()
              else go_catch (invoke W (Net (Online ep))) (\<lambda>r.
                case r of Inl e \<Rightarrow> eprintln ''Warning: Failed to connect to the home relay'' | Inr _ \<Rightarrow> go_ret ()))
     (go_try (dp_ticket_addr W N ep) (\<lambda>addr.
      go_then (eprintln_all (listener_lines cfg (et_encode T addr) (et_short T addr))) (go_ret ())))"

definition bind_listener :: "call world \<Rightarrow> ticket_lib \<Rightarrow> net_view \<Rightarrow> config \<Rightarrow> nat io" where
  "bind_listener W T N cfg =
     go_try (go_lift (pipe_alpn (cfg_custom_alpn cfg))) (\<lambda>(alpn, hs).
     go_try (dp_bind W cfg [alpn]) (\<lambda>ep.
     go_try (announce_listener W T N cfg ep) (\<lambda>_.
     go_ret ep)))"

section \<open>Pipes\<close>

text \<open>A stream that is refused is cancelled in both directions, code 0.\<close>

definition cancel_stream :: "call world \<Rightarrow> nat \<Rightarrow> nat \<Rightarrow> unit io" where
  "cancel_stream W s code =
     go_then (invoke W (Net (CancelRead s code))) (go_then (invoke W (Net (CancelWrite s code))) (go_ret ()))"

definition accept_pipe :: "call world \<Rightarrow> nat \<Rightarrow> bool \<Rightarrow> nat io" where
  "accept_pipe W conn hs =
     go_try (invoke W (Net (AcceptStream conn))) (\<lambda>s.
     if hs then
       go_catch (on_stream W s read_handshake) (\<lambda>r.
       case r of
         Inl e \<Rightarrow> go_then (cancel_stream W s 0) (go_fail e)
       | Inr _ \<Rightarrow> go_ret s)
     else go_ret s)"

definition open_pipe :: "call world \<Rightarrow> nat \<Rightarrow> bool \<Rightarrow> nat io" where
  "open_pipe W conn hs =
     go_try (invoke W (Net (OpenStream conn))) (\<lambda>s.
     if hs then go_try (on_stream W s write_handshake) (\<lambda>_. go_ret s) else go_ret s)"

text \<open>
  \<^verbatim>\<open>io.Copy\<close>: the chunks the source gives, each written, then how reading ends. No input
  ends at once.
\<close>

definition copy_pipe :: "call world \<Rightarrow> pipe_end \<Rightarrow> pipe_end \<Rightarrow> unit io" where
  "copy_pipe W dst src =
     (if src = NoInput then go_ret ()
      else
        go_try (query W (\<lambda>W h c. map bytes_of (got_texts W h c)) (Os (ReadChunks src))) (\<lambda>cs.
        go_try (deliver (\<lambda>u p. go_try (invoke W (Os (WriteEnd dst p))) (\<lambda>_. go_ret u)) () cs) (\<lambda>_.
        go_try (invoke W (Os (ReadEnd src))) (\<lambda>_.
        go_ret ()))))"

definition has_close_write :: "pipe_end \<Rightarrow> bool" where
  "has_close_write dst = (case dst of LocalConn n \<Rightarrow> True | PipeStream n \<Rightarrow> True | _ \<Rightarrow> False)"

fun err_of :: "gerr + 'a \<Rightarrow> gerr option" where
  "err_of (Inl e) = Some e"
| "err_of (Inr x) = None"

definition copy_up :: "call world \<Rightarrow> pipe_end \<Rightarrow> nat \<Rightarrow> gerr option io" where
  "copy_up W src s =
     go_catch (copy_pipe W (PipeStream s) src) (\<lambda>r.
     go_catch (invoke W (Os (CloseEnd (PipeStream s)))) (\<lambda>r2.
     go_ret (case r of Inl e \<Rightarrow> Some e | Inr _ \<Rightarrow> err_of r2)))"

definition copy_down :: "call world \<Rightarrow> pipe_end \<Rightarrow> nat \<Rightarrow> gerr option io" where
  "copy_down W dst s =
     go_catch (copy_pipe W dst (PipeStream s)) (\<lambda>r.
     go_then (if has_close_write dst then invoke W (Os (CloseEnd dst)) else go_ret 0)
     (go_ret (err_of r)))"

text \<open>\<open>up_first\<close>: which of the two goroutines is over first.\<close>

definition forward :: "call world \<Rightarrow> bool \<Rightarrow> pipe_end \<Rightarrow> pipe_end \<Rightarrow> nat \<Rightarrow> unit io" where
  "forward W up_first src dst s =
     (let legs = (if up_first then (copy_up W src s, copy_down W dst s) else (copy_down W dst s, copy_up W src s)) in
      go_try (fst legs) (\<lambda>e1.
      go_try (snd legs) (\<lambda>e2.
      case first_err [e1, e2] of None \<Rightarrow> go_ret () | Some e \<Rightarrow> go_fail e)))"

text \<open>\<^verbatim>\<open>linger\<close>: the peer's close or the timeout, whichever is first.\<close>

definition linger :: "call world \<Rightarrow> nat \<Rightarrow> nat io" where
  "linger W conn = query W got_nat (Net (WaitClosed conn))"

definition stdin_of :: "config \<Rightarrow> pipe_end" where
  "stdin_of cfg = (if cfg_recv_only cfg then NoInput else Stdin)"

definition dial :: "call world \<Rightarrow> nat \<Rightarrow> endpoint_addr \<Rightarrow> string \<Rightarrow> nat io" where
  "dial W ep addr alpn =
     go_try (query W got_texts (Net (RelayURLs addr))) (\<lambda>urls.
     go_try (query W got_texts (Net (IPAddrs addr))) (\<lambda>ips.
     go_try (if urls \<noteq> [] \<and> ips = [] then go_wrap ''connect to relay'' (invoke W (Net (Online ep))) else go_ret 0) (\<lambda>_.
     go_try (query W got_text (Net (ShortID addr))) (\<lambda>short.
     go_wrap (''connect to '' @ short) (invoke W (Net (Connect ep addr alpn)))))))"

section \<open>The commands\<close>

definition wants_handshake :: "config \<Rightarrow> bool" where
  "wants_handshake cfg = (case pipe_alpn (cfg_custom_alpn cfg) of Inl e \<Rightarrow> False | Inr (a, hs) \<Rightarrow> hs)"

definition ticket_of :: "config \<Rightarrow> endpoint_addr" where
  "ticket_of cfg = (case cfg_ticket cfg of None \<Rightarrow> NewAddr [] | Some a \<Rightarrow> a)"

definition close_conn :: "call world \<Rightarrow> nat \<Rightarrow> nat io" where
  "close_conn W conn = invoke W (Net (CloseConn conn 0 []))"

text \<open>The pipe, then the wait for the peer's close, then the pipe's own result.\<close>

definition pipe_and_linger :: "call world \<Rightarrow> bool \<Rightarrow> pipe_end \<Rightarrow> pipe_end \<Rightarrow> nat \<Rightarrow> nat \<Rightarrow> unit io" where
  "pipe_and_linger W up src dst conn s =
     go_catch (forward W up src dst s) (\<lambda>r. go_then (linger W conn) (go_lift r))"

definition dp_listen :: "call world \<Rightarrow> ticket_lib \<Rightarrow> net_view \<Rightarrow> nat \<Rightarrow> bool \<Rightarrow> config \<Rightarrow> unit io" where
  "dp_listen W T N fuel up cfg =
     go_try (bind_listener W T N cfg) (\<lambda>ep.
     go_defer (shutdown W ep)
       (go_loop fuel (\<lambda>_.
          go_try (invoke W (Net (Accept ep))) (\<lambda>conn.
          go_catch (accept_pipe W conn (wants_handshake cfg)) (\<lambda>r.
          case r of
            Inl e \<Rightarrow> go_then (eprintln (''error accepting stream: '' @ err_text e)) (go_ret (Inr ()))
          | Inr s \<Rightarrow>
            go_defer (close_conn W conn)
              (go_try (pipe_and_linger W up (stdin_of cfg) Stdout conn s) (\<lambda>_. go_ret (Inl ())))))) ()))"

definition dp_connect :: "call world \<Rightarrow> bool \<Rightarrow> config \<Rightarrow> unit io" where
  "dp_connect W up cfg =
     go_try (go_lift (pipe_alpn (cfg_custom_alpn cfg))) (\<lambda>(alpn, hs).
     go_try (dp_bind W cfg []) (\<lambda>ep.
     go_defer (shutdown W ep)
       (go_try (dial W ep (ticket_of cfg) alpn) (\<lambda>conn.
        go_defer (close_conn W conn)
          (go_try (open_pipe W conn hs) (\<lambda>s.
           pipe_and_linger W up (stdin_of cfg) Stdout conn s))))))"

definition forward_local :: "call world \<Rightarrow> bool \<Rightarrow> string \<Rightarrow> string \<Rightarrow> nat \<Rightarrow> unit io" where
  "forward_local W up network target s =
     go_catch (invoke W (Os (DialLocal network target))) (\<lambda>r.
     case r of
       Inl e \<Rightarrow> go_then (cancel_stream W s 0) (go_fail e)
     | Inr l \<Rightarrow> go_defer (invoke W (Os (CloseLocal l))) (forward W up (LocalConn l) (LocalConn l) s))"

text \<open>An error is a line on standard error, and the loop goes on.\<close>

definition report :: "unit io \<Rightarrow> unit io" where
  "report m = go_catch m (\<lambda>r. case r of
     Inl e \<Rightarrow> eprintln (''error handling connection: '' @ err_text e) | Inr _ \<Rightarrow> go_ret ())"

definition forward_conn :: "call world \<Rightarrow> nat \<Rightarrow> bool \<Rightarrow> bool \<Rightarrow> string \<Rightarrow> string \<Rightarrow> nat \<Rightarrow> unit io" where
  "forward_conn W fuel up hs network target conn =
     go_defer (close_conn W conn)
       (go_loop fuel (\<lambda>_.
          go_catch (accept_pipe W conn hs) (\<lambda>r.
          case r of
            Inl e \<Rightarrow>
              go_try (query W got_flag (Net (ConnErr conn))) (\<lambda>closed.
              go_try (query W got_flag (Os CtxErr)) (\<lambda>cancelled.
              go_then (if \<not> closed \<and> \<not> cancelled
                       then eprintln (''error accepting stream: '' @ err_text e) else go_ret ())
              (go_ret (Inl ()))))
          | Inr s \<Rightarrow> go_then (report (forward_local W up network target s)) (go_ret (Inr ())))) ())"

definition dp_listen_forward :: "call world \<Rightarrow> ticket_lib \<Rightarrow> net_view \<Rightarrow> nat \<Rightarrow> bool \<Rightarrow> config \<Rightarrow> unit io" where
  "dp_listen_forward W T N fuel up cfg =
     (let network = (if cfg_cmd cfg = ''listen-unix'' then ''unix'' else ''tcp'');
          target = (if cfg_cmd cfg = ''listen-unix'' then cfg_socket_path cfg else cfg_host cfg) in
      go_try (bind_listener W T N cfg) (\<lambda>ep.
      go_defer (shutdown W ep)
        (go_loop fuel (\<lambda>_.
           go_catch (invoke W (Net (Accept ep))) (\<lambda>r.
           case r of
             Inl e \<Rightarrow> go_try (query W got_flag (Os CtxErr)) (\<lambda>cancelled.
                      if cancelled then go_ret (Inl ()) else go_fail e)
           | Inr conn \<Rightarrow>
             go_then (forward_conn W fuel up (wants_handshake cfg) network target conn) (go_ret (Inr ())))) ())))"

text \<open>\<^verbatim>\<open>acceptLocal\<close>; the goroutine that closes the listener does so when the context is done.\<close>

definition accept_local :: "call world \<Rightarrow> nat \<Rightarrow> nat \<Rightarrow> (nat \<Rightarrow> unit io) \<Rightarrow> unit io" where
  "accept_local W fuel ln handle =
     go_loop fuel (\<lambda>_.
       go_catch (invoke W (Os (AcceptLocal ln))) (\<lambda>r.
       case r of
         Inl e \<Rightarrow>
           go_try (query W got_flag (Os CtxErr)) (\<lambda>cancelled.
           if cancelled then go_then (invoke W (Os (CloseListener ln))) (go_ret (Inl ())) else go_fail e)
       | Inr l \<Rightarrow>
           go_defer (invoke W (Os (CloseLocal l)))
             (go_then (report (handle l)) (go_ret (Inr ()))))) ()"

definition dp_connect_tcp :: "call world \<Rightarrow> nat \<Rightarrow> bool \<Rightarrow> config \<Rightarrow> unit io" where
  "dp_connect_tcp W fuel up cfg =
     go_try (go_lift (pipe_alpn (cfg_custom_alpn cfg))) (\<lambda>(alpn, hs).
     go_try (dp_bind W cfg []) (\<lambda>ep.
     go_defer (shutdown W ep)
       (go_try (invoke W (Os (Listen ''tcp'' (cfg_addr cfg)))) (\<lambda>ln.
        accept_local W fuel ln (\<lambda>l.
          go_try (dial W ep (ticket_of cfg) alpn) (\<lambda>conn.
          go_defer (close_conn W conn)
            (go_try (open_pipe W conn hs) (\<lambda>s.
             pipe_and_linger W up (LocalConn l) (LocalConn l) conn s))))))))"

text \<open>A socket file that is not there is no error.\<close>

definition remove_socket :: "call world \<Rightarrow> string \<Rightarrow> unit io" where
  "remove_socket W path =
     go_catch (invoke W (Os (Remove path))) (\<lambda>r.
     case r of
       Inl e \<Rightarrow> if err_is ErrNotExist e then go_ret () else go_fail (Wrapf ''remove existing socket file'' e)
     | Inr _ \<Rightarrow> go_ret ())"

definition dp_connect_unix :: "call world \<Rightarrow> nat \<Rightarrow> bool \<Rightarrow> config \<Rightarrow> unit io" where
  "dp_connect_unix W fuel up cfg =
     go_try (go_lift (pipe_alpn (cfg_custom_alpn cfg))) (\<lambda>(alpn, hs).
     go_try (dp_bind W cfg []) (\<lambda>ep.
     go_defer (shutdown W ep)
       (go_try (remove_socket W (cfg_socket_path cfg)) (\<lambda>_.
        go_try (dial W ep (ticket_of cfg) alpn) (\<lambda>conn.
        go_defer (close_conn W conn)
          (go_try (invoke W (Os (Listen ''unix'' (cfg_socket_path cfg)))) (\<lambda>ln.
           accept_local W fuel ln (\<lambda>l.
             go_try (open_pipe W conn hs) (\<lambda>s.
             forward W up (LocalConn l) (LocalConn l) s)))))))))"

section \<open>The demo\<close>

text \<open>The listening goroutine, which runs where its result is awaited.\<close>

definition dp_demo_server :: "call world \<Rightarrow> nat \<Rightarrow> unit io" where
  "dp_demo_server W server =
     go_try (invoke W (Net (Accept server))) (\<lambda>conn.
     go_try (accept_pipe W conn True) (\<lambda>s.
     copy_pipe W Stdout (PipeStream s)))"

abbreviation (input) dp_bind_loopback where
  "dp_bind_loopback \<equiv> bind_loopback"

definition dp_demo :: "call world \<Rightarrow> unit io" where
  "dp_demo W =
     (let input = ''pipe hello'' @ [CHR 0x0A] in
      go_try (dp_bind_loopback W [WithALPNs [dumbpipe_alpn]]) (\<lambda>server.
      go_defer (shutdown W server)
        (go_try (dp_bind_loopback W []) (\<lambda>client.
         go_defer (shutdown W client)
           (go_try (invoke W (Net (Connect client (AddrOf server) dumbpipe_alpn))) (\<lambda>conn.
            go_defer (close_conn W conn)
              (go_try (open_pipe W conn True) (\<lambda>s.
               go_try (invoke W (Net (Write s (bytes_of input)))) (\<lambda>_.
               go_try (invoke W (Net (CloseWrite s))) (\<lambda>_.
               go_try (dp_demo_server W server) (\<lambda>_.
               println (''bytes piped: '' @ digits_of (length input)))))))))))))"

section \<open>The command line\<close>

definition common_flags :: flag_set where
  "common_flags =
     [(''ipv4-addr'', FString), (''ipv6-addr'', FString), (''custom-alpn'', FString),
      (''no-relay'', FBool), (''v'', FBool)]"

text \<open>The flags of a command and whether it takes a ticket.\<close>

definition command_flags :: "string \<Rightarrow> (flag_set \<times> bool) option" where
  "command_flags cmd =
     (if cmd = ''listen'' then Some (common_flags @ [(''recv-only'', FBool)], False)
      else if cmd = ''connect'' then Some (common_flags @ [(''recv-only'', FBool)], True)
      else if cmd = ''listen-tcp'' then Some (common_flags @ [(''host'', FString)], False)
      else if cmd = ''connect-tcp'' then Some (common_flags @ [(''addr'', FString)], True)
      else if cmd = ''listen-unix'' then Some (common_flags @ [(''socket-path'', FString)], False)
      else if cmd = ''connect-unix'' then Some (common_flags @ [(''socket-path'', FString)], True)
      else None)"

definition config_of :: "string \<Rightarrow> flag_values \<Rightarrow> config" where
  "config_of cmd vals =
     \<lparr>cfg_cmd = cmd, cfg_ipv4 = flag_value vals ''ipv4-addr'' [], cfg_ipv6 = flag_value vals ''ipv6-addr'' [],
      cfg_custom_alpn = flag_value vals ''custom-alpn'' [], cfg_no_relay = flag_bool vals ''no-relay'',
      cfg_verbose = flag_bool vals ''v'', cfg_recv_only = flag_bool vals ''recv-only'',
      cfg_host = flag_value vals ''host'' [], cfg_addr = flag_value vals ''addr'' [],
      cfg_socket_path = flag_value vals ''socket-path'' [], cfg_ticket = None\<rparr>"

definition missing_target :: "config \<Rightarrow> bool" where
  "missing_target cfg \<longleftrightarrow>
     cfg_cmd cfg = ''listen-tcp'' \<and> cfg_host cfg = [] \<or>
     cfg_cmd cfg = ''connect-tcp'' \<and> cfg_addr cfg = [] \<or>
     has_suffix ''-unix'' (cfg_cmd cfg) \<and> cfg_socket_path cfg = []"

definition dp_dispatch :: "call world \<Rightarrow> ticket_lib \<Rightarrow> net_view \<Rightarrow> nat \<Rightarrow> bool \<Rightarrow> config \<Rightarrow> unit io" where
  "dp_dispatch W T N fuel up cfg =
     (if cfg_cmd cfg = ''listen'' then dp_listen W T N fuel up cfg
      else if cfg_cmd cfg = ''connect'' then dp_connect W up cfg
      else if cfg_cmd cfg = ''listen-tcp'' \<or> cfg_cmd cfg = ''listen-unix'' then dp_listen_forward W T N fuel up cfg
      else if cfg_cmd cfg = ''connect-tcp'' then dp_connect_tcp W fuel up cfg
      else dp_connect_unix W fuel up cfg)"

abbreviation (input) dp_parse_args where
  "dp_parse_args \<equiv> parse_args"

definition dp_command :: "call world \<Rightarrow> ticket_lib \<Rightarrow> net_view \<Rightarrow> nat \<Rightarrow> bool \<Rightarrow> string \<Rightarrow> string list \<Rightarrow> unit io" where
  "dp_command W T N fuel up cmd args =
     (case command_flags cmd of
        None \<Rightarrow> dp_usage
      | Some (fs, want_ticket) \<Rightarrow>
        (case dp_parse_args fs [] [] args of
           Inl e \<Rightarrow> if err_is ErrHelp e then go_fail e else dp_usage
         | Inr (pos, vals) \<Rightarrow>
           (let cfg = config_of cmd vals in
            if length pos \<noteq> (if want_ticket then 1 else 0) then dp_usage
            else if missing_target cfg then dp_usage
            else
              go_try (if want_ticket
                      then go_try (go_wrap ''parse ticket'' (go_lift (et_decode T (hd pos)))) (\<lambda>a. go_ret (Some a))
                      else go_ret None) (\<lambda>t.
              go_try (query W got_nat (Os NotifyContext)) (\<lambda>_.
              dp_dispatch W T N fuel up (cfg\<lparr>cfg_ticket := t\<rparr>))))))"

definition dp_run :: "call world \<Rightarrow> ticket_lib \<Rightarrow> net_view \<Rightarrow> nat \<Rightarrow> bool \<Rightarrow> string list \<Rightarrow> unit io" where
  "dp_run W T N fuel up args =
     (case args of
        [] \<Rightarrow> dp_demo W
      | cmd # rest \<Rightarrow>
        if cmd \<in> set [''-h'', ''-help'', ''--help''] then go_fail ErrHelp
        else if cmd = ''generate-ticket'' then generate_ticket W T
        else dp_command W T N fuel up cmd rest)"

definition dp_main :: "unit io \<Rightarrow> io_hist \<Rightarrow> nat \<times> io_hist" where
  "dp_main m h =
     (case m h of
        (Inr _, h') \<Rightarrow> (0, h')
      | (Inl e, h') \<Rightarrow>
        if err_is ErrHelp e then (0, snd (println_all dp_usage_lines h'))
        else if err_is ErrUsage e then (1, h')
        else (1, ErrOut (''error: '' @ err_text e) # h'))"

section \<open>What is given back\<close>

text \<open>Local connections as owned objects, next to the endpoints.\<close>

fun opens_local :: "call \<Rightarrow> nat \<Rightarrow> nat set" where
  "opens_local (Os (DialLocal network target)) n = {n}"
| "opens_local (Os (AcceptLocal ln)) n = {n}"
| "opens_local c n = {}"

fun frees_local :: "call \<Rightarrow> nat set" where
  "frees_local (Os (CloseLocal n)) = {n}"
| "frees_local c = {}"

interpretation local_dial: discipline opens_local frees_local
  "\<lambda>nt. Os (DialLocal (fst nt) (snd nt))" "\<lambda>nt n. Os (CloseLocal n)"
  by unfold_locales simp_all

interpretation local_accept: discipline opens_local frees_local
  "\<lambda>ln. Os (AcceptLocal ln)" "\<lambda>ln n. Os (CloseLocal n)"
  by unfold_locales simp_all

definition locals_open :: "io_hist \<Rightarrow> nat set" where
  "locals_open h = leaked opens_local frees_local h"

lemma drops_close_local: "drops opens_local frees_local {n} (invoke W (Os (CloseLocal n)))"
  by (rule drops_mono [OF drops_invoke]) simp_all

lemma locals_on_stream: "owns opens_local frees_local {} (on_stream W s m) (\<lambda>_. {})"
  by (auto simp: owns_def on_stream_def split: prod.splits sum.splits)

lemmas dp_rules = owns_on_stream locals_on_stream owns_loop owns_deliver owns_eprintln_all plain_rules

lemma owns_announce_listener: "owns opens_endpoint frees_endpoint {} (announce_listener W T N cfg ep) (\<lambda>_. {})"
  unfolding announce_listener_def dp_ticket_addr_def Let_def by (rule dp_rules | simp)+

lemma locals_announce_listener: "owns opens_local frees_local {} (announce_listener W T N cfg ep) (\<lambda>_. {})"
  unfolding announce_listener_def dp_ticket_addr_def Let_def by (rule dp_rules | simp)+

lemma succeeds_announce_listener: "succeeds (announce_listener W T N cfg ep)"
  unfolding announce_listener_def dp_ticket_addr_def by (rule succeeds_rules)+

lemma owns_dp_bind: "owns opens_endpoint frees_endpoint {} (dp_bind W cfg alpns) (\<lambda>n. {n})"
  unfolding dp_bind_def dp_secret_key_def ticket_relays_def
  by (rule owns_quiet_try owns_secret_key owns_wrap owns_cases owns_ret owns_fail owns_invoke_get owns_query
      owns_weaken [OF owns_invoke_open] | simp)+

lemma locals_secret_key: "owns opens_local frees_local {} (secret_key W b) (\<lambda>_. {})"
  unfolding secret_key_def by (rule dp_rules | simp)+

lemma locals_dp_bind: "owns opens_local frees_local {} (dp_bind W cfg alpns) (\<lambda>_. {})"
  unfolding dp_bind_def dp_secret_key_def ticket_relays_def
  by (rule locals_secret_key dp_rules | simp)+

lemma owns_bind_listener: "owns opens_endpoint frees_endpoint {} (bind_listener W T N cfg) (\<lambda>n. {n})"
  unfolding bind_listener_def
  by (rule owns_try_safe [OF succeeds_no_error [OF succeeds_announce_listener] owns_announce_listener]
      owns_try [OF owns_dp_bind] owns_quiet_try owns_lift owns_cases owns_ret | simp)+

lemma locals_bind_listener: "owns opens_local frees_local {} (bind_listener W T N cfg) (\<lambda>_. {})"
  unfolding bind_listener_def by (rule locals_announce_listener locals_dp_bind dp_rules | simp)+

lemma owns_accept_pipe: "owns opens_endpoint frees_endpoint {} (accept_pipe W conn hs) (\<lambda>_. {})"
  unfolding accept_pipe_def cancel_stream_def by (rule dp_rules | simp)+

lemma locals_accept_pipe: "owns opens_local frees_local {} (accept_pipe W conn hs) (\<lambda>_. {})"
  unfolding accept_pipe_def cancel_stream_def by (rule dp_rules | simp)+

lemma owns_open_pipe: "owns opens_endpoint frees_endpoint {} (open_pipe W conn hs) (\<lambda>_. {})"
  unfolding open_pipe_def by (rule dp_rules | simp)+

lemma locals_open_pipe: "owns opens_local frees_local {} (open_pipe W conn hs) (\<lambda>_. {})"
  unfolding open_pipe_def by (rule dp_rules | simp)+

lemma owns_copy_pipe: "owns opens_endpoint frees_endpoint {} (copy_pipe W dst src) (\<lambda>_. {})"
  unfolding copy_pipe_def by (rule dp_rules | simp)+

lemma locals_copy_pipe: "owns opens_local frees_local {} (copy_pipe W dst src) (\<lambda>_. {})"
  unfolding copy_pipe_def by (rule dp_rules | simp)+

lemma owns_forward: "owns opens_endpoint frees_endpoint {} (forward W up src dst s) (\<lambda>_. {})"
proof -
  have legs: "owns opens_endpoint frees_endpoint {} (copy_up W src s) (\<lambda>_. {})"
    "owns opens_endpoint frees_endpoint {} (copy_down W dst s) (\<lambda>_. {})"
    unfolding copy_up_def copy_down_def by (rule owns_copy_pipe dp_rules | simp)+
  show ?thesis
    unfolding forward_def Let_def by (cases up; simp, (rule legs dp_rules | simp)+)
qed

lemma locals_forward: "owns opens_local frees_local {} (forward W up src dst s) (\<lambda>_. {})"
proof -
  have legs: "owns opens_local frees_local {} (copy_up W src s) (\<lambda>_. {})"
    "owns opens_local frees_local {} (copy_down W dst s) (\<lambda>_. {})"
    unfolding copy_up_def copy_down_def by (rule locals_copy_pipe dp_rules | simp)+
  show ?thesis
    unfolding forward_def Let_def by (cases up; simp, (rule legs dp_rules | simp)+)
qed

lemma owns_dial: "owns opens_endpoint frees_endpoint {} (dial W ep addr alpn) (\<lambda>_. {})"
  unfolding dial_def by (rule dp_rules | simp)+

lemma locals_dial: "owns opens_local frees_local {} (dial W ep addr alpn) (\<lambda>_. {})"
  unfolding dial_def by (rule dp_rules | simp)+

lemmas owns_pipes = owns_accept_pipe owns_open_pipe owns_copy_pipe owns_forward owns_dial
  owns_defer [OF drops_shutdown] owns_try [OF owns_bind_listener] owns_try [OF owns_dp_bind]
  owns_try [OF owns_bind]

lemmas locals_pipes = locals_accept_pipe locals_open_pipe locals_copy_pipe locals_forward locals_dial
  locals_bind_listener locals_dp_bind

lemmas dp_helpers = pipe_and_linger_def linger_def close_conn_def report_def remove_socket_def cancel_stream_def

lemma owns_forward_conn: "owns opens_endpoint frees_endpoint {} (forward_conn W fuel up hs network target conn) (\<lambda>_. {})"
  unfolding forward_conn_def forward_local_def dp_helpers by (rule owns_pipes dp_rules | simp)+

lemma locals_forward_conn: "owns opens_local frees_local {} (forward_conn W fuel up hs network target conn) (\<lambda>_. {})"
  unfolding forward_conn_def forward_local_def dp_helpers
  by (rule owns_defer [OF drops_close_local] owns_catch [OF owns_invoke_open] locals_pipes dp_rules | simp)+

lemma owns_accept_local:
  assumes "\<And>l. owns opens_endpoint frees_endpoint {} (handle l) (\<lambda>_. {})"
  shows "owns opens_endpoint frees_endpoint {} (accept_local W fuel ln handle) (\<lambda>_. {})"
  unfolding accept_local_def dp_helpers by (rule assms owns_pipes dp_rules | simp)+

lemma locals_accept_local:
  assumes "\<And>l. owns opens_local frees_local {} (handle l) (\<lambda>_. {})"
  shows "owns opens_local frees_local {} (accept_local W fuel ln handle) (\<lambda>_. {})"
  unfolding accept_local_def dp_helpers
  by (simp only: sum.case Un_empty_left | rule assms owns_defer [OF drops_close_local] owns_catch [OF owns_invoke_open] locals_pipes dp_rules | simp)+

lemma owns_dp_dispatch: "owns opens_endpoint frees_endpoint {} (dp_dispatch W T N fuel up cfg) (\<lambda>_. {})"
proof -
  have listen: "owns opens_endpoint frees_endpoint {} (dp_listen W T N fuel up cfg) (\<lambda>_. {})"
    unfolding dp_listen_def dp_helpers by (rule owns_pipes dp_rules | simp)+
  have connect: "owns opens_endpoint frees_endpoint {} (dp_connect W up cfg) (\<lambda>_. {})"
    unfolding dp_connect_def dp_helpers by (rule owns_pipes dp_rules | simp)+
  have fwd: "owns opens_endpoint frees_endpoint {} (dp_listen_forward W T N fuel up cfg) (\<lambda>_. {})"
    unfolding dp_listen_forward_def Let_def by (rule owns_forward_conn owns_pipes dp_rules | simp only: sum.case Un_empty_left Diff_cancel | simp; fail)+
  have tcp: "owns opens_endpoint frees_endpoint {} (dp_connect_tcp W fuel up cfg) (\<lambda>_. {})"
    unfolding dp_connect_tcp_def dp_helpers by (rule owns_accept_local owns_pipes dp_rules | simp)+
  have unix: "owns opens_endpoint frees_endpoint {} (dp_connect_unix W fuel up cfg) (\<lambda>_. {})"
    unfolding dp_connect_unix_def dp_helpers by (rule owns_accept_local owns_pipes dp_rules | simp)+
  show ?thesis
    unfolding dp_dispatch_def by (rule owns_if listen connect fwd tcp unix)+
qed

lemma locals_dp_dispatch: "owns opens_local frees_local {} (dp_dispatch W T N fuel up cfg) (\<lambda>_. {})"
proof -
  have down: "owns opens_local frees_local {} (shutdown W n) (\<lambda>_. {})" for n
    unfolding shutdown_def by (rule owns_invoke) simp
  have listen: "owns opens_local frees_local {} (dp_listen W T N fuel up cfg) (\<lambda>_. {})"
    unfolding dp_listen_def dp_helpers by (rule down locals_pipes dp_rules | simp)+
  have connect: "owns opens_local frees_local {} (dp_connect W up cfg) (\<lambda>_. {})"
    unfolding dp_connect_def dp_helpers by (rule down locals_pipes dp_rules | simp)+
  have fwd: "owns opens_local frees_local {} (dp_listen_forward W T N fuel up cfg) (\<lambda>_. {})"
    unfolding dp_listen_forward_def Let_def
    by (rule down locals_forward_conn locals_pipes dp_rules | simp only: sum.case Un_empty_left Diff_cancel | simp; fail)+
  have tcp: "owns opens_local frees_local {} (dp_connect_tcp W fuel up cfg) (\<lambda>_. {})"
    unfolding dp_connect_tcp_def dp_helpers by (rule down locals_accept_local locals_pipes dp_rules | simp)+
  have unix: "owns opens_local frees_local {} (dp_connect_unix W fuel up cfg) (\<lambda>_. {})"
    unfolding dp_connect_unix_def dp_helpers by (rule down locals_accept_local locals_pipes dp_rules | simp)+
  show ?thesis
    unfolding dp_dispatch_def by (rule owns_if listen connect fwd tcp unix)+
qed

lemma owns_dp_demo: "owns opens_endpoint frees_endpoint {} (dp_demo W) (\<lambda>_. {})"
  unfolding dp_demo_def dp_demo_server_def dp_helpers Let_def
  by (simp only: Diff_cancel | rule owns_pipes dp_rules | simp)+

lemma owns_dp_usage: "owns opens frees {} dp_usage own"
  unfolding dp_usage_def by (rule quiet_then owns_eprintln_all owns_fail | simp)+

lemma owns_dp_run: "owns opens_endpoint frees_endpoint {} (dp_run W T N fuel up args) (\<lambda>_. {})"
  unfolding dp_run_def dp_command_def generate_ticket_def dp_secret_key_def Let_def
  by (rule owns_dp_dispatch owns_dp_demo owns_dp_usage owns_secret_key dp_rules | simp)+

lemma locals_dp_run: "owns opens_local frees_local {} (dp_run W T N fuel up args) (\<lambda>_. {})"
proof -
  have demo: "owns opens_local frees_local {} (dp_demo W) (\<lambda>_. {})"
    unfolding dp_demo_def dp_demo_server_def dp_helpers bind_loopback_def shutdown_def Let_def
    by (rule locals_pipes dp_rules | simp)+
  show ?thesis
    unfolding dp_run_def dp_command_def generate_ticket_def dp_secret_key_def Let_def
    by (rule locals_dp_dispatch demo owns_dp_usage locals_secret_key dp_rules | simp)+
qed

section \<open>Properties\<close>

text \<open>C10. Whatever the command line, the peers and the local sockets do, when dumbpipe's \<^verbatim>\<open>run\<close>
  returns it has shut down every endpoint it bound and closed every local connection it
  accepted or dialled.\<close>

theorem dumbpipe_gives_everything_back:
  "endpoints_open (snd (dp_run W T N fuel up args [])) = {} \<and> locals_open (snd (dp_run W T N fuel up args [])) = {}"
  using owns_leaked [OF owns_dp_run [of W T N fuel up args], of "[]"]
    owns_leaked [OF locals_dp_run [of W T N fuel up args], of "[]"]
  by (simp add: endpoints_open_def locals_open_def)

end
