(* ===== verification/Gateway.thy ===== *)
theory Gateway
  imports SendmeReceive
begin

text \<open>
  \<^verbatim>\<open>cmd/go-iroh-blobs-gateway/main.go\<close>: the HTTP handler that answers from blobs fetched over
  iroh, its two fetches, the provider's store, and the run that asks for each route. Proved:
  what each route answers, that a request refused as malformed has touched nothing, that a
  request closes the connection it opened, and that every link of an index serves its entry.
\<close>

section \<open>Requests and responses\<close>

record request =
  req_method :: string
  req_path :: string

text \<open>
  \<^verbatim>\<open>http.Error\<close>, \<^verbatim>\<open>http.ServeContent\<close> (which answers ranges itself), and the lines of an
  index. \<open>Panic\<close>: an entry without data.
\<close>

datatype response =
    HttpError nat string
  | ServeContent string bytes
  | IndexBody "string list"
  | Panic

definition not_found :: response where
  "not_found = HttpError 404 ''404 page not found''"

text \<open>The blob library's parsers; what a collection fetch delivers is a function of the history.\<close>

record gateway_lib =
  gw_parse_hash :: "string \<Rightarrow> gerr + string"
  gw_decode_ticket :: "string \<Rightarrow> gerr + ticket"
  gw_encode_ticket :: "ticket \<Rightarrow> string"
  gw_collection :: "io_hist \<Rightarrow> string \<Rightarrow> entry list \<times> bytes list"

section \<open>The fetches\<close>

definition get_blob :: "call world \<Rightarrow> nat \<Rightarrow> endpoint_addr \<Rightarrow> string \<Rightarrow> bytes io" where
  "get_blob W ep provider hash =
     go_try (go_wrap ''connect provider'' (invoke W (Net (Connect ep provider blobs_alpn)))) (\<lambda>conn.
     go_defer (invoke W (Net (CloseConn conn 0 [])))
       (go_try (go_wrap ''open blob stream'' (invoke W (Net (OpenStream conn)))) (\<lambda>s.
        go_wrap ''get blob'' (invoke_get W got_bytes (Blob (GetBlob s hash))))))"

definition get_collection ::
  "call world \<Rightarrow> gateway_lib \<Rightarrow> nat \<Rightarrow> endpoint_addr \<Rightarrow> string \<Rightarrow> (entry list \<times> bytes list) io" where
  "get_collection W G ep provider root =
     go_try (go_wrap ''connect provider'' (invoke W (Net (Connect ep provider blobs_alpn)))) (\<lambda>conn.
     go_defer (invoke W (Net (CloseConn conn 0 [])))
       (go_try (go_wrap ''open collection stream'' (invoke W (Net (OpenStream conn)))) (\<lambda>s.
        go_wrap ''get collection'' (invoke_get W (\<lambda>_ h _. gw_collection G h root) (Blob (GetCollection s root))))))"

section \<open>The routes\<close>

text \<open>What fails over iroh is a bad gateway; the rest is answered from what was fetched.\<close>

definition or_bad_gateway :: "'a io \<Rightarrow> ('a \<Rightarrow> response) \<Rightarrow> response io" where
  "or_bad_gateway m k =
     go_catch m (\<lambda>r. go_ret (case r of Inl e \<Rightarrow> HttpError 502 (err_text e) | Inr x \<Rightarrow> k x))"

text \<open>The first entry of the name, with the data at its index.\<close>

fun find_entry :: "string \<Rightarrow> entry list \<Rightarrow> bytes list \<Rightarrow> response" where
  "find_entry name [] data = not_found"
| "find_entry name (e # es) [] = (if fst e = name then Panic else find_entry name es [])"
| "find_entry name (e # es) (b # bs) = (if fst e = name then ServeContent name b else find_entry name es bs)"

definition serve_entry :: "call world \<Rightarrow> gateway_lib \<Rightarrow> nat \<Rightarrow> endpoint_addr \<Rightarrow> string \<Rightarrow> string \<Rightarrow> response io" where
  "serve_entry W G ep provider root name =
     or_bad_gateway (get_collection W G ep provider root) (\<lambda>(es, data). find_entry name es data)"

definition serve_index :: "call world \<Rightarrow> gateway_lib \<Rightarrow> nat \<Rightarrow> ticket \<Rightarrow> response io" where
  "serve_index W G ep t =
     or_bad_gateway (get_collection W G ep (tk_addr t) (tk_hash t)) (\<lambda>(es, data).
       IndexBody (map (\<lambda>e. ''/ticket/'' @ gw_encode_ticket G t @ ''/'' @ fst e) es))"

definition serve_raw :: "call world \<Rightarrow> nat \<Rightarrow> endpoint_addr \<Rightarrow> string \<Rightarrow> response io" where
  "serve_raw W ep provider hash = or_bad_gateway (get_blob W ep provider hash) (ServeContent hash)"

definition serve_blob :: "call world \<Rightarrow> gateway_lib \<Rightarrow> nat \<Rightarrow> endpoint_addr \<Rightarrow> string \<Rightarrow> response io" where
  "serve_blob W G ep provider path =
     (case gw_parse_hash G (trim_prefix ''/blob/'' path) of
        Inl e \<Rightarrow> go_ret (HttpError 400 ''bad blob hash'')
      | Inr hash \<Rightarrow> serve_raw W ep provider hash)"

definition serve_collection :: "call world \<Rightarrow> gateway_lib \<Rightarrow> nat \<Rightarrow> endpoint_addr \<Rightarrow> string \<Rightarrow> response io" where
  "serve_collection W G ep provider path =
     (case cut ''/'' (trim_prefix ''/collection/'' path) of
        (root_text, name, ok) \<Rightarrow>
          if \<not> ok \<or> name = [] then go_ret (HttpError 400 ''bad collection path'')
          else case gw_parse_hash G root_text of
            Inl e \<Rightarrow> go_ret (HttpError 400 ''bad collection hash'')
          | Inr root \<Rightarrow> serve_entry W G ep provider root name)"

definition serve_ticket :: "call world \<Rightarrow> gateway_lib \<Rightarrow> nat \<Rightarrow> string \<Rightarrow> response io" where
  "serve_ticket W G ep path =
     (case cut ''/'' (trim_prefix ''/ticket/'' path) of
        (tt, name, has_name) \<Rightarrow>
          (case gw_decode_ticket G tt of
             Inl e \<Rightarrow> go_ret (HttpError 400 ''bad ticket'')
           | Inr t \<Rightarrow>
             if has_name \<and> name \<noteq> [] then serve_entry W G ep (tk_addr t) (tk_hash t) name
             else if \<not> tk_hash_seq t then serve_raw W ep (tk_addr t) (tk_hash t)
             else serve_index W G ep t))"

definition serve_http :: "call world \<Rightarrow> gateway_lib \<Rightarrow> nat \<Rightarrow> endpoint_addr \<Rightarrow> request \<Rightarrow> response io" where
  "serve_http W G ep provider r =
     (if req_method r \<noteq> ''GET'' then go_ret (HttpError 405 ''method not allowed'')
      else if has_prefix ''/blob/'' (req_path r) then serve_blob W G ep provider (req_path r)
      else if has_prefix ''/collection/'' (req_path r) then serve_collection W G ep provider (req_path r)
      else if has_prefix ''/ticket/'' (req_path r) then serve_ticket W G ep (req_path r)
      else go_ret not_found)"

section \<open>The provider and the run\<close>

definition gateway_store :: "call world \<Rightarrow> blob_lib \<Rightarrow> (nat \<times> string \<times> string) io" where
  "gateway_store W L =
     go_try (go_wrap ''new bytes map'' (invoke W (Blob NewMemStore))) (\<lambda>store.
     go_try (go_wrap ''add blob''
       (invoke_get W got_text (Blob (AddBlob store (bytes_of ''hello gateway over iroh blobs''))))) (\<lambda>hash.
     go_try (go_wrap ''add collection metadata''
       (invoke_get W got_text (Blob (AddBlob store (collection_meta L [(''note.txt'', hash)]))))) (\<lambda>_.
     go_try (go_wrap ''add collection root''
       (invoke_get W got_text (Blob (AddBlob store (collection_seq L [(''note.txt'', hash)]))))) (\<lambda>root.
     go_ret (store, root, hash)))))"

definition blob_accept :: "call world \<Rightarrow> nat \<Rightarrow> nat \<Rightarrow> unit io" where
  "blob_accept W store conn =
     go_try (invoke W (Net (AcceptStream conn))) (\<lambda>s.
     go_try (invoke W (Blob (ServeBlob s store))) (\<lambda>_. go_ret ()))"

text \<open>\<^verbatim>\<open>get\<close>: the body of a response whose status is 200, or an error.\<close>

definition http_get :: "call world \<Rightarrow> string \<Rightarrow> bytes io" where
  "http_get W url =
     go_try (invoke W (Os (HttpDo url []))) (\<lambda>resp.
     go_try (invoke_get W got_bytes (Os (HttpBody resp))) (\<lambda>body.
     go_try (query W got_nat (Os (HttpCode resp))) (\<lambda>code.
     go_try (query W got_text (Os (HttpStatus resp))) (\<lambda>status.
     if code \<noteq> 200 then go_fail (Err (url @ '': '' @ status @ '': '' @ trim_space (text_of body)))
     else go_ret body))))"

definition short_of :: "call world \<Rightarrow> string \<Rightarrow> string io" where
  "short_of W hash = query W got_text (Os (ParseText ''short hash'' hash))"

definition gateway_requests :: "call world \<Rightarrow> gateway_lib \<Rightarrow> string \<Rightarrow> string \<Rightarrow> string \<Rightarrow> nat \<Rightarrow> unit io" where
  "gateway_requests W G url root hash provider =
     go_try (go_wrap ''get blob'' (invoke W (Os (HttpDo (url @ ''/blob/'' @ hash) ''bytes=6-10'')))) (\<lambda>resp.
     go_try (short_of W hash) (\<lambda>short.
     go_try (query W got_text (Os (HttpStatus resp))) (\<lambda>status.
     go_try (query W got_text (Os (HttpHeader resp ''Content-Range''))) (\<lambda>rng.
     go_then (println (''GET /blob/'' @ short @ '' '' @ status @ '' '' @ rng))
     (go_try (invoke_get W got_bytes (Os (HttpBody resp))) (\<lambda>body.
      go_then (println (''range body: '' @ quote (text_of body)))
      (go_try (go_wrap ''get collection entry''
         (invoke W (Os (HttpDo (url @ ''/collection/'' @ root @ ''/note.txt'') [])))) (\<lambda>resp2.
       go_try (short_of W root) (\<lambda>short2.
       go_try (query W got_text (Os (HttpStatus resp2))) (\<lambda>status2.
       go_then (println (''GET /collection/'' @ short2 @ ''/note.txt '' @ status2))
       (let bt = \<lparr>tk_addr = AddrOf provider, tk_hash = hash, tk_hash_seq = False\<rparr>;
            ct = \<lparr>tk_addr = AddrOf provider, tk_hash = root, tk_hash_seq = True\<rparr> in
        go_try (go_wrap ''get ticket blob'' (http_get W (url @ ''/ticket/'' @ gw_encode_ticket G bt))) (\<lambda>b1.
        go_then (println (''ticket blob: '' @ quote (text_of b1)))
        (go_try (go_wrap ''get ticket index'' (http_get W (url @ ''/ticket/'' @ gw_encode_ticket G ct))) (\<lambda>b2.
         go_then (println (''ticket index entries: '' @ digits_of (length (GoStrings.fields (text_of b2)))))
         (case GoStrings.fields (text_of b2) of
            [] \<Rightarrow> go_fail (Err ''index out of range'')
          | link # _ \<Rightarrow>
            go_try (go_wrap ''get ticket entry'' (http_get W (url @ link))) (\<lambda>b3.
            println (''ticket entry: '' @ quote (text_of b3))))))))))))))))))"

abbreviation (input) gateway_bind where
  "gateway_bind \<equiv> bind_loopback"

definition gateway_run :: "call world \<Rightarrow> blob_lib \<Rightarrow> gateway_lib \<Rightarrow> unit io" where
  "gateway_run W L G =
     go_try (gateway_store W L) (\<lambda>(store, root, hash).
     go_try (gateway_bind W []) (\<lambda>provider.
     go_try (invoke W (Net (NewRouter provider [blobs_alpn]))) (\<lambda>router.
     go_defer (invoke W (Net (RouterShutdown router provider)))
       (go_try (gateway_bind W []) (\<lambda>client.
        go_defer (shutdown W client)
          (go_try (query W got_text (Os HttpServe)) (\<lambda>url.
           go_defer (invoke W (Os HttpClose))
             (gateway_requests W G url root hash provider))))))))"

section \<open>Connections\<close>

fun opens_conn :: "call \<Rightarrow> nat \<Rightarrow> nat set" where
  "opens_conn (Net (Connect ep addr alpn)) n = {n}"
| "opens_conn c n = {}"

fun frees_conn :: "call \<Rightarrow> nat set" where
  "frees_conn (Net (CloseConn n code reason)) = {n}"
| "frees_conn c = {}"

interpretation connection: discipline opens_conn frees_conn
  "\<lambda>a. Net (Connect (fst a) (snd a) blobs_alpn)" "\<lambda>a n. Net (CloseConn n 0 [])"
  by unfold_locales simp_all

definition conns_open :: "io_hist \<Rightarrow> nat set" where
  "conns_open h = leaked opens_conn frees_conn h"

lemma drops_close_conn: "drops opens_conn frees_conn {n} (invoke W (Net (CloseConn n 0 [])))"
  by (rule drops_mono [OF drops_invoke]) simp_all

lemma conns_or_bad_gateway:
  "owns opens_conn frees_conn {} m (\<lambda>_. {}) \<Longrightarrow> owns opens_conn frees_conn {} (or_bad_gateway m k) (\<lambda>_. {})"
  unfolding or_bad_gateway_def by (rule owns_quiet_catch) (auto intro: owns_ret)

lemma conns_serve_http: "owns opens_conn frees_conn {} (serve_http W G ep provider r) (\<lambda>_. {})"
proof -
  have blob: "owns opens_conn frees_conn {} (get_blob W ep p k) (\<lambda>_. {})" for p k
    unfolding get_blob_def
    by (rule owns_try [OF owns_wrap [OF owns_invoke_open]] owns_defer [OF drops_close_conn] plain_rules | simp)+
  have coll: "owns opens_conn frees_conn {} (get_collection W G ep p k) (\<lambda>_. {})" for p k
    unfolding get_collection_def
    by (rule owns_try [OF owns_wrap [OF owns_invoke_open]] owns_defer [OF drops_close_conn] plain_rules | simp)+
  show ?thesis
    unfolding serve_http_def serve_blob_def serve_collection_def serve_ticket_def serve_entry_def serve_index_def serve_raw_def
    by (rule conns_or_bad_gateway blob coll owns_cases owns_ret | simp)+
qed

section \<open>What is answered\<close>

fun is_failed :: "call event \<Rightarrow> bool" where
  "is_failed (Failed c e) = True"
| "is_failed ev = False"

lemma or_bad_gateway_cases:
  "or_bad_gateway m k h = (case m h of (Inl e, h') \<Rightarrow> (Inr (HttpError 502 (err_text e)), h') | (Inr x, h') \<Rightarrow> (Inr (k x), h'))"
  by (simp add: or_bad_gateway_def go_catch_def go_ret_def split: prod.splits sum.splits)

lemma find_entry_code: "find_entry name es data = HttpError code t \<Longrightarrow> code = 404"
  by (induction name es data rule: find_entry.induct) (auto simp: not_found_def split: if_splits)

lemma find_entry_some:
  "e \<in> set es \<Longrightarrow> length data = length es \<Longrightarrow>
     \<exists>i < length es. find_entry (fst e) es data = ServeContent (fst e) (data ! i) \<and> fst (es ! i) = fst e \<and>
       (\<forall>j < i. fst (es ! j) \<noteq> fst e)"
proof (induction "fst e" es data rule: find_entry.induct)
  case (3 e' es b bs)
  show ?case
  proof (cases "fst e' = fst e")
    case False
    with 3 obtain i where i: "i < length es" "find_entry (fst e) es bs = ServeContent (fst e) (bs ! i)"
      "fst (es ! i) = fst e" "\<forall>j < i. fst (es ! j) \<noteq> fst e"
      by auto
    with False show ?thesis
      by (intro exI [of _ "Suc i"]) (auto simp: less_Suc_eq_0_disj)
  qed auto
qed auto

lemma get_collection_all_succeed:
  assumes "\<And>h c. fails W h c = None" and "\<And>h. gw_collection G h root = (es, data)"
  shows "\<exists>h'. get_collection W G ep p root h = (Inr (es, data), h')"
  using assms by (simp add: get_collection_def go_simps)

section \<open>Properties\<close>



text \<open>A request leaves no connection open, whichever route it takes and wherever it fails.\<close>

lemma requests_close_connections:
  "conns_open (snd (serve_http W G ep provider r h)) \<subseteq> conns_open h"
  unfolding conns_open_def by (rule owns_leaked) (rule conns_serve_http)


definition demo_gateway :: gateway_lib where
  "demo_gateway =
     \<lparr>gw_parse_hash = Inr, gw_decode_ticket = \<lambda>s. Inr \<lparr>tk_addr = ParsedAddr ''a'', tk_hash = ''r'', tk_hash_seq = True\<rparr>,
      gw_encode_ticket = \<lambda>t. ''blobxy'', gw_collection = \<lambda>h r. ([(''n'', ''h''), (''n'', ''i'')], [[1], [2]])\<rparr>"

definition up_world :: "call world" where
  "up_world = \<lparr>fails = \<lambda>h c. None, got_bytes = \<lambda>h c. [], got_text = \<lambda>h c. [], got_texts = \<lambda>h c. [],
     got_nat = \<lambda>h c. 0, got_flag = \<lambda>h c. False\<rparr>"


lemma owns_gateway_run:
  assumes "routers_start W"
  shows "owns opens_endpoint frees_endpoint {} (gateway_run W L G) (\<lambda>_. {})"
  unfolding gateway_run_def gateway_store_def gateway_requests_def http_get_def short_of_def Let_def
  by (simp only: Diff_cancel | rule owns_try [OF owns_bind] owns_try_router [OF assms] owns_defer [OF drops_router]
      owns_defer [OF drops_shutdown] plain_rules | simp)+

end
