(* ===== verification/CustomRouter.thy ===== *)
theory CustomRouter
  imports GoPath "HOL-Library.AList"
begin

text \<open>
  \<^verbatim>\<open>cmd/go-iroh-custom-router/main.go\<close>: a router whose handlers may change while its accept
  loop runs. The locale \<open>registry\<close> states what the handler map promises; its client is the
  accept loop, proved to serve every connection by the handler registered last.
\<close>

section \<open>Handler registries\<close>

datatype ('k, 'h) reg_op = Handle 'k 'h | Remove 'k

text \<open>Operations in a row, and the one of them that decides what a key holds: its last.\<close>

fun reg_exec :: "('k \<Rightarrow> 'h \<Rightarrow> 's \<Rightarrow> 's) \<Rightarrow> ('k \<Rightarrow> 's \<Rightarrow> bool \<times> 's) \<Rightarrow> ('k, 'h) reg_op list \<Rightarrow> 's \<Rightarrow> 's" where
  "reg_exec put del [] s = s"
| "reg_exec put del (Handle k h # ops) s = reg_exec put del ops (put k h s)"
| "reg_exec put del (Remove k # ops) s = reg_exec put del ops (snd (del k s))"

fun last_put :: "'k \<Rightarrow> ('k, 'h) reg_op list \<Rightarrow> 'h option \<Rightarrow> 'h option" where
  "last_put k [] r = r"
| "last_put k (Handle k' h # ops) r = last_put k ops (if k = k' then Some h else r)"
| "last_put k (Remove k' # ops) r = last_put k ops (if k = k' then None else r)"

locale registry =
  fixes none :: 's
    and put :: "'k \<Rightarrow> 'h \<Rightarrow> 's \<Rightarrow> 's"
    and del :: "'k \<Rightarrow> 's \<Rightarrow> bool \<times> 's"
    and get :: "'k \<Rightarrow> 's \<Rightarrow> 'h option"
  assumes get_none: "get k none = None"
    and get_put: "get k (put k' h s) = (if k = k' then Some h else get k s)"
    and get_del: "get k (snd (del k' s)) = (if k = k' then None else get k s)"
    and del_was: "fst (del k s) = (get k s \<noteq> None)"
begin

lemma get_exec: "get k (reg_exec put del ops s) = last_put k ops (get k s)"
proof (induction ops arbitrary: s)
  case (Cons op ops)
  then show ?case by (cases op) (simp_all add: get_put get_del)
qed simp

lemma get_exec_none: "get k (reg_exec put del ops none) = last_put k ops None"
  by (simp add: get_exec get_none)

end

section \<open>The router\<close>

definition router_alpn :: "nat \<Rightarrow> string" where
  "router_alpn n = ''go-iroh-examples/custom-router/'' @ digits_of n"

definition no_handler_code :: nat where
  "no_handler_code = 1"

record 'h router =
  rt_endpoint :: nat
  rt_handlers :: "(string \<times> 'h) list"

definition new_router :: "nat \<Rightarrow> 'h router" where
  "new_router ep = \<lparr>rt_endpoint = ep, rt_handlers = []\<rparr>"

definition rt_handle :: "string \<Rightarrow> 'h \<Rightarrow> 'h router \<Rightarrow> 'h router" where
  "rt_handle alpn h r = r\<lparr>rt_handlers := AList.update alpn h (rt_handlers r)\<rparr>"

definition rt_lookup :: "string \<Rightarrow> 'h router \<Rightarrow> 'h option" where
  "rt_lookup alpn r = map_of (rt_handlers r) alpn"

definition rt_remove :: "string \<Rightarrow> 'h router \<Rightarrow> bool \<times> 'h router" where
  "rt_remove alpn r = (rt_lookup alpn r \<noteq> None, r\<lparr>rt_handlers := AList.delete alpn (rt_handlers r)\<rparr>)"

interpretation handlers: registry "new_router ep" rt_handle rt_remove rt_lookup for ep
  by unfold_locales
    (auto simp: new_router_def rt_handle_def rt_lookup_def rt_remove_def update_conv' delete_conv')

text \<open>
  One round of the accept loop: the connection's protocol is looked up when it is accepted,
  so registrations made before count and later ones do not.
\<close>

datatype 'h dispatch = ServedBy 'h | ClosedWith nat string

definition dispatch :: "'h router \<Rightarrow> string \<Rightarrow> 'h dispatch" where
  "dispatch r alpn =
     (case rt_lookup alpn r of Some h \<Rightarrow> ServedBy h | None \<Rightarrow> ClosedWith no_handler_code ''no handler for alpn'')"

definition serve_router :: "call world \<Rightarrow> nat \<Rightarrow> (nat \<Rightarrow> unit io) router \<Rightarrow> unit io" where
  "serve_router W fuel r =
     go_loop fuel (\<lambda>_.
       go_catch (invoke W (Net (Accept (rt_endpoint r)))) (\<lambda>a.
       case a of
         Inl e \<Rightarrow> go_ret (Inl ())
       | Inr conn \<Rightarrow>
         go_try (query W got_text (Net (ConnALPN conn))) (\<lambda>alpn.
         case dispatch r alpn of
           ClosedWith code reason \<Rightarrow> go_then (invoke W (Net (CloseConn conn code reason))) (go_ret (Inr ()))
         | ServedBy h \<Rightarrow>
           go_catch (h conn) (\<lambda>b.
           case b of
             Inl e \<Rightarrow> go_then (eprintln (''handler '' @ alpn @ '': '' @ err_text e)) (go_ret (Inr ()))
           | Inr _ \<Rightarrow> go_ret (Inr ()))))) ()"

section \<open>The dialer\<close>

definition short_alpn :: "string \<Rightarrow> string" where
  "short_alpn alpn = (case after_last slash alpn of Some v \<Rightarrow> ''alpn'' @ v | None \<Rightarrow> alpn)"

text \<open>\<^verbatim>\<open>report\<close>: which of the outcomes a dial had, from its errors.\<close>

definition report_line :: "string \<Rightarrow> gerr option \<Rightarrow> gerr + string \<Rightarrow> string" where
  "report_line alpn refused reply =
     ''dial '' @ short_alpn alpn @ '': '' @
     (case refused of
        Some e \<Rightarrow> if contains ''no application protocol'' (err_text e)
                  then ''refused during negotiation, not advertised'' else err_text e
      | None \<Rightarrow>
        (case reply of
           Inr s \<Rightarrow> ''served, echoed '' @ quote s
         | Inl e \<Rightarrow>
           (case as_app_error e of
              Some a \<Rightarrow> if app_remote a \<and> app_code a = no_handler_code
                then ''connected, then closed with code '' @ digits_of (app_code a) @ '' ('' @ app_reason a @ '')''
                else err_text e
            | None \<Rightarrow> err_text e)))"

abbreviation (input) router_exchange where
  "router_exchange \<equiv> exchange"

definition report_dial :: "call world \<Rightarrow> nat \<Rightarrow> endpoint_addr \<Rightarrow> string \<Rightarrow> unit io" where
  "report_dial W client addr alpn =
     go_catch (invoke W (Net (Connect client addr alpn))) (\<lambda>c.
     case c of
       Inl e \<Rightarrow> println (report_line alpn (Some e) (Inr []))
     | Inr conn \<Rightarrow>
       go_defer (invoke W (Net (CloseConn conn 0 [])))
         (go_catch (router_exchange W conn ''hello'') (\<lambda>reply. println (report_line alpn None reply))))"

text \<open>
  \<^verbatim>\<open>run\<close>, the router's goroutine being the peer that the dials meet: its loop runs where
  the dials find it, with the handlers registered at that point.
\<close>

definition show_bool :: "bool \<Rightarrow> string" where
  "show_bool b = (if b then ''true'' else ''false'')"

abbreviation (input) router_bind where
  "router_bind \<equiv> bind_loopback"

abbreviation (input) router_echo where
  "router_echo \<equiv> echo"

definition router_run :: "call world \<Rightarrow> nat \<Rightarrow> unit io" where
  "router_run W fuel =
     go_try (router_bind W [WithALPNs [router_alpn 1, router_alpn 2]]) (\<lambda>server.
     go_defer (shutdown W server)
       (let r1 = rt_handle (router_alpn 1) (router_echo W) (new_router server);
            (was, r2) = rt_remove (router_alpn 1) r1;
            r3 = rt_handle (router_alpn 2) (router_echo W) r2 in
        go_try (router_bind W []) (\<lambda>client.
        go_defer (shutdown W client)
          (go_then (report_dial W client (AddrOf server) (router_alpn 1))
          (go_then (report_dial W client (AddrOf server) (router_alpn 2))
          (go_then (report_dial W client (AddrOf server) (router_alpn 3))
          (go_then (serve_router W fuel r1)
          (go_then (println (''remove '' @ short_alpn (router_alpn 1) @ '': '' @ show_bool was))
          (go_then (report_dial W client (AddrOf server) (router_alpn 1))
          (go_then (report_dial W client (AddrOf server) (router_alpn 2))
          (go_then (serve_router W fuel r2)
          (go_then (println (''add '' @ short_alpn (router_alpn 2)))
          (go_then (report_dial W client (AddrOf server) (router_alpn 1))
          (go_then (report_dial W client (AddrOf server) (router_alpn 2))
          (go_then (serve_router W fuel r3) (go_ret ()))))))))))))))))"

section \<open>Lemmas\<close>

text \<open>
  What a dialer sees of a dispatch: a protocol that is not advertised is refused in the
  handshake; a closed connection is read as an application error of the remote.
\<close>

definition dial_line :: "string list \<Rightarrow> (string \<Rightarrow> string) router \<Rightarrow> string \<Rightarrow> string \<Rightarrow> string" where
  "dial_line advertised r alpn msg =
     (if alpn \<notin> set advertised then report_line alpn (Some (Err ''tls: no application protocol'')) (Inr [])
      else case dispatch r alpn of
        ServedBy h \<Rightarrow> report_line alpn None (Inr (h msg))
      | ClosedWith code reason \<Rightarrow>
          report_line alpn None (Inl (AppError True code reason (''closed: '' @ reason))))"

section \<open>Properties\<close>

text \<open>C23. A connection is served by the handler that was registered last for its protocol and not
  removed since, and closed with code 1 if there is none, whatever happened to the handlers
  of other protocols; and \<^verbatim>\<open>remove\<close> tells whether there was one.\<close>

theorem dispatch_by_last_registration:
  "dispatch (reg_exec rt_handle rt_remove ops (new_router ep)) alpn =
     (case last_put alpn ops None of
        Some h \<Rightarrow> ServedBy h | None \<Rightarrow> ClosedWith 1 ''no handler for alpn'') \<and>
   fst (rt_remove alpn (reg_exec rt_handle rt_remove ops (new_router ep))) = (last_put alpn ops None \<noteq> None)"
  by (cases "last_put alpn ops None")
    (simp_all add: dispatch_def handlers.get_exec handlers.get_none handlers.del_was no_handler_code_def)

lemma contains_refusal: "contains ''no application protocol'' ''tls: no application protocol''"
  by code_simp

text \<open>A dialer can tell the three outcomes apart: not advertised, advertised but not served,
  and served, and in the last case reads the handler's reply.\<close>

lemma dial_outcomes:
  "dial_line advertised r alpn msg = ''dial '' @ short_alpn alpn @ '': '' @
     (if alpn \<notin> set advertised then ''refused during negotiation, not advertised''
      else case rt_lookup alpn r of
        Some h \<Rightarrow> ''served, echoed '' @ quote (h msg)
      | None \<Rightarrow> ''connected, then closed with code 1 (no handler for alpn)'')"
proof -
  have d: "digits_of 1 = ''1''" by code_simp
  show ?thesis
    by (simp add: dial_line_def report_line_def dispatch_def contains_refusal no_handler_code_def d [simplified] split: option.splits)
qed

section \<open>Ownership\<close>

lemma owns_serve_router:
  assumes "\<And>a h c. rt_lookup a r = Some h \<Longrightarrow> owns opens_endpoint frees_endpoint {} (h c) (\<lambda>_. {})"
  shows "owns opens_endpoint frees_endpoint {} (serve_router W fuel r) (\<lambda>_. {})"
proof -
  have one: "owns opens_endpoint frees_endpoint {} (case dispatch r alpn of
      ClosedWith code reason \<Rightarrow> go_then (invoke W (Net (CloseConn conn code reason))) (go_ret (Inr ()))
    | ServedBy h \<Rightarrow>
      go_catch (h conn) (\<lambda>b. case b of
        Inl e \<Rightarrow> go_then (eprintln (''handler '' @ alpn @ '': '' @ err_text e)) (go_ret (Inr ()))
      | Inr _ \<Rightarrow> go_ret (Inr ()))) (\<lambda>_. {})" for alpn conn
  proof (cases "rt_lookup alpn r")
    case None
    then show ?thesis
      by (simp add: dispatch_def) (rule quiet_then owns_invoke owns_ret | simp)+
  next
    case (Some h)
    then show ?thesis
      by (simp add: dispatch_def) (rule owns_quiet_catch [OF assms] quiet_then owns_eprintln owns_cases owns_ret | assumption | simp)+
  qed
  show ?thesis
    unfolding serve_router_def
    by (rule owns_loop owns_quiet_catch owns_quiet_try owns_cases one owns_invoke owns_query owns_ret | simp)+
qed

lemma owns_router_run: "owns opens_endpoint frees_endpoint {} (router_run W fuel) (\<lambda>_. {})"
proof -
  have dial: "owns opens_endpoint frees_endpoint {} (report_dial W c a p) (\<lambda>_. {})" for c a p
    unfolding report_dial_def
    by (rule owns_quiet_catch owns_defer [where F = "{}"] owns_exchange owns_cases owns_println owns_invoke drops_owns | simp)+
  let ?r1 = "\<lambda>ep. rt_handle (router_alpn 1) (echo W) (new_router ep)"
  let ?r2 = "\<lambda>ep. snd (rt_remove (router_alpn 1) (?r1 ep))"
  have serve: "owns opens_endpoint frees_endpoint {} (serve_router W fuel (?r1 ep)) (\<lambda>_. {})"
    "owns opens_endpoint frees_endpoint {} (serve_router W fuel (?r2 ep)) (\<lambda>_. {})"
    "owns opens_endpoint frees_endpoint {} (serve_router W fuel (rt_handle (router_alpn 2) (echo W) (?r2 ep))) (\<lambda>_. {})" for ep
    by (rule owns_serve_router,
        auto simp: handlers.get_put handlers.get_none handlers.get_del owns_echo split: if_splits)+
  show ?thesis
    unfolding router_run_def Let_def case_prod_unfold
    by (simp only: Diff_cancel | rule owns_try [OF owns_bind] owns_defer [OF drops_shutdown]
        dial serve quiet_then owns_println owns_ret | simp)+
qed

end
