(* ===== verification/CustomTransport.thy ===== *)
theory CustomTransport
  imports GoPath "HOL-Library.AList"
begin

text \<open>
  \<^verbatim>\<open>cmd/go-iroh-custom-transport/main.go\<close>: the in-process bus that carries datagrams between
  ports. A port is a channel of 64 datagrams; the locale \<open>bounded_queue\<close> states what such a
  channel promises, and the bus is proved to deliver to each port in order, without loss
  beyond the datagrams it counts as dropped.
\<close>

section \<open>Bounded queues\<close>

locale bounded_queue =
  fixes items :: "'s \<Rightarrow> 'a list"
    and offer :: "'a \<Rightarrow> 's \<Rightarrow> bool \<times> 's"
    and take_one :: "'s \<Rightarrow> 'a option \<times> 's"
    and cap :: nat
  assumes offer_ok: "fst (offer x s) = (length (items s) < cap)"
    and offer_items: "items (snd (offer x s)) = (if length (items s) < cap then items s @ [x] else items s)"
    and take_ok: "fst (take_one s) = (case items s of [] \<Rightarrow> None | x # xs \<Rightarrow> Some x)"
    and take_items: "items (snd (take_one s)) = (case items s of [] \<Rightarrow> [] | x # xs \<Rightarrow> xs)"
begin

text \<open>What was taken, with what is still there, is what was accepted, in its order.\<close>

lemma offer_balance:
  "taken @ items s = accepted \<Longrightarrow>
     taken @ items (snd (offer x s)) = (if fst (offer x s) then accepted @ [x] else accepted)"
  by (auto simp: offer_ok offer_items)

lemma take_balance:
  "taken @ items s = accepted \<Longrightarrow>
     (case fst (take_one s) of None \<Rightarrow> taken | Some x \<Rightarrow> taken @ [x]) @ items (snd (take_one s)) = accepted"
  by (auto simp: take_ok take_items split: list.splits)

lemma offer_bounded: "length (items s) \<le> cap \<Longrightarrow> length (items (snd (offer x s))) \<le> cap"
  by (simp add: offer_items)

lemma take_bounded: "length (items s) \<le> cap \<Longrightarrow> length (items (snd (take_one s))) \<le> cap"
  by (auto simp: take_items split: list.splits)

end

section \<open>The bus\<close>

definition transport_id :: nat where
  "transport_id = 0x676f2d69726f68"

record custom_addr =
  ca_id :: nat
  ca_data :: string

record datagram =
  dg_remote :: custom_addr
  dg_local :: custom_addr
  dg_data :: bytes

definition chan_cap :: nat where
  "chan_cap = 64"

text \<open>A send that does not block, and a receive that finds something or nothing.\<close>

definition chan_send :: "datagram \<Rightarrow> datagram list \<Rightarrow> bool \<times> datagram list" where
  "chan_send d q = (if length q < chan_cap then (True, q @ [d]) else (False, q))"

definition chan_recv :: "datagram list \<Rightarrow> datagram option \<times> datagram list" where
  "chan_recv q = (case q of [] \<Rightarrow> (None, []) | d # ds \<Rightarrow> (Some d, ds))"

interpretation chan: bounded_queue "\<lambda>q. q" chan_send chan_recv chan_cap
  by unfold_locales (auto simp: chan_send_def chan_recv_def split: list.splits)

text \<open>The maps of the bus; ports by address, counters by name.\<close>

record bus =
  bus_ports :: "(custom_addr \<times> datagram list) list"
  bus_delivered :: "(string \<times> nat) list"
  bus_dropped :: nat

definition new_bus :: bus where
  "new_bus = \<lparr>bus_ports = [], bus_delivered = [], bus_dropped = 0\<rparr>"

definition port_addr :: "string \<Rightarrow> custom_addr" where
  "port_addr name = \<lparr>ca_id = transport_id, ca_data = name\<rparr>"

definition attach :: "string \<Rightarrow> bus \<Rightarrow> bus" where
  "attach name b = b\<lparr>bus_ports := AList.update (port_addr name) [] (bus_ports b),
     bus_delivered := AList.update name 0 (bus_delivered b)\<rparr>"

definition bus_count :: "bus \<Rightarrow> string \<Rightarrow> nat" where
  "bus_count b name = (case map_of (bus_delivered b) name of None \<Rightarrow> 0 | Some n \<Rightarrow> n)"

definition bus_send :: "custom_addr \<Rightarrow> custom_addr \<Rightarrow> bytes \<Rightarrow> bus \<Rightarrow> bool \<times> bus" where
  "bus_send from_addr to_addr payload b =
     (case map_of (bus_ports b) to_addr of
        None \<Rightarrow> (False, b\<lparr>bus_dropped := bus_dropped b + 1\<rparr>)
      | Some q \<Rightarrow>
        (let d = \<lparr>dg_remote = from_addr, dg_local = to_addr, dg_data = payload\<rparr>;
             (ok, q') = chan_send d q in
         if ok then (True, b\<lparr>bus_ports := AList.update to_addr q' (bus_ports b),
                            bus_delivered := AList.update (ca_data to_addr) (bus_count b (ca_data to_addr) + 1) (bus_delivered b)\<rparr>)
         else (False, b\<lparr>bus_dropped := bus_dropped b + 1\<rparr>)))"

text \<open>One round of \<^verbatim>\<open>Serve\<close> that finds a datagram; \<open>took\<close> is what \<^verbatim>\<open>recv\<close> reports.\<close>

definition serve_one :: "string \<Rightarrow> bool \<Rightarrow> bus \<Rightarrow> datagram option \<times> bus" where
  "serve_one name took b =
     (case map_of (bus_ports b) (port_addr name) of
        None \<Rightarrow> (None, b)
      | Some q \<Rightarrow>
        (case chan_recv q of
           (None, q') \<Rightarrow> (None, b)
         | (Some d, q') \<Rightarrow>
             (Some d, b\<lparr>bus_ports := AList.update (port_addr name) q' (bus_ports b),
                        bus_dropped := bus_dropped b + (if took then 0 else 1)\<rparr>)))"

definition port_send :: "string \<Rightarrow> custom_addr \<Rightarrow> bytes \<Rightarrow> bus \<Rightarrow> bool \<times> bus" where
  "port_send name remote payload b = bus_send (port_addr name) remote payload b"

definition local_custom_addrs :: "string \<Rightarrow> custom_addr list" where
  "local_custom_addrs name = [port_addr name]"

section \<open>Runs of the bus\<close>

text \<open>
  The bus with what it has accepted for a port, what it has handed to the endpoint there,
  and how often it refused or lost a datagram: the calls made on it, in the order of their
  critical sections.
\<close>

datatype bus_op = SendFrom string custom_addr bytes | ServeAt string bool

record bus_log =
  log_bus :: bus
  log_accepted :: "datagram list"
  log_handed :: "datagram list"
  log_lost :: nat

fun bus_step :: "string \<Rightarrow> bus_op \<Rightarrow> bus_log \<Rightarrow> bus_log" where
  "bus_step name (SendFrom src to_addr payload) l =
     (case port_send src to_addr payload (log_bus l) of
        (ok, b) \<Rightarrow> l\<lparr>log_bus := b,
          log_accepted := log_accepted l @ (if ok \<and> to_addr = port_addr name
            then [\<lparr>dg_remote = port_addr src, dg_local = to_addr, dg_data = payload\<rparr>] else []),
          log_lost := log_lost l + (if ok then 0 else 1)\<rparr>)"
| "bus_step name (ServeAt at took) l =
     (case serve_one at took (log_bus l) of
        (d, b) \<Rightarrow> l\<lparr>log_bus := b,
          log_handed := log_handed l @ (case d of Some x \<Rightarrow> if at = name then [x] else [] | None \<Rightarrow> []),
          log_lost := log_lost l + (case d of Some x \<Rightarrow> if took then 0 else 1 | None \<Rightarrow> 0)\<rparr>)"

definition bus_run :: "string list \<Rightarrow> string \<Rightarrow> bus_op list \<Rightarrow> bus_log" where
  "bus_run names name ops =
     fold (bus_step name) ops \<lparr>log_bus = fold attach names new_bus, log_accepted = [], log_handed = [], log_lost = 0\<rparr>"

definition port_queue :: "string \<Rightarrow> bus \<Rightarrow> datagram list" where
  "port_queue name b = (case map_of (bus_ports b) (port_addr name) of None \<Rightarrow> [] | Some q \<Rightarrow> q)"

definition bus_inv :: "string \<Rightarrow> bus_log \<Rightarrow> bool" where
  "bus_inv name l \<longleftrightarrow>
     log_handed l @ port_queue name (log_bus l) = log_accepted l \<and>
     length (port_queue name (log_bus l)) \<le> chan_cap \<and>
     bus_count (log_bus l) name = length (log_accepted l) \<and>
     bus_dropped (log_bus l) = log_lost l \<and>
     (\<forall>a q. map_of (bus_ports (log_bus l)) a = Some q \<longrightarrow> ca_id a = transport_id)"

lemma port_addr_inject [simp]: "port_addr a = port_addr b \<longleftrightarrow> a = b"
  by (simp add: port_addr_def)

lemma ca_data_port_addr [simp]: "ca_data (port_addr name) = name"
  by (simp add: port_addr_def)

lemma ca_id_port_addr [simp]: "ca_id (port_addr name) = transport_id"
  by (simp add: port_addr_def)

definition ports_fresh :: "bus \<Rightarrow> bool" where
  "ports_fresh b \<longleftrightarrow> (\<forall>a q. map_of (bus_ports b) a = Some q \<longrightarrow> q = [] \<and> ca_id a = transport_id)"

lemma ports_fresh_attach: "ports_fresh b \<Longrightarrow> ports_fresh (attach name b)"
  by (simp add: ports_fresh_def attach_def update_conv')

lemma ports_fresh_all: "ports_fresh b \<Longrightarrow> ports_fresh (fold attach names b)"
  by (induction names arbitrary: b) (simp_all add: ports_fresh_attach)

lemma bus_inv_attached:
  "bus_inv name \<lparr>log_bus = fold attach names new_bus, log_accepted = [], log_handed = [], log_lost = 0\<rparr>"
proof -
  have "bus_dropped (fold attach names b) = bus_dropped b" for b
    by (induction names arbitrary: b) (simp_all add: attach_def)
  moreover have "bus_count b name = 0 \<Longrightarrow> bus_count (fold attach names b) name = 0" for b
    by (induction names arbitrary: b) (auto simp: attach_def update_conv' bus_count_def split: option.splits)
  ultimately have "bus_dropped (fold attach names new_bus) = 0" "bus_count (fold attach names new_bus) name = 0"
    by (simp_all add: new_bus_def bus_count_def)
  moreover have fresh: "ports_fresh (fold attach names new_bus)"
    by (rule ports_fresh_all) (simp add: ports_fresh_def new_bus_def)
  moreover have "port_queue name (fold attach names new_bus) = []"
    using fresh by (simp add: port_queue_def ports_fresh_def split: option.split)
  ultimately show ?thesis
    unfolding bus_inv_def ports_fresh_def by simp
qed

lemma bus_inv_step: "bus_inv name l \<Longrightarrow> bus_inv name (bus_step name op l)"
proof (cases op)
  case (SendFrom src to_addr payload)
  assume inv: "bus_inv name l"
  show ?thesis
  proof (cases "map_of (bus_ports (log_bus l)) to_addr")
    case None
    with inv SendFrom show ?thesis
      by (auto simp: bus_inv_def port_send_def bus_send_def port_queue_def bus_count_def)
  next
    case (Some q)
    with inv have a: "ca_id to_addr = transport_id" "ca_data to_addr = name \<Longrightarrow> to_addr = port_addr name"
      by (auto simp: bus_inv_def port_addr_def)
    let ?d = "\<lparr>dg_remote = port_addr src, dg_local = to_addr, dg_data = payload\<rparr>"
    obtain ok q' where send: "chan_send ?d q = (ok, q')" by fastforce
    have bal: "to_addr = port_addr name \<Longrightarrow> log_handed l @ q' = (if ok then log_accepted l @ [?d] else log_accepted l)"
      using chan.offer_balance [of "log_handed l" q "log_accepted l" ?d] inv Some send
      by (simp add: bus_inv_def port_queue_def)
    have bound: "to_addr = port_addr name \<Longrightarrow> length q' \<le> chan_cap"
      using chan.offer_bounded [of q ?d] inv Some send by (simp add: bus_inv_def port_queue_def)
    obtain r b where step: "port_send src to_addr payload (log_bus l) = (r, b)" by fastforce
    then have b: "r = ok" "b = (if ok
        then (log_bus l)\<lparr>bus_ports := AList.update to_addr q' (bus_ports (log_bus l)),
          bus_delivered := AList.update (ca_data to_addr) (bus_count (log_bus l) (ca_data to_addr) + 1) (bus_delivered (log_bus l))\<rparr>
        else (log_bus l)\<lparr>bus_dropped := bus_dropped (log_bus l) + 1\<rparr>)"
      using Some send by (auto simp: port_send_def bus_send_def split: if_splits)
    have same: "\<not> ok \<Longrightarrow> q' = q"
      using send by (auto simp: chan_send_def split: if_splits)
    have queue: "port_queue name b = (if to_addr = port_addr name then q' else port_queue name (log_bus l))"
      using b same Some by (cases ok) (auto simp: port_queue_def update_conv')
    have count: "bus_count b name = bus_count (log_bus l) name + (if ok \<and> to_addr = port_addr name then 1 else 0)"
      using b a by (cases ok) (auto simp: bus_count_def update_conv')
    have ids: "map_of (bus_ports b) x = Some y \<Longrightarrow> ca_id x = transport_id" for x y
      using b a inv by (cases ok) (auto simp: update_conv' bus_inv_def split: if_splits)
    have lost: "bus_dropped b = bus_dropped (log_bus l) + (if ok then 0 else 1)"
      using b by simp
    show ?thesis
      using inv SendFrom step b(1) bal bound queue count ids lost
      by (cases "to_addr = port_addr name") (simp_all add: bus_inv_def)
  qed
next
  case (ServeAt at took)
  assume inv: "bus_inv name l"
  show ?thesis
  proof (cases "map_of (bus_ports (log_bus l)) (port_addr at)")
    case None
    with inv ServeAt show ?thesis by (simp add: bus_inv_def serve_one_def)
  next
    case (Some q)
    obtain d q' where recv: "chan_recv q = (d, q')" by fastforce
    have bal: "at = name \<Longrightarrow> (case d of None \<Rightarrow> log_handed l | Some x \<Rightarrow> log_handed l @ [x]) @ q' = log_accepted l"
      using chan.take_balance [of "log_handed l" q "log_accepted l"] inv Some recv
      by (simp add: bus_inv_def port_queue_def)
    have bound: "at = name \<Longrightarrow> length q' \<le> chan_cap"
      using chan.take_bounded [of q] inv Some recv by (simp add: bus_inv_def port_queue_def)
    from inv Some ServeAt recv bal bound show ?thesis
      by (cases d; cases "at = name")
        (auto simp: bus_inv_def serve_one_def port_queue_def bus_count_def update_conv')
  qed
qed

lemma bus_inv_run: "bus_inv name (bus_run names name ops)"
  unfolding bus_run_def
  by (rule fold_invariant [where P = "\<lambda>l. bus_inv name l" and Q = "\<lambda>_. True"]) (auto intro: bus_inv_attached bus_inv_step)

section \<open>Properties\<close>


section \<open>The run\<close>

definition ct_alpn :: string where
  "ct_alpn = ''go-iroh-examples/custom-transport/1''"

definition say_bool :: "string \<Rightarrow> bool \<Rightarrow> unit io" where
  "say_bool what b = println (what @ '' '' @ (if b then ''true'' else ''false''))"

lemma owns_say_bool [owns]: "owns opens_endpoint frees_endpoint {} (say_bool what b) (\<lambda>_. {})"
  unfolding say_bool_def by (rule owns_println)

text \<open>The server's goroutine; its connection's result is dropped.\<close>

definition ct_server :: "call world \<Rightarrow> nat \<Rightarrow> unit io" where
  "ct_server W server =
     go_catch (invoke W (Net (Accept server))) (\<lambda>r.
     case r of Inl e \<Rightarrow> go_ret () | Inr conn \<Rightarrow> go_then (echo W conn) (go_ret ()))"

text \<open>
  \<open>paths\<close> is what \<^verbatim>\<open>Conn.Paths\<close> reports. The counters and the drops are the bus's, driven by
  the endpoints' own goroutines; what they read is the world's answer. The server's
  goroutine runs while the client waits for its reply.
\<close>

definition ct_run :: "call world \<Rightarrow> (io_hist \<Rightarrow> path_info list) \<Rightarrow> unit io" where
  "ct_run W paths =
     go_try (invoke W (Net (Bind [WithALPNs [ct_alpn], WithCustomTransport ''server'', WithoutIPTransports, WithoutRelayTransports]))) (\<lambda>server.
     go_defer (shutdown W server)
       (go_try (invoke W (Net (Bind [WithCustomTransport ''client'', WithoutIPTransports, WithoutRelayTransports]))) (\<lambda>client.
        go_defer (shutdown W client)
          (go_try (query W got_texts (Lib ''EndpointAddr.Addrs'' [server] [])) (\<lambda>addrs.
           go_then (println_all (map (\<lambda>a. ''advertised: '' @ a) addrs))
           (go_try (query W got_texts (Net (IPAddrs (AddrOf server)))) (\<lambda>ips.
            go_then (println (''advertised ip addresses: '' @ digits_of (length ips)))
            (go_try (go_wrap ''connect'' (invoke W (Net (Connect client (AddrOf server) ct_alpn)))) (\<lambda>conn.
             go_defer (invoke W (Net (CloseConn conn 0 [])))
               (go_try (query W got_text (Net (RemoteID conn))) (\<lambda>remote.
                go_try (query W got_text (Net (EndpointID server))) (\<lambda>i.
                go_then (say_bool ''handshake reached the server:'' (remote = i))
                (go_try (query W (\<lambda>_ h _. paths h) (Net (ConnPaths conn))) (\<lambda>ps.
                 go_then (println (''path kind: '' @ selected_path_kind ps))
                 (go_try (query W got_nat (Lib ''bus.count'' [] [''server''])) (\<lambda>to_server.
                  go_try (query W got_nat (Lib ''bus.count'' [] [''client''])) (\<lambda>to_client.
                  go_then (ct_server W server)
                  (go_try (exchange W conn ''over the bus'') (\<lambda>reply.
                   go_then (println (''reply: '' @ reply))
                   (go_try (query W got_nat (Lib ''bus.count'' [] [''server''])) (\<lambda>to_server2.
                    go_try (query W got_nat (Lib ''bus.count'' [] [''client''])) (\<lambda>to_client2.
                    go_then (say_bool ''bus carried client to server:'' (to_server < to_server2))
                    (go_then (say_bool ''bus carried server to client:'' (to_client < to_client2))
                    (go_try (query W got_nat (Lib ''bus.dropped'' [] [])) (\<lambda>dropped.
                     println (''bus dropped: '' @ digits_of dropped))))))))))))))))))))))))))"

text \<open>
  For the programs that follow: an object a library makes without failing, a text it gives,
  the end of the context as an error, and the library's protocol names, which stand for
  themselves.
\<close>

definition new_object :: "call world \<Rightarrow> call \<Rightarrow> nat io" where
  "new_object W c = query W (\<lambda>_ h _. length h) c"

definition ask :: "call world \<Rightarrow> call \<Rightarrow> string io" where
  "ask W c = query W got_text c"

definition ctx_error :: "call world \<Rightarrow> gerr io" where
  "ctx_error W = query W (\<lambda>W h c. Err (got_text W h c)) (Os CtxErr)"

lemma owns_new_object: "(\<And>n. opens c n = {}) \<Longrightarrow> owns opens frees {} (new_object W c) (\<lambda>_. {})"
  unfolding new_object_def by (rule owns_query)

lemma owns_ask: "(\<And>n. opens c n = {}) \<Longrightarrow> owns opens frees {} (ask W c) (\<lambda>_. {})"
  unfolding ask_def by (rule owns_query)

lemma owns_ctx_error [owns]: "owns opens_endpoint frees_endpoint {} (ctx_error W) (\<lambda>_. {})"
  unfolding ctx_error_def by (rule owns_query) simp

lemma owns_ct_server [owns]: "owns opens_endpoint frees_endpoint {} (ct_server W server) (\<lambda>_. {})"
  unfolding ct_server_def
  by (rule owns_quiet_catch owns_echo quiet_then owns_invoke owns_cases owns_ret | simp)+

text \<open>The rules a run of this kind is taken apart with, once its binds are dealt with.\<close>

lemmas program_rules = owns_defer [OF drops_shutdown] owns_defer [where F = "{}"] owns_quiet_try owns_quiet_catch
  owns_wrap owns_exchange owns_echo owns_transform owns_ct_server quiet_then owns_say_bool owns_println
  owns_println_all owns_new_object owns_ask owns_ctx_error owns_query owns_invoke owns_invoke_get owns_cases owns_ret owns_lift owns_fail

lemma owns_ct_run: "owns opens_endpoint frees_endpoint {} (ct_run W paths) (\<lambda>_. {})"
  unfolding ct_run_def ct_server_def say_bool_def
  by (simp only: Diff_cancel opens_endpoint.simps | rule owns_try [OF owns_invoke_open [where c = "Net (Bind opts)" for opts]] owns_defer [OF drops_shutdown]
      owns_defer [where F = "{}"] owns_quiet_try owns_quiet_catch owns_wrap owns_exchange owns_echo quiet_then
      owns_println owns_println_all owns_query owns_invoke owns_cases owns_ret | simp)+

end
