(* ===== verification/PathSelection.thy ===== *)
theory PathSelection
  imports CustomTransport
begin

text \<open>
  \<^verbatim>\<open>cmd/go-iroh-path-selection/main.go\<close>: a path selector that pins a connection to a relay,
  the record of its decisions and what the example prints of them. The address type of the
  library and its order are parameters.
\<close>

section \<open>The selector\<close>

record 'a address_lib =
  network :: "'a \<Rightarrow> string"
  compare_addr :: "'a \<Rightarrow> 'a \<Rightarrow> int"
  addr_text :: "'a \<Rightarrow> string"
  biased_rtt :: "'a option \<Rightarrow> 'a list \<Rightarrow> 'a option"

record decision =
  dec_candidates :: "string list"
  dec_chose :: string
  dec_by_default :: string

text \<open>The loop of \<^verbatim>\<open>Select\<close>: the lowest relay address so far.\<close>

fun lowest_relay :: "'a address_lib \<Rightarrow> 'a option \<Rightarrow> 'a list \<Rightarrow> 'a option" where
  "lowest_relay A best [] = best"
| "lowest_relay A best (c # cs) =
     (if network A c \<noteq> ''relay'' then lowest_relay A best cs
      else case best of
        None \<Rightarrow> lowest_relay A (Some c) cs
      | Some b \<Rightarrow> lowest_relay A (if compare_addr A c b < 0 then Some c else Some b) cs)"

definition addr_string :: "'a address_lib \<Rightarrow> 'a option \<Rightarrow> string" where
  "addr_string A a = (case a of None \<Rightarrow> ''none'' | Some x \<Rightarrow> addr_text A x)"

definition record_decision :: "'a address_lib \<Rightarrow> 'a list \<Rightarrow> 'a option \<Rightarrow> 'a option \<Rightarrow> decision list \<Rightarrow> decision list" where
  "record_decision A candidates chose by_default seen =
     seen @ [\<lparr>dec_candidates = sort (map (addr_text A) candidates),
              dec_chose = addr_string A chose, dec_by_default = addr_string A by_default\<rparr>]"

definition relay_first_select ::
  "'a address_lib \<Rightarrow> 'a option \<Rightarrow> 'a list \<Rightarrow> decision list \<Rightarrow> 'a option \<times> decision list" where
  "relay_first_select A current candidates seen =
     (let chosen = lowest_relay A None candidates in
      (chosen, record_decision A candidates chosen (biased_rtt A current candidates) seen))"

section \<open>What is printed\<close>

definition decision_key :: "decision \<Rightarrow> string" where
  "decision_key d = join '' '' (dec_candidates d) @ ''|'' @ dec_chose d @ ''|'' @ dec_by_default d"

fun distinct_from :: "string list \<Rightarrow> decision list \<Rightarrow> decision list" where
  "distinct_from seen [] = []"
| "distinct_from seen (d # ds) =
     (if decision_key d \<in> set seen then distinct_from seen ds
      else d # distinct_from (decision_key d # seen) ds)"

definition distinct_decisions :: "decision list \<Rightarrow> decision list" where
  "distinct_decisions ds = distinct_from [] ds"

definition kind_of :: "string \<Rightarrow> string option" where
  "kind_of c = (case cut '':'' c of (kind, _, found) \<Rightarrow> if found then Some kind else None)"

definition decision_kinds :: "decision list \<Rightarrow> string list" where
  "decision_kinds ds = sort (uniq {} (List.map_filter kind_of (concat (map dec_candidates ds))))"

definition chose_only :: "decision list \<Rightarrow> string \<Rightarrow> bool" where
  "chose_only ds kind \<longleftrightarrow> list_all (\<lambda>d. has_prefix (kind @ '':'') (dec_chose d)) ds \<and> ds \<noteq> []"

text \<open>
  \<^verbatim>\<open>waitForCandidate\<close>: until a path of the kind is open, the watch ends, or the time is up. What the
  watch delivers before the time is up, its end as \<^const>\<open>None\<close>, is \<open>watched\<close>.
\<close>

fun wait_for_candidate :: "string \<Rightarrow> path_info list option list \<Rightarrow> bool" where
  "wait_for_candidate kind [] = False"
| "wait_for_candidate kind (None # ws) = False"
| "wait_for_candidate kind (Some ps # ws) =
     (if list_ex (\<lambda>p. path_network p = Some kind) ps then True else wait_for_candidate kind ws)"

definition await_candidate ::
  "call world \<Rightarrow> (io_hist \<Rightarrow> path_info list option list) \<Rightarrow> nat \<Rightarrow> string \<Rightarrow> unit io" where
  "await_candidate W watched conn kind =
     go_catch (invoke W (Lib ''Conn.WatchPaths'' [conn] [])) (\<lambda>w.
     case w of
       Inl e \<Rightarrow> go_ret ()
     | Inr _ \<Rightarrow> go_then (query W (\<lambda>_ h _. wait_for_candidate kind (watched h)) (Os Select)) (go_ret ()))"

definition decision_line :: "decision \<Rightarrow> string" where
  "decision_line d = ''select: candidates=['' @ join '' '' (dec_candidates d) @ ''] relayFirst='' @ dec_chose d @
     '' default='' @ dec_by_default d"

abbreviation (input) path_path_kind where
  "path_path_kind \<equiv> selected_path_kind"

text \<open>
  \<^verbatim>\<open>run\<close>: \<open>paths\<close> and \<open>watched\<close> are what the connection reports, \<open>offered\<close> the calls of \<^verbatim>\<open>Select\<close> the endpoint made,
  with the current path and the candidates of each.
\<close>

definition path_run ::
  "call world \<Rightarrow> 'a address_lib \<Rightarrow> (io_hist \<Rightarrow> path_info list) \<Rightarrow> (io_hist \<Rightarrow> path_info list option list) \<Rightarrow>
     (io_hist \<Rightarrow> ('a option \<times> 'a list) list) \<Rightarrow> unit io" where
  "path_run W A paths watched offered =
     (let alpn = ''go-iroh-examples/path-selection/1'' in
      go_try (query W got_text (Os HttpServe)) (\<lambda>url.
      go_defer (invoke W (Os HttpClose))
        (go_try (invoke_get W got_text (Os (ParseText ''relay url'' url))) (\<lambda>relay_url.
         go_try (bind_loopback W [WithALPNs [alpn], WithRelayMode (RelayCustom [relay_url])]) (\<lambda>server.
         go_defer (shutdown W server)
           (go_try (bind_loopback W [WithRelayMode (RelayCustom [relay_url]), WithPathSelector ''relayFirst'', WithRelayFirstDial]) (\<lambda>client.
            go_defer (shutdown W client)
              (go_try (go_wrap ''server online'' (invoke W (Net (Online server)))) (\<lambda>_.
               go_try (go_wrap ''client online'' (invoke W (Net (Online client)))) (\<lambda>_.
               go_try (query W got_text (Net (EndpointID server))) (\<lambda>i.
               go_try (query W got_text (Net (LocalAddr server))) (\<lambda>local.
               go_try (invoke W (Net (Connect client (WithIP (WithRelayURL (NewAddr i) relay_url) local) alpn))) (\<lambda>conn.
               go_defer (invoke W (Net (CloseConn conn 0 [])))
                 (go_try (invoke W (Net (Accept server))) (\<lambda>sconn.
                  go_defer (invoke W (Net (CloseConn sconn 0 [])))
                    (go_then (query W got_text (Lib ''AddExternalAddr'' [server] []))
                    (go_then (query W got_text (Lib ''AddExternalAddr'' [client] []))
                    (go_then (await_candidate W watched conn ''ip'')
                    (go_try (query W (\<lambda>_ h _. offered h) (Lib ''relayFirst.decisions'' [] [])) (\<lambda>calls.
                     let ds = fold (\<lambda>(cur, cs) seen. snd (relay_first_select A cur cs seen)) calls [] in
                     go_then (say_bool ''selector consulted:'' (ds \<noteq> []))
                     (go_then (println (''candidate kinds offered: '' @ join '','' (decision_kinds ds)))
                     (go_then (say_bool ''policy chose relay every time:'' (chose_only ds ''relay''))
                     (go_then (println_all (map decision_line (distinct_decisions ds)))
                     (go_try (query W (\<lambda>_ h _. paths h) (Net (ConnPaths conn))) (\<lambda>ps.
                      println (''selected path kind: '' @ path_path_kind ps))))))))))))))))))))))))))"

section \<open>Lemmas\<close>

text \<open>The order is one: total, antisymmetric and transitive on the addresses.\<close>

definition ordered :: "'a address_lib \<Rightarrow> bool" where
  "ordered A \<longleftrightarrow>
     (\<forall>a b. compare_addr A a b < 0 \<longleftrightarrow> compare_addr A b a > 0) \<and>
     (\<forall>a b. compare_addr A a b = 0 \<longrightarrow> a = b) \<and> (\<forall>a. compare_addr A a a = 0) \<and>
     (\<forall>a b c. compare_addr A a b \<le> 0 \<longrightarrow> compare_addr A b c \<le> 0 \<longrightarrow> compare_addr A a c \<le> 0)"

lemma ordered_rules:
  assumes "ordered A"
  shows "compare_addr A a a = 0" "\<not> compare_addr A a b < 0 \<Longrightarrow> compare_addr A b a \<le> 0"
    "compare_addr A a b \<le> 0 \<Longrightarrow> compare_addr A b c \<le> 0 \<Longrightarrow> compare_addr A a c \<le> 0"
  using assms unfolding ordered_def by (blast, metis not_less, blast)

definition relays :: "'a address_lib \<Rightarrow> 'a list \<Rightarrow> 'a list" where
  "relays A cs = filter (\<lambda>c. network A c = ''relay'') cs"

definition least_of :: "'a address_lib \<Rightarrow> 'a set \<Rightarrow> 'a option \<Rightarrow> bool" where
  "least_of A S r \<longleftrightarrow>
     (case r of None \<Rightarrow> S = {} | Some x \<Rightarrow> x \<in> S \<and> (\<forall>y \<in> S. compare_addr A x y \<le> 0))"

lemma least_of_unique: "ordered A \<Longrightarrow> least_of A S r \<Longrightarrow> least_of A S r' \<Longrightarrow> r = r'"
proof -
  assume o: "ordered A" and l: "least_of A S r" "least_of A S r'"
  have "x = y" if "compare_addr A x y \<le> 0" "compare_addr A y x \<le> 0" for x y
    using o that unfolding ordered_def by (metis linorder_not_less order_le_less)
  with l show "r = r'"
    by (cases r; cases r') (auto simp: least_of_def)
qed

lemma lowest_relay_least:
  assumes "ordered A" and "least_of A S best"
  shows "least_of A (S \<union> set (relays A cs)) (lowest_relay A best cs)"
  using assms(2)
proof (induction cs arbitrary: S best)
  case (Cons c cs)
  show ?case
  proof (cases "network A c = ''relay''")
    case False
    with Cons show ?thesis by (simp add: relays_def)
  next
    case True
    have step: "least_of A (insert c S) (case best of None \<Rightarrow> Some c
        | Some b \<Rightarrow> if compare_addr A c b < 0 then Some c else Some b)"
    proof (cases best)
      case None
      with Cons.prems ordered_rules(1) [OF assms(1)] show ?thesis by (simp add: least_of_def)
    next
      case (Some b)
      with Cons.prems have b: "b \<in> S" "\<forall>y \<in> S. compare_addr A b y \<le> 0"
        by (simp_all add: least_of_def)
      show ?thesis
      proof (cases "compare_addr A c b < 0")
        case True
        then have "\<forall>y \<in> S. compare_addr A c y \<le> 0"
          using ordered_rules(3) [OF assms(1)] b(2) less_imp_le by blast
        with True Some ordered_rules(1) [OF assms(1)] show ?thesis by (simp add: least_of_def)
      next
        case False
        with ordered_rules(2) [OF assms(1)] Some b show ?thesis by (simp add: least_of_def)
      qed
    qed
    have "lowest_relay A best (c # cs) = lowest_relay A (case best of None \<Rightarrow> Some c
        | Some b \<Rightarrow> if compare_addr A c b < 0 then Some c else Some b) cs"
      using True by (cases best) simp_all
    with Cons.IH [OF step] True show ?thesis
      by (simp add: relays_def)
  qed
qed (simp add: relays_def)

lemma lowest_relay_is_least: "ordered A \<Longrightarrow> least_of A (set (relays A cs)) (lowest_relay A None cs)"
  using lowest_relay_least [of A "{}" None cs] by (simp add: least_of_def)

lemma distinct_from_keys:
  "set (map decision_key (distinct_from seen ds)) = decision_key ` set ds - set seen \<and>
     distinct (map decision_key (distinct_from seen ds)) \<and> subseq (distinct_from seen ds) ds"
  by (induction seen ds rule: distinct_from.induct) auto

lemma owns_path_run: "owns opens_endpoint frees_endpoint {} (path_run W A paths watched offered) (\<lambda>_. {})"
  unfolding path_run_def await_candidate_def say_bool_def Let_def
  by (simp only: Diff_cancel | rule owns_try [OF owns_bind] owns_defer [OF drops_shutdown]
      owns_defer [where F = "{}"] owns_quiet_try owns_quiet_catch owns_wrap quiet_then
      owns_println owns_println_all owns_query owns_invoke owns_invoke_get owns_cases owns_ret | simp)+

section \<open>Properties\<close>

text \<open>The selector is stable: it picks a relay whenever one is offered and never anything else,
  the lowest in the order of addresses, so the same candidates in any order, and any more
  direct paths among them, give the same choice.\<close>

lemma relay_first_is_stable:
  assumes "ordered A" and "set (relays A cs) = set (relays A cs')"
  shows "fst (relay_first_select A cur cs seen) = fst (relay_first_select A cur' cs' seen') \<and>
    (case fst (relay_first_select A cur cs seen) of
       None \<Rightarrow> \<forall>c \<in> set cs. network A c \<noteq> ''relay''
     | Some r \<Rightarrow> r \<in> set cs \<and> network A r = ''relay'' \<and>
         (\<forall>c \<in> set cs. network A c = ''relay'' \<longrightarrow> compare_addr A r c \<le> 0))"
proof -
  note l = lowest_relay_is_least [OF assms(1)]
  have "lowest_relay A None cs = lowest_relay A None cs'"
    using least_of_unique [OF assms(1)] l [of cs] l [of cs'] assms(2) by metis
  moreover have "case lowest_relay A None cs of
       None \<Rightarrow> \<forall>c \<in> set cs. network A c \<noteq> ''relay''
     | Some r \<Rightarrow> r \<in> set cs \<and> network A r = ''relay'' \<and>
         (\<forall>c \<in> set cs. network A c = ''relay'' \<longrightarrow> compare_addr A r c \<le> 0)"
    using l [of cs] by (auto simp: least_of_def relays_def filter_empty_conv split: option.splits)
  ultimately show ?thesis
    by (simp add: relay_first_select_def Let_def)
qed

definition demo_addresses :: "nat address_lib" where
  "demo_addresses =
     \<lparr>network = \<lambda>n. if even n then ''relay'' else ''ip'', compare_addr = \<lambda>a b. int a - int b,
      addr_text = \<lambda>n. [], biased_rtt = \<lambda>cur cs. None\<rparr>"

lemma relay_first_is_stable_witness:
  "fst (relay_first_select demo_addresses None [8, 3, 4] []) = fst (relay_first_select demo_addresses (Some 8) [4, 8, 5, 7] []) \<and>
   fst (relay_first_select demo_addresses None [8, 3, 4] []) = Some 4"
proof -
  have "ordered demo_addresses" "set (relays demo_addresses [8, 3, 4]) = set (relays demo_addresses [4, 8, 5, 7])"
    by (auto simp: ordered_def demo_addresses_def relays_def)
  from relay_first_is_stable [OF this, of None "[]" "Some 8" "[]"] show ?thesis
    by (simp add: relay_first_select_def demo_addresses_def Let_def)
qed

text \<open>The log is complete and brief: of the decisions made, those printed are pairwise
  different, every decision made is one of them, and they stand in the order they were made.\<close>

lemma distinct_decisions_exact:
  "decision_key ` set (distinct_decisions ds) = decision_key ` set ds \<and>
    distinct (map decision_key (distinct_decisions ds)) \<and> subseq (distinct_decisions ds) ds"
  using distinct_from_keys [of "[]" ds] by (simp add: distinct_decisions_def)

end
