(* ===== verification/Json.thy ===== *)
theory Json
  imports GoStrings
begin

text \<open>
  \<^verbatim>\<open>encoding/json\<close> as the programs use it: a decoder of JSON texts, and \<^verbatim>\<open>json.Unmarshal\<close> into a
  struct with one string field. Bytes above 127 are kept as they are; the limit of 10000
  nested values is not modelled. Numbered characters: 5B, 5C, 5D, 7B, 7D are the brackets,
  the backslash and the braces, 22 the quote.
\<close>

section \<open>Values\<close>

datatype json = JNull | JBool bool | JNum string | JStr string | JArr "json list" | JObj "(string \<times> json) list"

definition json_space :: "char \<Rightarrow> bool" where
  "json_space c \<longleftrightarrow> c = CHR '' '' \<or> c = CHR 0x09 \<or> c = CHR 0x0A \<or> c = CHR 0x0D"

definition skip :: "string \<Rightarrow> string" where
  "skip s = dropWhile json_space s"

definition is_digit :: "char \<Rightarrow> bool" where
  "is_digit c \<longleftrightarrow> 48 \<le> (of_char c :: nat) \<and> (of_char c :: nat) \<le> 57"

section \<open>Strings\<close>

text \<open>A code point as UTF-8, and a pair of surrogates as one (a lone one is U+FFFD).\<close>

definition utf8 :: "nat \<Rightarrow> string" where
  "utf8 n =
     (if n < 128 then [char_of n]
      else if n < 2048 then [char_of (192 + n div 64), char_of (128 + n mod 64)]
      else if n < 65536 then [char_of (224 + n div 4096), char_of (128 + n div 64 mod 64), char_of (128 + n mod 64)]
      else [char_of (240 + n div 262144), char_of (128 + n div 4096 mod 64),
            char_of (128 + n div 64 mod 64), char_of (128 + n mod 64)])"

fun hex_digits :: "nat \<Rightarrow> nat \<Rightarrow> string \<Rightarrow> nat option" where
  "hex_digits 0 acc s = Some acc"
| "hex_digits (Suc n) acc [] = None"
| "hex_digits (Suc n) acc (c # cs) = (case hex_value c of None \<Rightarrow> None | Some v \<Rightarrow> hex_digits n (16 * acc + v) cs)"

definition hex4 :: "string \<Rightarrow> nat option" where
  "hex4 s = hex_digits 4 0 s"

text \<open>One \<^verbatim>\<open>\u\<close> escape, from after the \<^verbatim>\<open>u\<close>: its characters and how much input they took.\<close>

definition unicode_escape :: "string \<Rightarrow> (string \<times> nat) option" where
  "unicode_escape s = (case hex4 s of
     None \<Rightarrow> None
   | Some n \<Rightarrow>
       if 0xD800 \<le> n \<and> n < 0xDC00 \<and> take 2 (drop 4 s) = [CHR 0x5C, CHR ''u''] then
         (case hex4 (drop 6 s) of
            Some m \<Rightarrow> if 0xDC00 \<le> m \<and> m < 0xE000
                      then Some (utf8 (0x10000 + (n - 0xD800) * 1024 + (m - 0xDC00)), 10)
                      else Some (utf8 0xFFFD, 4)
          | None \<Rightarrow> Some (utf8 0xFFFD, 4))
       else if 0xD800 \<le> n \<and> n < 0xE000 then Some (utf8 0xFFFD, 4)
       else Some (utf8 n, 4))"

definition simple_escape :: "char \<Rightarrow> char option" where
  "simple_escape c =
     (if c = CHR 0x22 \<or> c = CHR 0x5C \<or> c = CHR ''/'' then Some c
      else if c = CHR ''b'' then Some (CHR 0x08) else if c = CHR ''f'' then Some (CHR 0x0C)
      else if c = CHR ''n'' then Some (CHR 0x0A) else if c = CHR ''r'' then Some (CHR 0x0D)
      else if c = CHR ''t'' then Some (CHR 0x09) else None)"

definition before :: "string \<Rightarrow> (string \<times> string) option \<Rightarrow> (string \<times> string) option" where
  "before w r = (case r of None \<Rightarrow> None | Some (v, rest) \<Rightarrow> Some (w @ v, rest))"

text \<open>A string's body, from after its opening quote.\<close>

function json_string :: "string \<Rightarrow> (string \<times> string) option" where
  "json_string s = (case s of
     [] \<Rightarrow> None
   | c # cs \<Rightarrow>
       if c = CHR 0x22 then Some ([], cs)
       else if (of_char c :: nat) < 32 then None
       else if c \<noteq> CHR 0x5C then before [c] (json_string cs)
       else (case cs of
         [] \<Rightarrow> None
       | e # r \<Rightarrow>
           if e = CHR ''u'' then
             (case unicode_escape r of None \<Rightarrow> None | Some (w, n) \<Rightarrow> before w (json_string (drop n r)))
           else (case simple_escape e of None \<Rightarrow> None | Some d \<Rightarrow> before [d] (json_string r))))"
  by auto
termination by (relation "measure length") auto

declare json_string.simps [simp del]

section \<open>Numbers\<close>

definition digits :: "string \<Rightarrow> string \<times> string" where
  "digits s = (takeWhile is_digit s, dropWhile is_digit s)"

definition opt_char :: "(char \<Rightarrow> bool) \<Rightarrow> string \<Rightarrow> string \<times> string" where
  "opt_char p s = (case s of [] \<Rightarrow> ([], s) | c # cs \<Rightarrow> if p c then ([c], cs) else ([], s))"

definition whole_part :: "string \<Rightarrow> string \<times> string" where
  "whole_part s = (case opt_char (\<lambda>c. c = CHR ''0'') s of (z, r) \<Rightarrow> if z = [] then digits s else (z, r))"

definition frac_part :: "string \<Rightarrow> (string \<times> string) option" where
  "frac_part s = (case opt_char (\<lambda>c. c = CHR ''.'') s of (dot, t) \<Rightarrow>
     if dot = [] then Some ([], s)
     else (case digits t of (d, r) \<Rightarrow> if d = [] then None else Some (dot @ d, r)))"

definition exp_part :: "string \<Rightarrow> (string \<times> string) option" where
  "exp_part s = (case opt_char (\<lambda>c. c = CHR ''e'' \<or> c = CHR ''E'') s of (ex, t) \<Rightarrow>
     if ex = [] then Some ([], s)
     else (case opt_char (\<lambda>c. c = CHR ''+'' \<or> c = CHR ''-'') t of (sign, u) \<Rightarrow>
       (case digits u of (d, r) \<Rightarrow> if d = [] then None else Some (ex @ sign @ d, r))))"

definition json_number :: "string \<Rightarrow> (string \<times> string) option" where
  "json_number s =
     (case opt_char (\<lambda>c. c = CHR ''-'') s of (sign, s1) \<Rightarrow>
      (case whole_part s1 of (whole, s2) \<Rightarrow>
       if whole = [] then None
       else (case frac_part s2 of
          None \<Rightarrow> None
        | Some (frac, s3) \<Rightarrow> before (sign @ whole @ frac) (exp_part s3))))"

section \<open>The decoder\<close>

text \<open>
  What a decoder eats: a part of the input without the record separator 1E, which no JSON text
  contains.
\<close>

definition eats :: "string \<Rightarrow> string \<Rightarrow> bool" where
  "eats s r \<longleftrightarrow> (\<exists>p. s = p @ r \<and> p \<noteq> [] \<and> CHR 0x1E \<notin> set p)"

lemma eats_Cons: "c \<noteq> CHR 0x1E \<Longrightarrow> eats (c # r) r"
  unfolding eats_def by (rule exI [of _ "[c]"]) simp

lemma eats_trans: "eats s t \<Longrightarrow> eats t r \<Longrightarrow> eats s r"
  unfolding eats_def by (metis Un_iff append_assoc append_is_Nil_conv set_append)

lemma eats_shorter: "eats s r \<Longrightarrow> length r < length s"
  by (auto simp: eats_def)

lemma eats_drop: "0 < n \<Longrightarrow> n \<le> length s \<Longrightarrow> CHR 0x1E \<notin> set (take n s) \<Longrightarrow> eats s (drop n s)"
  unfolding eats_def by (rule exI [of _ "take n s"]) auto

lemma eats_skip: "skip s = c # r \<Longrightarrow> c \<noteq> CHR 0x1E \<Longrightarrow> eats s r"
proof -
  assume s: "skip s = c # r" "c \<noteq> CHR 0x1E"
  then have "s = (takeWhile json_space s @ [c]) @ r"
    by (metis append.assoc append_Cons append_Nil skip_def takeWhile_dropWhile_id)
  moreover have "CHR 0x1E \<notin> set (takeWhile json_space s @ [c])"
    using s(2) by (auto simp: json_space_def dest: set_takeWhileD)
  ultimately show ?thesis
    unfolding eats_def by blast
qed

lemma skip_keeps: "CHR 0x1E \<in> set s \<Longrightarrow> CHR 0x1E \<in> set (skip s)"
proof -
  assume "CHR 0x1E \<in> set s"
  then have "CHR 0x1E \<in> set (takeWhile json_space s @ skip s)"
    by (simp add: skip_def)
  then show ?thesis by (auto simp: json_space_def dest: set_takeWhileD)
qed

lemma hex_value_separator: "hex_value (CHR 0x1E) = None"
  by (simp add: hex_value_def)

lemma hex_digits_eats: "hex_digits n acc s = Some v \<Longrightarrow> n \<le> length s \<and> CHR 0x1E \<notin> set (take n s)"
  by (induction n acc s rule: hex_digits.induct) (auto simp: hex_value_separator split: option.splits)

lemma hex4_eats: "hex4 s = Some n \<Longrightarrow> 4 \<le> length s \<and> CHR 0x1E \<notin> set (take 4 s)"
  unfolding hex4_def by (rule hex_digits_eats)

lemma take_10: "take 10 s = take 4 s @ take 2 (drop 4 s) @ take 4 (drop 6 s)"
  using take_add [of 4 6 s] take_add [of 2 4 "drop 4 s"] by simp

lemma unicode_escape_eats: "unicode_escape s = Some (w, n) \<Longrightarrow> eats s (drop n s)"
proof -
  assume e: "unicode_escape s = Some (w, n)"
  then obtain m where m: "hex4 s = Some m"
    by (auto simp: unicode_escape_def split: option.splits)
  have "n = 4 \<or> n = 10 \<and> take 2 (drop 4 s) = [CHR 0x5C, CHR ''u''] \<and> hex4 (drop 6 s) \<noteq> None"
    using e m by (auto simp: unicode_escape_def split: option.splits if_splits)
  then show ?thesis
  proof
    assume "n = 4"
    with hex4_eats [OF m] show ?thesis by (auto intro!: eats_drop)
  next
    assume n: "n = 10 \<and> take 2 (drop 4 s) = [CHR 0x5C, CHR ''u''] \<and> hex4 (drop 6 s) \<noteq> None"
    then have "4 \<le> length (drop 6 s) \<and> CHR 0x1E \<notin> set (take 4 (drop 6 s))"
      using hex4_eats by blast
    with n hex4_eats [OF m] show ?thesis
      by (intro eats_drop) (auto simp: take_10)
  qed
qed

lemma json_string_eats: "json_string s = Some (v, r) \<Longrightarrow> eats s r"
proof (induction s arbitrary: v rule: json_string.induct)
  case (1 s)
  show ?case
  proof (cases s)
    case Nil
    with 1(4) show ?thesis by (simp add: json_string.simps [of "[]"])
  next
    case (Cons c cs)
    note e = 1(4) [unfolded Cons json_string.simps [of "c # cs"] list.case]
    have c: "c \<noteq> CHR 0x1E" using e by (auto split: if_splits)
    consider "c = CHR 0x22" | "c \<noteq> CHR 0x22" "c \<noteq> CHR 0x5C" | "c = CHR 0x5C" by blast
    then show ?thesis
    proof cases
      case 1
      with e show ?thesis by (simp add: Cons eats_Cons)
    next
      case 2
      with e obtain v' where "json_string cs = Some (v', r)" "\<not> (of_char c :: nat) < 32"
        by (auto simp: before_def split: if_splits option.splits)
      with 2 "1.IH"(1) [OF Cons] have "eats cs r" by blast
      with c show ?thesis unfolding Cons by (blast intro: eats_Cons eats_trans)
    next
      case 3
      note c5 = 3
      with e obtain x xs where cs: "cs = x # xs"
        by (cases cs) auto
      note e' = e [unfolded cs list.case, simplified c5, simplified]
      have "eats cs r"
      proof (cases "x = CHR ''u''")
        case True
        with e' obtain w n v' where u: "unicode_escape xs = Some (w, n)" "json_string (drop n xs) = Some (v', r)"
          by (auto simp: before_def split: option.splits)
        with "1.IH"(2) [OF Cons] c5 cs True have "eats (drop n xs) r" by simp
        then have "eats xs r"
          by (rule eats_trans [OF unicode_escape_eats [OF u(1)]])
        moreover have "x \<noteq> CHR 0x1E" using True by simp
        ultimately show ?thesis unfolding cs by (blast intro: eats_Cons eats_trans)
      next
        case False
        with e' obtain d v' where u: "simple_escape x = Some d" "json_string xs = Some (v', r)"
          by (auto simp: before_def split: option.splits)
        then have "x \<noteq> CHR 0x1E" by (auto simp: simple_escape_def)
        moreover from u "1.IH"(3) [OF Cons] c5 cs False have "eats xs r" by simp
        ultimately show ?thesis unfolding cs by (blast intro: eats_Cons eats_trans)
      qed
      with c show ?thesis unfolding Cons by (blast intro: eats_Cons eats_trans)
    qed
  qed
qed

lemma length_skip: "length (skip s) \<le> length s"
  unfolding skip_def by (rule length_dropWhile_le)

lemma skip_Cons: "skip s = c # r \<Longrightarrow> length r < length s"
  using length_skip [of s] by simp

lemma json_string_shorter: "json_string s = Some (v, r) \<Longrightarrow> length r < length s"
  by (rule eats_shorter [OF json_string_eats])

text \<open>
  The rest of the input after a value is shorter than it, so the tests of lengths below
  never fail (\<open>json_eats\<close>); they show that the decoder ends.
\<close>

function json_value :: "string \<Rightarrow> (json \<times> string) option"
  and json_elements :: "string \<Rightarrow> (json list \<times> string) option"
  and json_members :: "string \<Rightarrow> ((string \<times> json) list \<times> string) option" where
  "json_value s = (case skip s of
     [] \<Rightarrow> None
   | c # r \<Rightarrow>
       if c = CHR 0x7B then
         (case skip r of
            [] \<Rightarrow> None
          | x # t \<Rightarrow> if x = CHR 0x7D then Some (JObj [], t)
                     else map_option (\<lambda>(ms, u). (JObj ms, u)) (json_members r))
       else if c = CHR 0x5B then
         (case skip r of
            [] \<Rightarrow> None
          | x # t \<Rightarrow> if x = CHR 0x5D then Some (JArr [], t)
                     else map_option (\<lambda>(vs, u). (JArr vs, u)) (json_elements r))
       else if c = CHR 0x22 then map_option (\<lambda>(v, u). (JStr v, u)) (json_string r)
       else if has_prefix ''true'' (c # r) then Some (JBool True, drop 4 (c # r))
       else if has_prefix ''false'' (c # r) then Some (JBool False, drop 5 (c # r))
       else if has_prefix ''null'' (c # r) then Some (JNull, drop 4 (c # r))
       else map_option (\<lambda>(n, u). (JNum n, u)) (json_number (c # r)))"
| "json_elements s = (case json_value s of
     None \<Rightarrow> None
   | Some (v, t) \<Rightarrow> (case skip t of
       [] \<Rightarrow> None
     | x # u \<Rightarrow>
         if x = CHR 0x5D then Some ([v], u)
         else if x = CHR '','' \<and> length u < length s
           then map_option (\<lambda>(vs, w). (v # vs, w)) (json_elements u)
         else None))"
| "json_members s = (case skip s of
     [] \<Rightarrow> None
   | q # r \<Rightarrow>
       if q \<noteq> CHR 0x22 then None
       else (case json_string r of
         None \<Rightarrow> None
       | Some (k, t) \<Rightarrow> (case skip t of
           [] \<Rightarrow> None
         | x # u \<Rightarrow>
             if x \<noteq> CHR '':'' then None
             else (case json_value u of
               None \<Rightarrow> None
             | Some (v, w) \<Rightarrow> (case skip w of
                 [] \<Rightarrow> None
               | y # z \<Rightarrow>
                   if y = CHR 0x7D then Some ([(k, v)], z)
                   else if y = CHR '','' \<and> length z < length s
                     then map_option (\<lambda>(ms, z'). ((k, v) # ms, z')) (json_members z)
                   else None)))))"
  by pat_completeness auto
termination
  by (relation "measure (\<lambda>x. case x of Inl s \<Rightarrow> 2 * length s | Inr (Inl s) \<Rightarrow> 2 * length s + 1
        | Inr (Inr s) \<Rightarrow> 2 * length s + 1)")
    (auto dest!: skip_Cons json_string_shorter)

declare json_value.simps [simp del] json_elements.simps [simp del] json_members.simps [simp del]

lemma digits_eats: "digits s = (d, r) \<Longrightarrow> s = d @ r \<and> CHR 0x1E \<notin> set d"
  by (auto simp: digits_def is_digit_def dest: set_takeWhileD)


lemma opt_char_eats: "opt_char p s = (d, r) \<Longrightarrow> \<not> p (CHR 0x1E) \<Longrightarrow> s = d @ r \<and> CHR 0x1E \<notin> set d"
  by (auto simp: opt_char_def split: list.splits if_splits)

lemma whole_part_eats: "whole_part s = (d, r) \<Longrightarrow> s = d @ r \<and> CHR 0x1E \<notin> set d"
  by (auto simp: whole_part_def split: prod.splits if_splits dest!: opt_char_eats digits_eats)

lemma frac_part_eats: "frac_part s = Some (d, r) \<Longrightarrow> s = d @ r \<and> CHR 0x1E \<notin> set d"
  by (auto simp: frac_part_def split: prod.splits if_splits dest!: opt_char_eats digits_eats)

lemma exp_part_eats: "exp_part s = Some (d, r) \<Longrightarrow> s = d @ r \<and> CHR 0x1E \<notin> set d"
  by (auto simp: exp_part_def split: prod.splits if_splits dest!: opt_char_eats digits_eats)

lemma json_number_eats: "json_number s = Some (v, r) \<Longrightarrow> eats s r"
proof -
  assume "json_number s = Some (v, r)"
  then obtain sign s1 whole s2 frac s3 e where
    "opt_char (\<lambda>c. c = CHR ''-'') s = (sign, s1)" "whole_part s1 = (whole, s2)" "whole \<noteq> []"
    "frac_part s2 = Some (frac, s3)" "exp_part s3 = Some (e, r)"
    by (auto simp: json_number_def before_def split: prod.splits if_splits option.splits)
  then have "s = (sign @ whole @ frac @ e) @ r \<and> sign @ whole @ frac @ e \<noteq> [] \<and> CHR 0x1E \<notin> set (sign @ whole @ frac @ e)"
    by (auto dest!: opt_char_eats whole_part_eats frac_part_eats exp_part_eats)
  then show ?thesis unfolding eats_def by blast
qed

lemma eats_literal: "has_prefix p s \<Longrightarrow> p \<noteq> [] \<Longrightarrow> CHR 0x1E \<notin> set p \<Longrightarrow> eats s (drop (length p) s)"
  by (auto simp: eats_def has_prefix_iff)

lemma eats_from_skip: "skip s = s' \<Longrightarrow> eats s' r \<Longrightarrow> eats s r"
proof -
  assume s: "skip s = s'" "eats s' r"
  then obtain p where p: "skip s = p @ r" "p \<noteq> []" "CHR 0x1E \<notin> set p"
    by (auto simp: eats_def)
  then have "s = (takeWhile json_space s @ p) @ r"
    by (metis append.assoc skip_def takeWhile_dropWhile_id)
  moreover have "CHR 0x1E \<notin> set (takeWhile json_space s @ p)"
    using p(3) by (auto simp: json_space_def dest: set_takeWhileD)
  ultimately show ?thesis
    using p(2) unfolding eats_def by blast
qed

text \<open>The steps of the decoder, as rules that peel one level off the input.\<close>

lemma json_value_cases:
  assumes "json_value s = Some (v, u)"
  obtains c r where "skip s = c # r" "c = CHR 0x7B \<or> c = CHR 0x5B" "\<exists>x. skip r = x # u \<and> (x = CHR 0x7D \<or> x = CHR 0x5D)"
  | c r ms where "skip s = c # r" "c = CHR 0x7B" "skip r \<noteq> []" "hd (skip r) \<noteq> CHR 0x7D" "json_members r = Some (ms, u)"
  | c r vs where "skip s = c # r" "c = CHR 0x5B" "skip r \<noteq> []" "hd (skip r) \<noteq> CHR 0x5D" "json_elements r = Some (vs, u)"
  | c r w where "skip s = c # r" "c = CHR 0x22" "json_string r = Some (w, u)"
  | c r p where "skip s = c # r" "has_prefix p (c # r)" "p \<in> {''true'', ''false'', ''null''}" "u = drop (length p) (c # r)"
  | c r n where "skip s = c # r" "json_number (c # r) = Some (n, u)"
proof (cases "skip s")
  case Nil
  with assms that show ?thesis by (simp add: json_value.simps [of s])
next
  case (Cons c r)
  note e = assms [unfolded json_value.simps [of s] Cons list.case]
  consider "c = CHR 0x7B" | "c = CHR 0x5B" | "c = CHR 0x22" | "c \<notin> {CHR 0x7B, CHR 0x5B, CHR 0x22}"
    by blast
  then show ?thesis
  proof cases
    case 1
    with e that(1,2) [OF Cons] show ?thesis
      by (cases "skip r") (auto split: if_splits)
  next
    case 2
    with e that(1,3) [OF Cons] show ?thesis
      by (cases "skip r") (auto split: if_splits)
  next
    case 3
    with e that(4) [OF Cons] show ?thesis by auto
  next
    case 4
    then have "has_prefix ''true'' (c # r) \<and> u = drop 4 (c # r) \<or> has_prefix ''false'' (c # r) \<and> u = drop 5 (c # r) \<or>
        has_prefix ''null'' (c # r) \<and> u = drop 4 (c # r) \<or> (\<exists>n. json_number (c # r) = Some (n, u))"
      using e by (auto split: if_splits)
    with that(5) [OF Cons, of "''true''"] that(5) [OF Cons, of "''false''"]
      that(5) [OF Cons, of "''null''"] that(6) [OF Cons] show ?thesis by (auto simp: eval_nat_numeral)
  qed
qed

lemma json_eats:
  "json_value s = Some (v, u) \<Longrightarrow> eats s u"
  "json_elements s = Some (vs, u) \<Longrightarrow> eats s u"
  "json_members s = Some (ms, u) \<Longrightarrow> eats s u"
proof (induction s and s and s arbitrary: v u and vs u and ms u
    rule: json_value_json_elements_json_members.induct)
  case (1 s)
  from 1(3) show ?case
  proof (cases rule: json_value_cases)
    case (1 c r)
    then show ?thesis by (auto intro: eats_trans [OF eats_skip] eats_skip)
  next
    case (2 c r ms)
    then have "eats r u"
      using "1.IH"(1) by (cases "skip r") auto
    with 2 show ?thesis by (auto intro: eats_trans [OF eats_skip])
  next
    case (3 c r vs)
    then have "eats r u"
      using "1.IH"(2) by (cases "skip r") auto
    with 3 show ?thesis by (auto intro: eats_trans [OF eats_skip])
  next
    case (4 c r w)
    then show ?thesis by (auto intro: eats_trans [OF eats_skip json_string_eats])
  next
    case (5 c r p)
    have "eats (c # r) (drop (length p) (c # r))"
      using 5(2,3) by (intro eats_literal) auto
    with 5 show ?thesis by (metis eats_from_skip)
  next
    case (6 c r n)
    then show ?thesis by (blast intro: eats_from_skip json_number_eats)
  qed
next
  case (2 s)
  from 2(3) obtain w t where w: "json_value s = Some (w, t)"
    by (auto simp: json_elements.simps [of s] split: option.splits)
  note e = 2(3) [unfolded json_elements.simps [of s] w option.case prod.case]
  then obtain x z where x: "skip t = x # z"
    by (cases "skip t") auto
  note e = e [unfolded x list.case]
  have "eats t z"
    using e eats_skip [OF x] by (auto split: if_splits)
  with "2.IH"(1) w have sz: "eats s z"
    by (blast intro: eats_trans)
  show ?case
  proof (cases "x = CHR 0x5D")
    case True
    with e sz show ?thesis by simp
  next
    case False
    with e obtain vs' where "x = CHR '',''" "length z < length s" "json_elements z = Some (vs', u)"
      by (auto split: if_splits)
    with "2.IH"(2) [OF w refl x False] sz show ?thesis
      by (blast intro: eats_trans)
  qed
next
  case (3 s)
  then obtain q r where q: "skip s = q # r"
    by (cases "skip s") (auto simp: json_members.simps [of s])
  note e = 3(3) [unfolded json_members.simps [of s] q list.case]
  then have q': "q = CHR 0x22" by (auto split: if_splits)
  note e = e [unfolded q', simplified]
  then obtain k t where k: "json_string r = Some (k, t)"
    by (cases "json_string r") auto
  note e = e [unfolded k option.case prod.case]
  then obtain x y where x: "skip t = x # y"
    by (cases "skip t") auto
  note e = e [unfolded x list.case]
  then have x': "x = CHR '':''" by (auto split: if_splits)
  note e = e [unfolded x', simplified]
  then obtain j w where j: "json_value y = Some (j, w)"
    by (cases "json_value y") auto
  note e = e [unfolded j option.case prod.case]
  then obtain c z where c: "skip w = c # z"
    by (cases "skip w") auto
  note e = e [unfolded c list.case]
  have ih: "eats y w"
    using "3.IH"(1) [OF q _ k refl x] q' x' j by simp
  have "eats w z"
    using e eats_skip [OF c] by (auto split: if_splits)
  with ih eats_skip [OF q] eats_skip [OF x] json_string_eats [OF k] q' x' have sz: "eats s z"
    by (simp, blast intro: eats_trans)
  show ?case
  proof (cases "c = CHR 0x7D")
    case True
    with e sz show ?thesis by simp
  next
    case False
    with e obtain ms' where "c = CHR '',''" "length z < length s" "json_members z = Some (ms', u)"
      by (auto split: if_splits)
    with "3.IH"(2) [OF q _ k refl x _ j refl c False] sz q' x' show ?thesis
      by (auto intro: eats_trans)
  qed
qed

text \<open>A whole text: one value, and white space around it.\<close>

definition json_parse :: "string \<Rightarrow> json option" where
  "json_parse s = (case json_value s of
     None \<Rightarrow> None | Some (v, r) \<Rightarrow> if skip r = [] then Some v else None)"

text \<open>
  \<^verbatim>\<open>json.Unmarshal\<close> into a struct with one field of type \<^verbatim>\<open>string\<close>, empty before: a key
  matches in any case, the last one counts, \<^verbatim>\<open>null\<close> leaves the field as it is, a value of
  another type is an error (\<open>None\<close>), and so is a text that is no JSON.
\<close>

fun string_member :: "string \<Rightarrow> (string \<times> json) list \<Rightarrow> string \<Rightarrow> string option" where
  "string_member key [] v = Some v"
| "string_member key ((k, j) # ms) v =
     (if to_lower k \<noteq> to_lower key then string_member key ms v
      else case j of JNull \<Rightarrow> string_member key ms v | JStr w \<Rightarrow> string_member key ms w | _ \<Rightarrow> None)"

definition string_field :: "string \<Rightarrow> string \<Rightarrow> string option" where
  "string_field key s = (case json_parse s of
     Some (JObj ms) \<Rightarrow> string_member key ms [] | Some JNull \<Rightarrow> Some [] | _ \<Rightarrow> None)"


lemma json_no_separator: "CHR 0x1E \<in> set s \<Longrightarrow> json_parse s = None"
proof (cases "json_value s")
  case (Some p)
  obtain v r where p: "p = (v, r)" by fastforce
  assume "CHR 0x1E \<in> set s"
  with json_eats(1) [OF Some [unfolded p]] have "CHR 0x1E \<in> set (skip r)"
    by (auto simp: eats_def intro: skip_keeps)
  with Some p show ?thesis by (auto simp: json_parse_def)
qed (simp add: json_parse_def)

section \<open>Writing\<close>

text \<open>
  \<^verbatim>\<open>json.Marshal\<close> of a struct of strings (of bytes below 128), in the order of its fields: quotes,
  backslashes and control characters are escaped, and so are the three characters HTML gives
  a meaning.
\<close>

definition short_escape :: "char \<Rightarrow> char option" where
  "short_escape c =
     (if c = CHR 0x22 \<or> c = CHR 0x5C then Some c
      else if c = CHR 0x08 then Some (CHR ''b'') else if c = CHR 0x0C then Some (CHR ''f'')
      else if c = CHR 0x0A then Some (CHR ''n'') else if c = CHR 0x0D then Some (CHR ''r'')
      else if c = CHR 0x09 then Some (CHR ''t'') else None)"

definition json_escape :: "char \<Rightarrow> string" where
  "json_escape c = (case short_escape c of
     Some e \<Rightarrow> [CHR 0x5C, e]
   | None \<Rightarrow>
       (let n = (of_char c :: nat) in
        if n < 32 \<or> c = CHR ''<'' \<or> c = CHR ''>'' \<or> c = CHR ''&''
        then [CHR 0x5C, CHR ''u'', CHR ''0'', CHR ''0'', hex_char (n div 16), hex_char (n mod 16)]
        else [c]))"

definition json_quote :: "string \<Rightarrow> string" where
  "json_quote s = [CHR 0x22] @ concat (map json_escape s) @ [CHR 0x22]"

fun json_fields :: "(string \<times> string) list \<Rightarrow> string" where
  "json_fields [] = [CHR 0x7D]"
| "json_fields [(k, v)] = json_quote k @ '':'' @ json_quote v @ [CHR 0x7D]"
| "json_fields ((k, v) # q # ms) = json_quote k @ '':'' @ json_quote v @ '','' @ json_fields (q # ms)"

definition json_object :: "(string \<times> string) list \<Rightarrow> string" where
  "json_object ms = [CHR 0x7B] @ json_fields ms"

lemma hex4_low:
  assumes "n < 128"
  shows "hex4 (CHR ''0'' # CHR ''0'' # hex_char (n div 16) # hex_char (n mod 16) # r) = Some n"
proof -
  have zero: "hex_value (CHR ''0'') = Some 0"
    by (simp add: hex_value_def)
  have high: "hex_value (hex_char (n div 16)) = Some (n div 16)"
    using assms by (intro hex_value_digit) simp
  have low: "hex_value (hex_char (n mod 16)) = Some (n mod 16)"
    by (intro hex_value_digit) simp
  have "hex_digits (Suc (Suc (Suc (Suc 0)))) 0 (CHR ''0'' # CHR ''0'' # hex_char (n div 16) # hex_char (n mod 16) # r)
      = Some (16 * (n div 16) + n mod 16)"
    by (simp only: hex_digits.simps zero high low option.case mult_zero_right add_0)
  moreover have "Suc (Suc (Suc (Suc 0))) = 4" by simp
  ultimately show ?thesis
    by (simp only: hex4_def mult_div_mod_eq)
qed

lemma unicode_escape_low:
  "n < 128 \<Longrightarrow> unicode_escape (CHR ''0'' # CHR ''0'' # hex_char (n div 16) # hex_char (n mod 16) # r) = Some ([char_of n], 4)"
  by (simp add: unicode_escape_def hex4_low utf8_def)

lemma json_string_plain:
  "c \<noteq> CHR 0x22 \<Longrightarrow> c \<noteq> CHR 0x5C \<Longrightarrow> 32 \<le> (of_char c :: nat) \<Longrightarrow> json_string (c # r) = before [c] (json_string r)"
  by (simp add: json_string.simps [of "c # r"])

lemma json_string_simple:
  "simple_escape e = Some d \<Longrightarrow> e \<noteq> CHR ''u'' \<Longrightarrow> json_string (CHR 0x5C # e # r) = before [d] (json_string r)"
  by (simp add: json_string.simps [of "CHR 0x5C # e # r"])

lemma json_string_unicode:
  "n < 128 \<Longrightarrow> json_string (CHR 0x5C # CHR ''u'' # CHR ''0'' # CHR ''0'' # hex_char (n div 16) # hex_char (n mod 16) # r)
     = before [char_of n] (json_string r)"
  by (simp add: json_string.simps [of "CHR 0x5C # CHR ''u'' # x" for x] unicode_escape_low)

lemma short_escape_back: "short_escape c = Some e \<Longrightarrow> simple_escape e = Some c \<and> e \<noteq> CHR ''u''"
  by (auto simp: short_escape_def simple_escape_def split: if_splits)

lemma short_escape_none: "short_escape c = None \<Longrightarrow> c \<noteq> CHR 0x22 \<and> c \<noteq> CHR 0x5C"
  by (auto simp: short_escape_def split: if_splits)

lemma json_string_escape:
  assumes "(of_char c :: nat) < 128"
  shows "json_string (json_escape c @ r) = before [c] (json_string r)"
proof (cases "short_escape c")
  case (Some e)
  then show ?thesis
    using short_escape_back by (simp add: json_escape_def json_string_simple)
next
  case None
  let ?n = "of_char c :: nat"
  show ?thesis
  proof (cases "?n < 32 \<or> c = CHR ''<'' \<or> c = CHR ''>'' \<or> c = CHR ''&''")
    case True
    with None have "json_escape c =
        [CHR 0x5C, CHR ''u'', CHR ''0'', CHR ''0'', hex_char (?n div 16), hex_char (?n mod 16)]"
      by (simp only: json_escape_def option.case Let_def if_True)
    with json_string_unicode [OF assms, of r] show ?thesis by simp
  next
    case False
    with None short_escape_none [OF None] show ?thesis
      by (simp add: json_escape_def json_string_plain)
  qed
qed

definition ascii :: "string \<Rightarrow> bool" where
  "ascii s \<longleftrightarrow> list_all (\<lambda>c. (of_char c :: nat) < 128) s"

lemma json_string_quote:
  "ascii s \<Longrightarrow> json_string (concat (map json_escape s) @ CHR 0x22 # r) = Some (s, r)"
proof (induction s)
  case Nil
  then show ?case by (simp add: json_string.simps [of "CHR 0x22 # r"])
next
  case (Cons c s)
  then show ?case by (simp add: ascii_def json_string_escape before_def)
qed

lemma skip_visible: "\<not> json_space c \<Longrightarrow> skip (c # r) = c # r"
  by (simp add: skip_def)

lemma punctuation_visible [simp]:
  "\<not> json_space (CHR 0x22)" "\<not> json_space (CHR 0x7B)" "\<not> json_space (CHR 0x7D)"
  "\<not> json_space (CHR '','')" "\<not> json_space (CHR '':'')"
  by (simp_all add: json_space_def)

lemma quote_Cons: "json_quote s @ r = CHR 0x22 # concat (map json_escape s) @ CHR 0x22 # r"
  by (simp add: json_quote_def)

lemma json_value_quote: "ascii v \<Longrightarrow> json_value (json_quote v @ r) = Some (JStr v, r)"
  unfolding quote_Cons by (subst json_value.simps) (simp add: skip_visible json_string_quote)

lemma json_members_one:
  assumes "ascii k" "ascii v" "\<not> json_space y"
  shows "json_members (json_quote k @ CHR '':'' # json_quote v @ y # z) =
    (if y = CHR 0x7D then Some ([(k, JStr v)], z)
     else if y = CHR '','' then map_option (\<lambda>(ms, z'). ((k, JStr v) # ms, z')) (json_members z) else None)"
  unfolding quote_Cons [of k]
  using assms by (subst json_members.simps)
    (simp add: skip_visible json_string_quote json_value_quote)

lemma json_members_fields:
  "ms \<noteq> [] \<Longrightarrow> \<forall>(k, v) \<in> set ms. ascii k \<and> ascii v \<Longrightarrow>
     json_members (json_fields ms @ rest) = Some (map (\<lambda>(k, v). (k, JStr v)) ms, rest)"
proof (induction ms rule: json_fields.induct)
  case (2 k v)
  then show ?case
    using json_members_one [of k v "CHR 0x7D" rest] by simp
next
  case (3 k v q ms)
  then have "json_members (json_fields (q # ms) @ rest) = Some (map (\<lambda>(k, v). (k, JStr v)) (q # ms), rest)"
    by simp
  with 3 show ?case
    using json_members_one [of k v "CHR '',''" "json_fields (q # ms) @ rest"] by simp
qed simp

lemma json_fields_quote: "ms \<noteq> [] \<Longrightarrow> \<exists>t. json_fields ms = CHR 0x22 # t"
  by (cases ms rule: json_fields.cases) (auto simp: json_quote_def)

lemma json_parse_object:
  assumes "ms \<noteq> []" "\<forall>(k, v) \<in> set ms. ascii k \<and> ascii v"
  shows "json_parse (json_object ms) = Some (JObj (map (\<lambda>(k, v). (k, JStr v)) ms))"
proof -
  obtain t where t: "json_fields ms = CHR 0x22 # t"
    using json_fields_quote [OF assms(1)] by blast
  have "json_value (json_object ms) = Some (JObj (map (\<lambda>(k, v). (k, JStr v)) ms), [])"
    using json_members_fields [OF assms, of "[]"] t
    by (subst json_value.simps) (simp add: json_object_def skip_visible)
  then show ?thesis
    by (simp add: json_parse_def skip_def)
qed

end
