(* ===== verification/Qlog.thy ===== *)
theory Qlog
  imports CustomTransport Json
begin

text \<open>
  \<^verbatim>\<open>cmd/go-iroh-qlog-tracing/main.go\<close>: the reader of JSON-seq traces, the sink that keeps
  traces in memory, and the run that records one connection from both ends. How the endpoint
  calls the sink (which trace it writes to and when) is the world's.
\<close>

section \<open>Reading a trace\<close>

text \<open>\<open>E\<close> is the error \<^verbatim>\<open>json.Unmarshal\<close> gives for a text it refuses. 1E is the separator.\<close>

fun names_of :: "(string \<Rightarrow> gerr) \<Rightarrow> string list \<Rightarrow> string list \<Rightarrow> gerr + string list" where
  "names_of E names [] = Inr names"
| "names_of E names (r # rs) =
     (let rec = trim_space r in
      if rec = [] then names_of E names rs
      else case string_field ''name'' rec of
        None \<Rightarrow> Inl (Wrapf (''record '' @ digits_of (length names)) (E rec))
      | Some n \<Rightarrow> names_of E (names @ [n]) rs)"

definition event_names :: "(string \<Rightarrow> gerr) \<Rightarrow> string \<Rightarrow> gerr + string list" where
  "event_names E trace = names_of E [] (split_on (CHR 0x1E) trace)"

definition has_event :: "string list \<Rightarrow> string \<Rightarrow> bool" where
  "has_event names want = list_ex (\<lambda>n. n = want \<or> has_suffix ('':'' @ want) n) names"

definition count_kinds :: "string list \<Rightarrow> nat" where
  "count_kinds names = length (uniq {} names)"

section \<open>The sink\<close>

record mem_trace =
  mt_id :: string
  mt_buf :: bytes
  mt_closed :: bool

type_synonym recorder = "mem_trace list"

definition sink_open :: "string \<Rightarrow> recorder \<Rightarrow> recorder" where
  "sink_open i r = r @ [\<lparr>mt_id = i, mt_buf = [], mt_closed = False\<rparr>]"

text \<open>A writer is named by the place of its trace; one that was not handed out does not exist.\<close>

definition sink_write :: "nat \<Rightarrow> bytes \<Rightarrow> recorder \<Rightarrow> recorder" where
  "sink_write k p r = (if k < length r then r[k := (r ! k)\<lparr>mt_buf := mt_buf (r ! k) @ p\<rparr>] else r)"

definition sink_close :: "nat \<Rightarrow> recorder \<Rightarrow> recorder" where
  "sink_close k r = (if k < length r then r[k := (r ! k)\<lparr>mt_closed := True\<rparr>] else r)"

datatype sink_op = SinkOpen string | SinkWrite nat bytes | SinkClose nat

fun sink_step :: "sink_op \<Rightarrow> recorder \<Rightarrow> recorder" where
  "sink_step (SinkOpen i) r = sink_open i r"
| "sink_step (SinkWrite k p) r = sink_write k p r"
| "sink_step (SinkClose k) r = sink_close k r"

definition sink_exec :: "sink_op list \<Rightarrow> recorder" where
  "sink_exec ops = fold sink_step ops []"

text \<open>One look of \<^verbatim>\<open>wait\<close>: the first trace that is \<^verbatim>\<open>done\<close>.\<close>

abbreviation (input) trace_done where
  "trace_done \<equiv> mt_closed"

definition first_done :: "recorder \<Rightarrow> mem_trace option" where
  "first_done r = find_first trace_done r"

section \<open>Waiting\<close>

text \<open>
  \<^verbatim>\<open>sinkRecorder.wait\<close>, \<open>sink\<close> telling what the endpoint has asked of the sink so far, and
  \<^verbatim>\<open>waitTrace\<close>. The event \<^const>\<open>Select\<close> is the wait of ten milliseconds; its flag is set when
  the context ended first.
\<close>

definition wait_sink :: "call world \<Rightarrow> (io_hist \<Rightarrow> sink_op list) \<Rightarrow> nat \<Rightarrow> mem_trace option io" where
  "wait_sink W sink fuel =
     go_loop fuel (\<lambda>_.
       go_try (query W (\<lambda>_ h _. first_done (sink_exec (sink h))) (Lib ''sinkRecorder.traces'' [] [])) (\<lambda>t.
       case t of
         Some x \<Rightarrow> go_ret (Inl (Some x))
       | None \<Rightarrow>
         go_try (query W got_flag (Os Select)) (\<lambda>ended.
         go_ret (if ended then Inl None else Inr ())))) ()"

fun first_nonempty :: "call world \<Rightarrow> string list \<Rightarrow> (bytes \<times> string) option io" where
  "first_nonempty W [] = go_ret None"
| "first_nonempty W (n # ns) =
     go_try (invoke_get W got_bytes (Os (ReadFile n))) (\<lambda>b.
     if b \<noteq> [] then go_ret (Some (b, path_base n)) else first_nonempty W ns)"

definition wait_trace :: "call world \<Rightarrow> nat \<Rightarrow> string \<Rightarrow> (bytes \<times> string) io" where
  "wait_trace W fuel dir =
     go_loop fuel (\<lambda>_.
       go_try (invoke_get W got_texts (Lib ''filepath.Glob'' [] [path_join [dir, ''*.sqlog'']])) (\<lambda>names.
       go_try (first_nonempty W names) (\<lambda>f.
       case f of
         Some x \<Rightarrow> go_ret (Inl x)
       | None \<Rightarrow>
         go_try (query W got_flag (Os Select)) (\<lambda>ended.
         if ended then go_wrap (''no qlog trace in '' @ dir)
             (go_try (query W got_text (Os CtxErr)) (\<lambda>e. go_fail (Err e)))
         else go_ret (Inr ()))))) ()"

section \<open>The run\<close>

definition qlog_alpn :: string where
  "qlog_alpn = ''go-iroh-examples/qlog-tracing/1''"

definition qlog_payload :: string where
  "qlog_payload = ''qlog-tracing-payload''"

definition report_trace :: "(string \<Rightarrow> gerr) \<Rightarrow> string \<Rightarrow> string \<Rightarrow> unit io" where
  "report_trace E name trace =
     go_try (go_wrap (name @ '' trace'') (go_lift (event_names E trace))) (\<lambda>names.
     go_then (println (name @ '' trace: '' @ digits_of (length names) @ '' records, '' @ digits_of (count_kinds names) @ '' event kinds''))
     (go_then (say_bool (name @ '' trace has packet_sent:'') (has_event names ''packet_sent''))
     (say_bool (name @ '' trace contains the payload:'') (contains qlog_payload trace))))"

abbreviation (input) qlog_bind where
  "qlog_bind \<equiv> bind_loopback"

abbreviation (input) qlog_echo where
  "qlog_echo \<equiv> echo"

abbreviation (input) qlog_exchange where
  "qlog_exchange \<equiv> exchange"

text \<open>The server's goroutine runs where its result is awaited.\<close>

definition qlog_run :: "call world \<Rightarrow> (io_hist \<Rightarrow> sink_op list) \<Rightarrow> (string \<Rightarrow> gerr) \<Rightarrow> nat \<Rightarrow> unit io" where
  "qlog_run W sink E fuel =
     go_try (invoke W (Os (MkdirTemp ''qlog''))) (\<lambda>tmp.
     go_defer (invoke W (Os (RemoveTemp tmp)))
       (go_try (query W got_text (Os (TempPath tmp))) (\<lambda>dir.
        go_try (qlog_bind W [WithALPNs [qlog_alpn], WithQLOG ''traces.open'']) (\<lambda>server.
        go_defer (shutdown W server)
          (go_try (qlog_bind W [WithQLOG dir]) (\<lambda>client.
           go_defer (shutdown W client)
             (go_try (invoke W (Net (Connect client (AddrOf server) qlog_alpn))) (\<lambda>conn.
              go_try (qlog_exchange W conn qlog_payload) (\<lambda>reply.
              go_try (go_try (invoke W (Net (Accept server))) (\<lambda>sconn. qlog_echo W sconn)) (\<lambda>_.
              go_then (println (''reply: '' @ reply))
              (go_then (invoke W (Net (CloseConn conn 0 ''done'')))
              (go_try (wait_trace W fuel dir) (\<lambda>(client_trace, name).
               go_try (wait_sink W sink fuel) (\<lambda>t.
               case t of
                 None \<Rightarrow> go_fail (Err ''server recorded no trace'')
               | Some server_trace \<Rightarrow>
                 (case cut ''_'' (trim_suffix ''.sqlog'' name) of (i, side, _) \<Rightarrow>
                  go_then (println (''client trace side: '' @ side))
                  (go_then (say_bool ''both ends share the connection id:'' (i = mt_id server_trace))
                  (go_try (report_trace E ''client'' (text_of client_trace)) (\<lambda>_.
                   report_trace E ''server'' (text_of (mt_buf server_trace))))))))))))))))))))"

section \<open>Lemmas\<close>

lemma owns_first_nonempty: "owns opens_endpoint frees_endpoint {} (first_nonempty W ns) (\<lambda>_. {})"
proof (induction ns)
  case (Cons n ns)
  show ?case
    unfolding first_nonempty.simps
    by (rule owns_quiet_try owns_cases owns_invoke_get owns_ret Cons.IH | simp)+
qed (simp add: owns_ret)

lemma owns_qlog_run: "owns opens_endpoint frees_endpoint {} (qlog_run W sink E fuel) (\<lambda>_. {})"
proof -
  have report: "owns opens_endpoint frees_endpoint {} (report_trace E n t) (\<lambda>_. {})" for n t
    unfolding report_trace_def
    by (rule owns_quiet_try owns_wrap owns_lift quiet_then owns_println owns_say_bool | simp)+
  have sink: "owns opens_endpoint frees_endpoint {} (wait_sink W sink fuel) (\<lambda>_. {})"
    unfolding wait_sink_def
    by (rule owns_loop owns_quiet_try owns_cases owns_query owns_ret | simp)+
  have trace: "owns opens_endpoint frees_endpoint {} (wait_trace W fuel d) (\<lambda>_. {})" for d
    unfolding wait_trace_def
    by (rule owns_loop owns_quiet_try owns_cases owns_wrap owns_query owns_fail owns_invoke_get owns_first_nonempty owns_ret | simp)+
  show ?thesis
    unfolding qlog_run_def
    by (simp only: Diff_cancel | rule report sink trace owns_try [OF owns_bind] owns_quiet_try owns_defer [OF drops_shutdown]
        owns_defer [where F = "{}"] owns_exchange owns_echo quiet_then owns_fail owns_say_bool
        owns_println owns_query owns_invoke owns_cases owns_ret | simp)+
qed

text \<open>
  A trace as a writer lays it out: before each record the separator, around it white space.
\<close>

definition trace_of :: "(string \<times> string \<times> string) list \<Rightarrow> string" where
  "trace_of recs = concat (map (\<lambda>(a, r, b). CHR 0x1E # a @ r @ b) recs)"

definition laid_out :: "string \<times> string \<times> string \<Rightarrow> bool" where
  "laid_out q = (case q of (a, r, b) \<Rightarrow>
     list_all is_space a \<and> list_all is_space b \<and> r \<noteq> [] \<and> \<not> is_space (hd r) \<and> \<not> is_space (last r) \<and>
     (string_field ''name'' r = None \<longrightarrow> CHR 0x1E \<notin> set r))"

lemma trim_padded:
  assumes "list_all p a" "list_all p b" "r \<noteq> []" "\<not> p (hd r)" "\<not> p (last r)"
  shows "trim p (a @ r @ b) = r"
proof -
  have "dropWhile p (a @ r @ b) = r @ b"
    using assms by (cases r) (auto simp: list_all_iff dropWhile_append)
  moreover have "dropWhile p (rev b @ rev r) = rev r"
    using assms by (cases r rule: rev_cases) (auto simp: list_all_iff dropWhile_append)
  ultimately show ?thesis
    by (simp add: trim_def trim_left_def trim_right_def)
qed

lemma separator_no_space: "\<not> is_space (CHR 0x1E)"
  by code_simp

lemma laid_out_separator: "laid_out (a, r, b) \<Longrightarrow> CHR 0x1E \<notin> set (a @ r @ b)"
proof -
  assume l: "laid_out (a, r, b)"
  have "CHR 0x1E \<notin> set r"
  proof (cases "string_field ''name'' r")
    case None
    with l show ?thesis by (simp add: laid_out_def)
  next
    case (Some n)
    then have "json_parse r \<noteq> None" by (cases "json_parse r") (simp_all add: string_field_def)
    then show ?thesis using json_no_separator [of r] by argo
  qed
  moreover have "CHR 0x1E \<notin> set a" "CHR 0x1E \<notin> set b"
    using l separator_no_space by (auto simp: laid_out_def list_all_iff)
  ultimately show ?thesis by simp
qed

lemma split_trace:
  "list_all laid_out recs \<Longrightarrow> split_on (CHR 0x1E) (trace_of recs) = [] # map (\<lambda>(a, r, b). a @ r @ b) recs"
proof (induction recs)
  case (Cons q recs)
  obtain a r b where q: "q = (a, r, b)" by (cases q) auto
  have t: "trace_of (q # recs) = CHR 0x1E # (a @ r @ b) @ trace_of recs"
    by (simp add: trace_of_def q)
  have no: "CHR 0x1E \<notin> set (a @ r @ b)"
    by (rule laid_out_separator) (use Cons.prems q in simp)
  have "split_on (CHR 0x1E) ((a @ r @ b) @ trace_of recs) = (a @ r @ b) # map (\<lambda>(a, r, b). a @ r @ b) recs"
  proof (cases recs)
    case Nil
    with no show ?thesis by (simp add: trace_of_def split_on_absent del: set_append append_assoc)
  next
    case (Cons q' recs')
    obtain u where u: "trace_of recs = CHR 0x1E # u"
      by (cases q') (simp add: trace_of_def Cons)
    with Cons.IH Cons.prems have "split_on (CHR 0x1E) u = map (\<lambda>(a, r, b). a @ r @ b) recs"
      by simp
    with split_on_append [OF no, of u] u show ?thesis by simp
  qed
  then show ?case by (simp add: t [unfolded q] q)
qed (simp add: trace_of_def)

fun names_or_fault :: "(string \<Rightarrow> gerr) \<Rightarrow> nat \<Rightarrow> string list \<Rightarrow> gerr + string list" where
  "names_or_fault E n [] = Inr []"
| "names_or_fault E n (r # rs) =
     (case string_field ''name'' r of
        None \<Rightarrow> Inl (Wrapf (''record '' @ digits_of n) (E r))
      | Some x \<Rightarrow> map_sum id ((#) x) (names_or_fault E (Suc n) rs))"

lemma names_of_laid_out:
  "list_all laid_out recs \<Longrightarrow> names_of E names (map (\<lambda>(a, r, b). a @ r @ b) recs) =
     map_sum id ((@) names) (names_or_fault E (length names) (map (\<lambda>(a, r, b). r) recs))"
proof (induction recs arbitrary: names)
  case (Cons q recs)
  obtain a r b where q: "q = (a, r, b)" by (cases q) auto
  with Cons.prems have "trim_space (a @ r @ b) = r" "r \<noteq> []"
    unfolding trim_space_def by (auto simp: laid_out_def intro!: trim_padded)
  with Cons show ?case
    by (cases "names_or_fault E (Suc (length names)) (map (\<lambda>(a, r, b). r) recs)")
      (simp_all add: q Let_def split: option.splits)
qed simp

section \<open>Properties\<close>

text \<open>C25. Reading back a trace: for records laid out as RFC 7464 says, with white space around them,
  \<^verbatim>\<open>eventNames\<close> returns their names in order; if some record is no JSON object with a string
  for a name, it reports the first such record, by its place. Only of a faulty record is it
  asked that it holds no separator: no JSON text does, so splitting at 1E cuts no valid one.\<close>

theorem event_names_exact:
  assumes "list_all laid_out recs"
  shows "event_names E (trace_of recs) = names_or_fault E 0 (map (\<lambda>(a, r, b). r) recs)"
proof -
  have "event_names E (trace_of recs) = names_of E [] (map (\<lambda>(a, r, b). a @ r @ b) recs)"
    using split_trace [OF assms] by (simp add: event_names_def trim_space_def trim_def trim_left_def trim_right_def)
  also have "\<dots> = map_sum id ((@) []) (names_or_fault E 0 (map (\<lambda>(a, r, b). r) recs))"
    using names_of_laid_out [OF assms, of E "[]"] by simp
  also have "\<dots> = names_or_fault E 0 (map (\<lambda>(a, r, b). r) recs)"
    by (cases "names_or_fault E 0 (map (\<lambda>(a, r, b). r) recs)") simp_all
  finally show ?thesis .
qed

definition demo_record :: "string \<Rightarrow> string" where
  "demo_record n = [CHR 0x7B, CHR 0x22] @ ''name'' @ [CHR 0x22, CHR '':'', CHR 0x22] @ n @ [CHR 0x22, CHR 0x7D]"

theorem event_names_exact_witness:
  "event_names Err (trace_of [([], demo_record ''a:b'', [CHR 0x0A]), ([], demo_record ''c'', [CHR 0x0A])]) = Inr [''a:b'', ''c''] \<and>
   event_names Err (trace_of [([], demo_record ''a'', []), ([], ''x'', [])]) = Inl (Wrapf ''record 1'' (Err ''x''))"
proof -
  have l: "list_all laid_out [([], demo_record ''a:b'', [CHR 0x0A]), ([], demo_record ''c'', [CHR 0x0A])]"
    "list_all laid_out [([], demo_record ''a'', []), ([], ''x'', [])]"
    by (simp_all, code_simp+)
  have n: "names_or_fault Err 0 [demo_record ''a:b'', demo_record ''c''] = Inr [''a:b'', ''c'']"
    "names_or_fault Err 0 [demo_record ''a'', ''x''] = Inl (Wrapf ''record 1'' (Err ''x''))"
    by code_simp+
  show ?thesis
    using event_names_exact [OF l(1), of Err] event_names_exact [OF l(2), of Err] n by simp
qed

end
