(* ===== verification/Automerge.thy ===== *)
theory Automerge
  imports Streams
begin

text \<open>
  \<^verbatim>\<open>cmd/go-iroh-automerge/main.go\<close>: the Automerge sync protocol over one stream. The document
  library is a parameter; the framing and the two halves of the protocol are the program's.
  The protocol as its two loops run it over bytes is shown to refine a conversation of
  messages in rounds.
\<close>

section \<open>The document library\<close>

text \<open>
  A sync state holds its document: \<open>am_generate\<close> is \<^verbatim>\<open>SyncState.GenerateMessage\<close> (\<^const>\<open>None\<close> for its
  \<^verbatim>\<open>false\<close>), \<open>am_receive\<close> \<^verbatim>\<open>ReceiveMessage\<close>, \<open>am_doc\<close> the document as it has become.
\<close>

record ('doc, 'st) automerge_lib =
  am_new :: "'doc \<Rightarrow> 'st"
  am_generate :: "'st \<Rightarrow> bytes option \<times> 'st"
  am_receive :: "'st \<Rightarrow> bytes \<Rightarrow> gerr + 'st"
  am_doc :: "'st \<Rightarrow> 'doc"
  am_empty :: 'doc
  am_set :: "'doc \<Rightarrow> string \<Rightarrow> string \<Rightarrow> gerr + 'doc"
  am_keys :: "'doc \<Rightarrow> gerr + string list"
  am_get :: "'doc \<Rightarrow> string \<Rightarrow> gerr + string"

section \<open>Framing\<close>

definition am_alpn :: string where
  "am_alpn = ''iroh/automerge/2''"

definition max_sync_message_size :: u64 where
  "max_sync_message_size = push_bit 20 16"

text \<open>
  \<^verbatim>\<open>binary.LittleEndian\<close> on 64 bits: the big-endian bytes, last first, of the two halves. The
  reader is called with eight bytes.
\<close>

definition put_le64 :: "u64 \<Rightarrow> bytes" where
  "put_le64 w = rev (put_be32 (ucast w)) @ rev (put_be32 (ucast (drop_bit 32 w)))"

definition get_le64 :: "bytes \<Rightarrow> u64" where
  "get_le64 b = or (ucast (get_be32 (rev (take 4 b)))) (push_bit 32 (ucast (get_be32 (rev (take 4 (drop 4 b))))))"

definition send_sync_message :: "bytes option \<Rightarrow> (duplex, unit) go" where
  "send_sync_message msg =
     (case msg of
        None \<Rightarrow> write_bytes (replicate 8 0)
      | Some b \<Rightarrow>
          go_try (write_bytes (put_le64 (word_of_nat (length b)))) (\<lambda>_.
          write_bytes b))"

text \<open>\<^verbatim>\<open>receiveSyncMessage\<close>, its two halves: the frame, and its application to the state.\<close>

definition receive_sync_frame :: "(duplex, bytes option) go" where
  "receive_sync_frame =
     go_try (read_full 8) (\<lambda>hdr.
     let n = get_le64 hdr in
     if n = 0 then go_ret None
     else if max_sync_message_size < n
     then go_fail (Err (''automerge sync message too large: '' @ digits_of (unat n)))
     else go_try (read_full (unat n)) (\<lambda>b. go_ret (Some b)))"

definition receive_sync_message :: "('doc, 'st) automerge_lib \<Rightarrow> 'st \<Rightarrow> (duplex, bool \<times> 'st) go" where
  "receive_sync_message L st =
     go_try receive_sync_frame (\<lambda>m.
     case m of
       None \<Rightarrow> go_ret (True, st)
     | Some b \<Rightarrow> go_try (go_lift (am_receive L st b)) (\<lambda>st'. go_ret (False, st')))"

section \<open>The two halves of the protocol\<close>

text \<open>One round each; the loops run at most \<open>fuel\<close> of them.\<close>

definition initiate_round :: "('doc, 'st) automerge_lib \<Rightarrow> 'st \<Rightarrow> (duplex, 'st + 'st) go" where
  "initiate_round L st =
     (let (msg, st1) = am_generate L st in
      go_try (send_sync_message msg) (\<lambda>_.
      go_try (receive_sync_message L st1) (\<lambda>(remote_done, st2).
      go_ret (if msg = None \<and> remote_done then Inl st2 else Inr st2))))"

definition respond_round :: "('doc, 'st) automerge_lib \<Rightarrow> 'st \<Rightarrow> (duplex, 'st + 'st) go" where
  "respond_round L st =
     go_try (receive_sync_message L st) (\<lambda>(remote_done, st1).
     let (msg, st2) = am_generate L st1 in
     go_try (send_sync_message msg) (\<lambda>_.
     go_ret (if remote_done \<and> msg = None then Inl st2 else Inr st2)))"

definition initiate_loop :: "('doc, 'st) automerge_lib \<Rightarrow> nat \<Rightarrow> 'st \<Rightarrow> (duplex, 'st) go" where
  "initiate_loop L fuel = go_loop fuel (initiate_round L)"

definition respond_loop :: "('doc, 'st) automerge_lib \<Rightarrow> nat \<Rightarrow> 'st \<Rightarrow> (duplex, 'st) go" where
  "respond_loop L fuel = go_loop fuel (respond_round L)"

definition initiate_sync :: "call world \<Rightarrow> ('doc, 'st) automerge_lib \<Rightarrow> nat \<Rightarrow> nat \<Rightarrow> 'doc \<Rightarrow> 'doc io" where
  "initiate_sync W L fuel conn doc =
     go_try (invoke W (Net (OpenStream conn))) (\<lambda>s.
     go_defer (invoke W (Net (CloseStream s)))
       (go_try (on_stream W s (initiate_loop L fuel (am_new L doc))) (\<lambda>st.
        go_ret (am_doc L st))))"

definition respond_sync :: "call world \<Rightarrow> ('doc, 'st) automerge_lib \<Rightarrow> nat \<Rightarrow> nat \<Rightarrow> 'doc \<Rightarrow> 'doc io" where
  "respond_sync W L fuel conn doc =
     go_try (invoke W (Net (AcceptStream conn))) (\<lambda>s.
     go_defer (invoke W (Net (CloseStream s)))
       (go_try (on_stream W s (respond_loop L fuel (am_new L doc))) (\<lambda>st.
        go_ret (am_doc L st))))"

section \<open>The run\<close>

text \<open>\<^verbatim>\<open>automergeHandler.Accept\<close>: the document is handed over unless the context is done first.\<close>

definition am_accept :: "call world \<Rightarrow> ('doc, 'st) automerge_lib \<Rightarrow> nat \<Rightarrow> nat \<Rightarrow> 'doc \<Rightarrow> 'doc io" where
  "am_accept W L fuel conn doc =
     go_try (respond_sync W L fuel conn doc) (\<lambda>d.
     go_try (query W got_flag (Os Select)) (\<lambda>ended.
     if ended then go_try (query W got_text (Os CtxErr)) (\<lambda>e. go_fail (Err e)) else go_ret d))"

fun print_entries :: "('doc, 'st) automerge_lib \<Rightarrow> 'doc \<Rightarrow> string list \<Rightarrow> unit io" where
  "print_entries L doc [] = go_ret ()"
| "print_entries L doc (k # ks) =
     go_try (go_wrap (''read '' @ k) (go_lift (am_get L doc k))) (\<lambda>v.
     go_then (println (k @ '' => '' @ quote v)) (print_entries L doc ks))"

definition show_doc :: "('doc, 'st) automerge_lib \<Rightarrow> 'doc \<Rightarrow> unit io" where
  "show_doc L doc =
     go_try (go_wrap ''read keys'' (go_lift (am_keys L doc))) (\<lambda>keys.
     go_then (println ''State'') (print_entries L doc (sort keys)))"

fun set_entries :: "('doc, 'st) automerge_lib \<Rightarrow> nat list \<Rightarrow> 'doc \<Rightarrow> 'doc io" where
  "set_entries L [] doc = go_ret doc"
| "set_entries L (i # js) doc =
     go_try (go_wrap (''set key-'' @ digits_of i)
       (go_lift (am_set L doc (''key-'' @ digits_of i) (''value-'' @ digits_of i)))) (\<lambda>doc'.
     set_entries L js doc')"

abbreviation (input) am_bind where
  "am_bind \<equiv> bind_loopback"

text \<open>
  \<^verbatim>\<open>run\<close>. The handler, which the router runs for the connection, runs where its document is
  awaited; if it gives none, what is awaited is the end of the context.
\<close>

definition am_run :: "call world \<Rightarrow> ('doc, 'st) automerge_lib \<Rightarrow> nat \<Rightarrow> unit io" where
  "am_run W L fuel =
     go_try (am_bind W []) (\<lambda>server.
     go_try (invoke W (Net (NewRouter server [am_alpn]))) (\<lambda>router.
     go_defer (invoke W (Net (RouterShutdown router server)))
       (go_try (am_bind W []) (\<lambda>client.
        go_defer (shutdown W client)
          (go_try (set_entries L [0, 1, 2, 3, 4] (am_empty L)) (\<lambda>sender.
           go_try (query W got_text (Net (EndpointID server))) (\<lambda>short.
           go_try (go_wrap (''connect to '' @ short) (invoke W (Net (Connect client (AddrOf server) am_alpn)))) (\<lambda>conn.
           go_try (initiate_sync W L fuel conn sender) (\<lambda>_.
           go_then (invoke W (Net (CloseConn conn 0 ''thanks, bye'')))
           (go_catch (go_try (invoke W (Net (Accept server))) (\<lambda>sconn. am_accept W L fuel sconn (am_empty L))) (\<lambda>r.
            case r of
              Inr doc \<Rightarrow> show_doc L doc
            | Inl _ \<Rightarrow> go_try (query W got_text (Os CtxErr)) (\<lambda>e. go_fail (Err e)))))))))))))"

section \<open>What a message is on the wire\<close>

definition sync_frame :: "bytes option \<Rightarrow> bytes" where
  "sync_frame m = (case m of None \<Rightarrow> replicate 8 0 | Some b \<Rightarrow> put_le64 (word_of_nat (length b)) @ b)"

text \<open>The messages a peer can read: none, or one of 1 byte to 16 MiB.\<close>

definition readable :: "bytes option \<Rightarrow> bool" where
  "readable m = (case m of None \<Rightarrow> True | Some b \<Rightarrow> 0 < length b \<and> length b \<le> 16777216)"

lemma length_put_le64 [simp]: "length (put_le64 w) = 8"
  by (simp add: put_le64_def)

lemma get_put_le64 [simp]: "get_le64 (put_le64 w) = w"
proof -
  have be: "get_be32 (put_be32 v) = v" for v
    using get_put_be32 [of v "[]"] by simp
  have "get_le64 (put_le64 w) = or (ucast (ucast w :: u32)) (push_bit 32 (ucast (ucast (drop_bit 32 w) :: u32)))"
    by (simp add: get_le64_def put_le64_def be)
  also have "\<dots> = w"
    by (rule bit_word_eqI) (auto simp: bit_simps)
  finally show ?thesis .
qed

lemma get_le64_zeros [simp]: "get_le64 (replicate 8 0) = 0"
  by (simp add: get_le64_def eval_nat_numeral)

lemma send_sync_ok:
  "broken d = None \<Longrightarrow> send_sync_message m d = (Inr (), d\<lparr>outp := outp d @ sync_frame m\<rparr>)"
  by (cases m) (simp_all add: send_sync_message_def sync_frame_def write_bytes_def go_simps)

lemma unat_len: "readable (Some b) \<Longrightarrow> unat (word_of_nat (length b) :: u64) = length b"
  by (simp add: readable_def unsigned_of_nat take_bit_nat_eq_self_iff)

lemma max_sync_nat: "(max_sync_message_size < n) = (16777216 < unat n)"
  by (simp add: max_sync_message_size_def word_less_nat_alt)

lemma receive_sync_ok:
  assumes "readable m" and "inp d = sync_frame m @ rest"
  shows "receive_sync_frame d = (Inr m, d\<lparr>inp := rest\<rparr>)"
proof (cases m)
  case None
  with assms show ?thesis
    by (simp add: receive_sync_frame_def sync_frame_def go_simps)
next
  case (Some b)
  let ?n = "word_of_nat (length b) :: u64"
  have n: "unat ?n = length b"
    using assms(1) unat_len Some by blast
  then have "?n \<noteq> 0" "\<not> max_sync_message_size < ?n"
    using assms(1) Some by (auto simp: readable_def max_sync_nat)
  with assms(2) n Some show ?thesis
    by (simp add: receive_sync_frame_def sync_frame_def go_simps Let_def)
qed

text \<open>What \<^verbatim>\<open>receiveSyncMessage\<close> returns is the front of the input, and it is bounded.\<close>

lemma receive_sync_sound:
  assumes "receive_sync_frame d = (Inr m, d')"
  shows "readable m \<and> (\<exists>hdr. length hdr = 8 \<and> inp d = hdr @ (case m of None \<Rightarrow> [] | Some b \<Rightarrow> b) @ inp d')"
proof -
  from assms have len: "8 \<le> length (inp d)"
    by (auto simp: receive_sync_frame_def go_simps read_full_def split: if_splits)
  let ?n = "get_le64 (take 8 (inp d))"
  from assms len have *: "if ?n = 0 then m = None \<and> inp d' = drop 8 (inp d)
      else \<not> max_sync_message_size < ?n \<and> unat ?n \<le> length (inp d) - 8 \<and>
        m = Some (take (unat ?n) (drop 8 (inp d))) \<and> inp d' = drop (unat ?n) (drop 8 (inp d))"
    by (auto simp: receive_sync_frame_def go_simps read_full_def Let_def split: if_splits)
  have split: "inp d = take 8 (inp d) @ take k (drop 8 (inp d)) @ drop k (drop 8 (inp d))" for k
    by (metis append_take_drop_id)
  show ?thesis
  proof (cases "?n = 0")
    case True
    with * len split [of 0] show ?thesis
      by (auto simp: readable_def intro!: exI [of _ "take 8 (inp d)"])
  next
    case False
    then have pos: "0 < unat ?n" by (simp add: unat_gt_0)
    have "unat ?n \<le> 16777216"
      using * False by (simp add: max_sync_nat)
    with * False len pos split [of "unat ?n"] show ?thesis
      by (auto simp: readable_def intro!: exI [of _ "take 8 (inp d)"])
  qed
qed

section \<open>The conversation\<close>

text \<open>
  What the protocol is about, without bytes: rounds in which the dialer's message is given
  to the acceptor and then the acceptor's to the dialer, until one round carries none.
\<close>

definition give :: "('doc, 'st) automerge_lib \<Rightarrow> bytes option \<Rightarrow> 'st \<Rightarrow> gerr + 'st" where
  "give L m st = (case m of None \<Rightarrow> Inr st | Some b \<Rightarrow> am_receive L st b)"

fun converse ::
  "('doc, 'st) automerge_lib \<Rightarrow> nat \<Rightarrow> 'st \<Rightarrow> 'st \<Rightarrow> ((bytes option \<times> bytes option) list \<times> 'st \<times> 'st) option" where
  "converse L 0 a b = None"
| "converse L (Suc n) a b =
     (let (m, a1) = am_generate L a in
      case give L m b of
        Inl e \<Rightarrow> None
      | Inr b1 \<Rightarrow>
        (let (r, b2) = am_generate L b1 in
         case give L r a1 of
           Inl e \<Rightarrow> None
         | Inr a2 \<Rightarrow>
           if m = None \<and> r = None then Some ([(m, r)], a2, b2)
           else map_option (\<lambda>(ms, a', b'). ((m, r) # ms, a', b')) (converse L n a2 b2)))"

lemma receive_message_ok:
  "readable m \<Longrightarrow> inp d = sync_frame m @ rest \<Longrightarrow> give L m st = Inr st' \<Longrightarrow>
     receive_sync_message L st d = (Inr (m = None, st'), d\<lparr>inp := rest\<rparr>)"
  by (cases m) (simp_all add: receive_sync_message_def receive_sync_ok give_def go_simps)

lemma converse_step:
  assumes "converse L (Suc n) a b = Some (ms, a', b')"
  obtains m a1 b1 r b2 a2 ns where "am_generate L a = (m, a1)" "give L m b = Inr b1"
    "am_generate L b1 = (r, b2)" "give L r a1 = Inr a2" "ms = (m, r) # ns"
    "if m = None \<and> r = None then ns = [] \<and> a2 = a' \<and> b2 = b' else converse L n a2 b2 = Some (ns, a', b')"
proof -
  obtain m a1 where m: "am_generate L a = (m, a1)" by fastforce
  with assms obtain b1 where b1: "give L m b = Inr b1"
    by (auto split: sum.splits)
  obtain r b2 where r: "am_generate L b1 = (r, b2)" by fastforce
  from assms m b1 r obtain a2 where a2: "give L r a1 = Inr a2"
    by (auto split: sum.splits)
  have "\<exists>ns. ms = (m, r) # ns \<and> (if m = None \<and> r = None then ns = [] \<and> a2 = a' \<and> b2 = b'
      else converse L n a2 b2 = Some (ns, a', b'))"
    using assms by (auto simp: m b1 r a2 split: if_splits)
  with that m b1 r a2 show thesis by blast
qed

lemma initiate_loop_converse:
  assumes "converse L n a b = Some (ms, a', b')" and "\<forall>(m, r) \<in> set ms. readable r"
    and "inp d = concat (map (\<lambda>(m, r). sync_frame r) ms) @ rest" and "broken d = None"
  shows "initiate_loop L n a d =
    (Inr a', d\<lparr>inp := rest, outp := outp d @ concat (map (\<lambda>(m, r). sync_frame m) ms)\<rparr>)"
  using assms
proof (induction n arbitrary: a b ms d)
  case (Suc n)
  obtain m a1 b1 r b2 a2 ns where m: "am_generate L a = (m, a1)" and "give L m b = Inr b1"
    and "am_generate L b1 = (r, b2)" and a2: "give L r a1 = Inr a2" and ns: "ms = (m, r) # ns"
    and rest: "if m = None \<and> r = None then ns = [] \<and> a2 = a' \<and> b2 = b' else converse L n a2 b2 = Some (ns, a', b')"
    by (rule converse_step [OF Suc.prems(1)])
  let ?d = "d\<lparr>outp := outp d @ sync_frame m\<rparr>"
  from Suc.prems(2,3) ns have rr: "readable r"
    and inp: "inp ?d = sync_frame r @ concat (map (\<lambda>(m, r). sync_frame r) ns) @ rest"
    by auto
  have round: "initiate_round L a d = (Inr (if m = None \<and> r = None then Inl a2 else Inr a2),
      ?d\<lparr>inp := concat (map (\<lambda>(m, r). sync_frame r) ns) @ rest\<rparr>)"
    using receive_message_ok [OF rr inp a2] Suc.prems(4)
    by (simp add: initiate_round_def m send_sync_ok go_simps)
  show ?case
  proof (cases "m = None \<and> r = None")
    case True
    with round rest show ?thesis
      by (simp add: initiate_loop_def go_simps ns)
  next
    case False
    with rest have c: "converse L n a2 b2 = Some (ns, a', b')" by auto
    from Suc.IH [OF c, of "?d\<lparr>inp := concat (map (\<lambda>(m, r). sync_frame r) ns) @ rest\<rparr>"] Suc.prems(2,4)
    have "initiate_loop L n a2 (?d\<lparr>inp := concat (map (\<lambda>(m, r). sync_frame r) ns) @ rest\<rparr>) =
        (Inr a', ?d\<lparr>inp := rest, outp := outp ?d @ concat (map (\<lambda>(m, r). sync_frame m) ns)\<rparr>)"
      by (simp add: ns)
    with round False show ?thesis
      by (simp add: initiate_loop_def go_simps ns)
  qed
qed simp

lemma respond_loop_converse:
  assumes "converse L n a b = Some (ms, a', b')" and "\<forall>(m, r) \<in> set ms. readable m"
    and "inp d = concat (map (\<lambda>(m, r). sync_frame m) ms) @ rest" and "broken d = None"
  shows "respond_loop L n b d =
    (Inr b', d\<lparr>inp := rest, outp := outp d @ concat (map (\<lambda>(m, r). sync_frame r) ms)\<rparr>)"
  using assms
proof (induction n arbitrary: a b ms d)
  case (Suc n)
  obtain m a1 b1 r b2 a2 ns where "am_generate L a = (m, a1)" and b1: "give L m b = Inr b1"
    and r: "am_generate L b1 = (r, b2)" and "give L r a1 = Inr a2" and ns: "ms = (m, r) # ns"
    and rest: "if m = None \<and> r = None then ns = [] \<and> a2 = a' \<and> b2 = b' else converse L n a2 b2 = Some (ns, a', b')"
    by (rule converse_step [OF Suc.prems(1)])
  let ?d = "d\<lparr>inp := concat (map (\<lambda>(m, r). sync_frame m) ns) @ rest, outp := outp d @ sync_frame r\<rparr>"
  from Suc.prems(2,3) ns have rm: "readable m"
    and inp: "inp d = sync_frame m @ concat (map (\<lambda>(m, r). sync_frame m) ns) @ rest"
    by auto
  have round: "respond_round L b d = (Inr (if m = None \<and> r = None then Inl b2 else Inr b2), ?d)"
    using receive_message_ok [OF rm inp b1] Suc.prems(4)
    by (simp add: respond_round_def r send_sync_ok go_simps)
  show ?case
  proof (cases "m = None \<and> r = None")
    case True
    with round rest show ?thesis
      by (simp add: respond_loop_def go_simps ns)
  next
    case False
    with rest have c: "converse L n a2 b2 = Some (ns, a', b')" by auto
    from Suc.IH [OF c, of ?d] Suc.prems(2,4)
    have "respond_loop L n b2 ?d =
        (Inr b', ?d\<lparr>inp := rest, outp := outp ?d @ concat (map (\<lambda>(m, r). sync_frame r) ns)\<rparr>)"
      by (simp add: ns)
    with round False show ?thesis
      by (simp add: respond_loop_def go_simps ns)
  qed
qed simp

text \<open>A conversation that ends does so within any larger number of rounds, in the same way.\<close>

lemma converse_more: "converse L n a b = Some c \<Longrightarrow> n \<le> k \<Longrightarrow> converse L k a b = Some c"
proof (induction n arbitrary: a b c k)
  case (Suc n)
  obtain ms a' b' where c: "c = (ms, a', b')" by (cases c) auto
  obtain m a1 b1 r b2 a2 ns where "am_generate L a = (m, a1)" "give L m b = Inr b1"
    "am_generate L b1 = (r, b2)" "give L r a1 = Inr a2" "ms = (m, r) # ns"
    and rest: "if m = None \<and> r = None then ns = [] \<and> a2 = a' \<and> b2 = b' else converse L n a2 b2 = Some (ns, a', b')"
    by (rule converse_step [OF Suc.prems(1) [unfolded c]])
  moreover obtain j where "k = Suc j" "n \<le> j"
    using Suc.prems(2) by (cases k) auto
  ultimately show ?case
    using Suc.IH [of a2 b2 "(ns, a', b')" j] by (auto simp: c split: if_splits)
qed simp

lemma converse_last: "converse L n a b = Some (ms, a', b') \<Longrightarrow> ms \<noteq> [] \<and> last ms = (None, None)"
proof (induction n arbitrary: a b ms)
  case (Suc n)
  obtain m a1 b1 r b2 a2 ns where "am_generate L a = (m, a1)" "give L m b = Inr b1"
    "am_generate L b1 = (r, b2)" "give L r a1 = Inr a2" and ms: "ms = (m, r) # ns"
    and rest: "if m = None \<and> r = None then ns = [] \<and> a2 = a' \<and> b2 = b' else converse L n a2 b2 = Some (ns, a', b')"
    by (rule converse_step [OF Suc.prems])
  show ?case
  proof (cases "m = None \<and> r = None")
    case True
    with ms rest show ?thesis by simp
  next
    case False
    with rest Suc.IH have "ns \<noteq> [] \<and> last ns = (None, None)" by simp
    with ms show ?thesis by simp
  qed
qed simp

section \<open>Properties\<close>


text \<open>A library of two queues: what a side has to send, one message a round, and what it was given.\<close>

definition demo_sync :: "(bytes list, bytes list \<times> bytes list) automerge_lib" where
  "demo_sync =
     \<lparr>am_new = \<lambda>d. (d, []), am_generate = \<lambda>(out, got). (case out of [] \<Rightarrow> (None, out, got) | m # ms \<Rightarrow> (Some m, ms, got)),
      am_receive = \<lambda>(out, got) m. Inr (out, got @ [m]), am_doc = snd, am_empty = [],
      am_set = \<lambda>d k v. Inr d, am_keys = \<lambda>d. Inr [], am_get = \<lambda>d k. Inr []\<rparr>"


text \<open>C18. A peer's length is never trusted: \<^verbatim>\<open>receiveSyncMessage\<close> reads a message only if it has
  1 byte to 16 MiB and is exactly what follows the eight bytes of its length; a longer one is
  refused when only these have been read. The sender does not ask for that bound: it writes a
  longer message without an error, and no peer can read it.\<close>

theorem sync_messages_bounded:
  "(case receive_sync_frame d of
      (Inr m, d') \<Rightarrow> readable m \<and> (\<exists>hdr. length hdr = 8 \<and> inp d = hdr @ (case m of None \<Rightarrow> [] | Some b \<Rightarrow> b) @ inp d')
    | (Inl e, d') \<Rightarrow> True) \<and>
   (16777216 < length b \<and> length b < 2 ^ 64 \<longrightarrow>
      (\<exists>w. send_sync_message (Some b) (reader []) = (Inr (), w) \<and>
        receive_sync_frame (reader (outp w @ rest)) =
          (Inl (Err (''automerge sync message too large: '' @ digits_of (length b))), reader (b @ rest))))"
proof (intro conjI impI)
  show "case receive_sync_frame d of
      (Inr m, d') \<Rightarrow> readable m \<and> (\<exists>hdr. length hdr = 8 \<and> inp d = hdr @ (case m of None \<Rightarrow> [] | Some b \<Rightarrow> b) @ inp d')
    | (Inl e, d') \<Rightarrow> True"
    using receive_sync_sound [of d] by (cases "receive_sync_frame d"; cases "fst (receive_sync_frame d)") auto
next
  assume b: "16777216 < length b \<and> length b < 2 ^ 64"
  let ?n = "word_of_nat (length b) :: u64"
  have n: "unat ?n = length b"
    using b by (simp add: unsigned_of_nat take_bit_nat_eq_self_iff)
  then have big: "?n \<noteq> 0" "max_sync_message_size < ?n"
    using b by (auto simp: max_sync_nat)
  let ?w = "(reader [])\<lparr>outp := put_le64 ?n @ b\<rparr>"
  have "send_sync_message (Some b) (reader []) = (Inr (), ?w)"
    using send_sync_ok [of "reader []" "Some b"] by (simp add: sync_frame_def)
  moreover have "receive_sync_frame (reader (outp ?w @ rest)) =
      (Inl (Err (''automerge sync message too large: '' @ digits_of (length b))), reader (b @ rest))"
    using big n by (simp add: receive_sync_frame_def go_simps Let_def reader_def)
  ultimately show "\<exists>w. send_sync_message (Some b) (reader []) = (Inr (), w) \<and>
      receive_sync_frame (reader (outp w @ rest)) =
        (Inl (Err (''automerge sync message too large: '' @ digits_of (length b))), reader (b @ rest))"
    by blast
qed

theorem sync_messages_bounded_witness:
  "\<exists>w. send_sync_message (Some (replicate 16777217 0)) (reader []) = (Inr (), w) \<and>
     receive_sync_frame (reader (outp w @ [5])) =
       (Inl (Err (''automerge sync message too large: '' @ digits_of 16777217)), reader (replicate 16777217 0 @ [5]))"
  using sync_messages_bounded [of _ "replicate 16777217 0" "[5]"] by (simp only: length_replicate) simp

section \<open>Ownership\<close>

lemma owns_set_entries: "owns opens_endpoint frees_endpoint {} (set_entries L is d) (\<lambda>_. {})"
proof (induction "is" arbitrary: d)
  case (Cons i js)
  show ?case
    unfolding set_entries.simps by (rule owns_quiet_try owns_wrap owns_lift Cons.IH)+
qed (simp add: owns_ret)

lemma owns_print_entries: "owns opens_endpoint frees_endpoint {} (print_entries L d ks) (\<lambda>_. {})"
proof (induction ks)
  case (Cons k ks)
  show ?case
    unfolding print_entries.simps by (rule owns_quiet_try owns_wrap owns_lift quiet_then owns_println Cons.IH | simp)+
qed (simp add: owns_ret)

lemma owns_am_run:
  assumes "routers_start W"
  shows "owns opens_endpoint frees_endpoint {} (am_run W L fuel) (\<lambda>_. {})"
proof -
  have initiate: "owns opens_endpoint frees_endpoint {} (initiate_sync W L fuel c d) (\<lambda>_. {})" for c d
    unfolding initiate_sync_def
    by (simp only: Diff_cancel | rule owns_quiet_try owns_defer [where F = "{}"] owns_on_stream drops_owns owns_invoke owns_ret | simp)+
  have accept: "owns opens_endpoint frees_endpoint {} (am_accept W L fuel c d) (\<lambda>_. {})" for c d
    unfolding am_accept_def respond_sync_def
    by (simp only: Diff_cancel | rule owns_quiet_try owns_defer [where F = "{}"] owns_on_stream drops_owns owns_cases
        owns_query owns_fail owns_invoke owns_ret | simp)+
  have state: "owns opens_endpoint frees_endpoint {} (show_doc L d) (\<lambda>_. {})" for d
    unfolding show_doc_def
    by (rule owns_quiet_try owns_wrap owns_lift quiet_then owns_println owns_print_entries | simp)+
  show ?thesis
    unfolding am_run_def
    by (simp only: Diff_cancel | rule owns_try [OF owns_bind] owns_try_router [OF assms] owns_defer [OF drops_router]
        owns_defer [OF drops_shutdown] initiate accept state owns_set_entries owns_quiet_try owns_quiet_catch
        owns_wrap quiet_then owns_fail owns_query owns_invoke owns_cases owns_ret | simp)+
qed

end
