(* ===== verification/Base32.thy ===== *)
theory Base32
  imports GoStrings
begin

text \<open>
  \<^verbatim>\<open>encoding/base32\<close>: the standard alphabet without padding, on bytes as \<^typ>\<open>8 word\<close>s with the
  shifts the package uses, and the round trip through either case of letters.
\<close>

unbundle bit_operations_syntax

section \<open>Groups of five bits\<close>

text \<open>\<^verbatim>\<open>& 0x1F\<close>.\<close>

definition low5 :: "byte \<Rightarrow> byte" where
  "low5 w = take_bit 5 w"

fun b32_groups :: "bytes \<Rightarrow> bytes" where
  "b32_groups (a # b # c # d # e # rest) =
     [drop_bit 3 a, low5 (push_bit 2 a OR drop_bit 6 b), low5 (drop_bit 1 b), low5 (push_bit 4 b OR drop_bit 4 c),
      low5 (push_bit 1 c OR drop_bit 7 d), low5 (drop_bit 2 d), low5 (push_bit 3 d OR drop_bit 5 e), low5 e] @ b32_groups rest"
| "b32_groups [] = []"
| "b32_groups [a] = [drop_bit 3 a, low5 (push_bit 2 a)]"
| "b32_groups [a, b] = [drop_bit 3 a, low5 (push_bit 2 a OR drop_bit 6 b), low5 (drop_bit 1 b), low5 (push_bit 4 b)]"
| "b32_groups [a, b, c] =
     [drop_bit 3 a, low5 (push_bit 2 a OR drop_bit 6 b), low5 (drop_bit 1 b), low5 (push_bit 4 b OR drop_bit 4 c),
      low5 (push_bit 1 c)]"
| "b32_groups [a, b, c, d] =
     [drop_bit 3 a, low5 (push_bit 2 a OR drop_bit 6 b), low5 (drop_bit 1 b), low5 (push_bit 4 b OR drop_bit 4 c),
      low5 (push_bit 1 c OR drop_bit 7 d), low5 (drop_bit 2 d), low5 (push_bit 3 d)]"

text \<open>
  Back: a last block of 7, 5, 4 or 2 groups gives 4, 3, 2 or 1 bytes, its spare bits being
  ignored; one of another length gives none.
\<close>

definition byte1 :: "byte \<Rightarrow> byte \<Rightarrow> byte" where "byte1 p q = push_bit 3 p OR drop_bit 2 q"
definition byte2 :: "byte \<Rightarrow> byte \<Rightarrow> byte \<Rightarrow> byte" where "byte2 q r s = push_bit 6 q OR push_bit 1 r OR drop_bit 4 s"
definition byte3 :: "byte \<Rightarrow> byte \<Rightarrow> byte" where "byte3 s t = push_bit 4 s OR drop_bit 1 t"
definition byte4 :: "byte \<Rightarrow> byte \<Rightarrow> byte \<Rightarrow> byte" where "byte4 t u v = push_bit 7 t OR push_bit 2 u OR drop_bit 3 v"
definition byte5 :: "byte \<Rightarrow> byte \<Rightarrow> byte" where "byte5 v w = push_bit 5 v OR w"

fun b32_bytes :: "bytes \<Rightarrow> bytes" where
  "b32_bytes (p # q # r # s # t # u # v # w # rest) =
     [byte1 p q, byte2 q r s, byte3 s t, byte4 t u v, byte5 v w] @ b32_bytes rest"
| "b32_bytes [p, q, r, s, t, u, v] = [byte1 p q, byte2 q r s, byte3 s t, byte4 t u v]"
| "b32_bytes [p, q, r, s, t] = [byte1 p q, byte2 q r s, byte3 s t]"
| "b32_bytes [p, q, r, s] = [byte1 p q, byte2 q r s]"
| "b32_bytes [p, q] = [byte1 p q]"
| "b32_bytes vs = []"

section \<open>Digits\<close>

definition b32_digit :: "byte \<Rightarrow> char" where
  "b32_digit v = (if unat v < 26 then char_of (65 + unat v) else char_of (24 + unat v))"

definition b32_value :: "char \<Rightarrow> byte option" where
  "b32_value c = (let n = (of_char c :: nat) in
     if 65 \<le> n \<and> n \<le> 90 then Some (word_of_nat (n - 65))
     else if 50 \<le> n \<and> n \<le> 55 then Some (word_of_nat (n - 24))
     else None)"

definition b32_encode :: "bytes \<Rightarrow> string" where
  "b32_encode b = map b32_digit (b32_groups b)"

text \<open>Line ends are skipped; every other character must be a digit.\<close>

fun all_some :: "'a option list \<Rightarrow> 'a list option" where
  "all_some [] = Some []"
| "all_some (None # xs) = None"
| "all_some (Some x # xs) = map_option ((#) x) (all_some xs)"

definition b32_decode :: "string \<Rightarrow> bytes option" where
  "b32_decode s = map_option b32_bytes
     (all_some (map b32_value (filter (\<lambda>c. c \<noteq> CHR 0x0A \<and> c \<noteq> CHR 0x0D) s)))"

section \<open>The round trip\<close>

lemmas b32_defs = low5_def byte1_def byte2_def byte3_def byte4_def byte5_def

lemma bit_high [simp]: "8 \<le> n \<Longrightarrow> \<not> bit (w :: byte) n"
  using bit_imp_le_length [of w n] by auto

lemma byte_eq_iff:
  "v = (w :: byte) \<longleftrightarrow> (bit v 0 = bit w 0 \<and> bit v 1 = bit w 1 \<and> bit v 2 = bit w 2 \<and> bit v 3 = bit w 3) \<and>
     bit v 4 = bit w 4 \<and> bit v 5 = bit w 5 \<and> bit v 6 = bit w 6 \<and> bit v 7 = bit w 7"
proof
  assume e: "(bit v 0 = bit w 0 \<and> bit v 1 = bit w 1 \<and> bit v 2 = bit w 2 \<and> bit v 3 = bit w 3) \<and>
     bit v 4 = bit w 4 \<and> bit v 5 = bit w 5 \<and> bit v 6 = bit w 6 \<and> bit v 7 = bit w 7"
  show "v = w"
  proof (rule bit_word_eqI)
    fix n assume "n < LENGTH(8)"
    then have "n < 8" by simp
    then consider "n = 0" | "n = 1" | "n = 2" | "n = 3" | "n = 4" | "n = 5" | "n = 6" | "n = 7" by linarith
    then show "bit v n = bit w n" using e by cases simp_all
  qed
qed simp

lemma byte1_groups: "byte1 (drop_bit 3 a) (low5 (push_bit 2 a OR drop_bit 6 b)) = a"
  by (subst byte_eq_iff) (simp add: b32_defs bit_simps One_nat_def [symmetric] del: push_bit_Suc One_nat_def)

lemma byte2_groups:
  "byte2 (low5 (push_bit 2 a OR drop_bit 6 b)) (low5 (drop_bit 1 b)) (low5 (push_bit 4 b OR drop_bit 4 c)) = b"
  by (subst byte_eq_iff) (simp add: b32_defs bit_simps One_nat_def [symmetric] del: push_bit_Suc One_nat_def)

lemma byte3_groups: "byte3 (low5 (push_bit 4 b OR drop_bit 4 c)) (low5 (push_bit 1 c OR drop_bit 7 d)) = c"
  by (subst byte_eq_iff) (simp add: b32_defs bit_simps One_nat_def [symmetric] del: push_bit_Suc One_nat_def)

lemma byte4_groups:
  "byte4 (low5 (push_bit 1 c OR drop_bit 7 d)) (low5 (drop_bit 2 d)) (low5 (push_bit 3 d OR drop_bit 5 e)) = d"
  by (subst byte_eq_iff) (simp add: b32_defs bit_simps One_nat_def [symmetric] del: push_bit_Suc One_nat_def)

lemma byte5_groups: "byte5 (low5 (push_bit 3 d OR drop_bit 5 e)) (low5 e) = e"
  by (subst byte_eq_iff) (simp add: b32_defs bit_simps One_nat_def [symmetric] del: push_bit_Suc One_nat_def)

lemmas groups_back = byte1_groups byte2_groups byte3_groups byte4_groups byte5_groups

text \<open>The last group of a block that is not full has zeros where the next byte would be.\<close>

lemma groups_last:
  "byte1 (drop_bit 3 a) (low5 (push_bit 2 a)) = a"
  "byte2 (low5 (push_bit 2 a OR drop_bit 6 b)) (low5 (drop_bit 1 b)) (low5 (push_bit 4 b)) = b"
  "byte3 (low5 (push_bit 4 b OR drop_bit 4 c)) (low5 (push_bit 1 c)) = c"
  "byte4 (low5 (push_bit 1 c OR drop_bit 7 d)) (low5 (drop_bit 2 d)) (low5 (push_bit 3 d)) = d"
  using byte1_groups [of a 0] byte2_groups [of a b 0] byte3_groups [of b c 0] byte4_groups [of c d 0]
  by (simp_all only: drop_bit_of_0 or.right_neutral)

lemma b32_bytes_groups: "b32_bytes (b32_groups b) = b"
  by (induction b rule: b32_groups.induct) (simp_all only: b32_groups.simps b32_bytes.simps append.simps groups_back groups_last)

lemma low5_less: "unat (low5 w) < 32"
  unfolding low5_def using take_bit_nat_less_exp [of 5 "unat w"] by (simp add: unsigned_take_bit_eq)

lemma drop3_less: "unat (drop_bit 3 (w :: byte)) < 32"
  unfolding unat_drop_bit_eq using unat_byte_less [of w] by (simp add: drop_bit_eq_div del: unat_byte_less)

lemma groups_small: "v \<in> set (b32_groups b) \<Longrightarrow> unat v < 32"
  by (induction b rule: b32_groups.induct) (auto simp: low5_less drop3_less)

lemma value_digit: "unat v < 32 \<Longrightarrow> b32_value (b32_digit v) = Some v"
  by (auto simp: b32_value_def b32_digit_def Let_def)

text \<open>The digits, one by one: no line end, and the same after the change of case and back.\<close>

lemma digit_char: "unat v < 32 \<Longrightarrow>
  (65 \<le> (of_char (b32_digit v) :: nat) \<and> (of_char (b32_digit v) :: nat) \<le> 90) \<or>
  (50 \<le> (of_char (b32_digit v) :: nat) \<and> (of_char (b32_digit v) :: nat) \<le> 55)"
  by (auto simp: b32_digit_def)

lemma upper_lower_digit: "unat v < 32 \<Longrightarrow> upper_char (lower_char (b32_digit v)) = b32_digit v"
  using digit_char [of v]
  by (auto simp: lower_char_def upper_char_def)

lemma digit_no_newline: "unat v < 32 \<Longrightarrow> b32_digit v \<noteq> CHR 0x0A \<and> b32_digit v \<noteq> CHR 0x0D"
  using digit_char [of v] by auto

lemma all_some_values: "\<forall>v \<in> set vs. unat v < 32 \<Longrightarrow> all_some (map b32_value (map b32_digit vs)) = Some vs"
  by (induction vs) (simp_all add: value_digit)

lemma b32_decode_encode: "b32_decode (to_upper (to_lower (b32_encode b))) = Some b"
proof -
  have small: "\<forall>v \<in> set (b32_groups b). unat v < 32"
    using groups_small by blast
  have "to_upper (to_lower (b32_encode b)) = map b32_digit (b32_groups b)"
    using small by (simp add: to_upper_def to_lower_def b32_encode_def upper_lower_digit)
  moreover have "filter (\<lambda>c. c \<noteq> CHR 0x0A \<and> c \<noteq> CHR 0x0D) (map b32_digit (b32_groups b)) = map b32_digit (b32_groups b)"
    using small by (intro filter_True) (auto simp: digit_no_newline)
  ultimately show ?thesis
    using all_some_values [OF small] b32_bytes_groups [of b] by (simp add: b32_decode_def)
qed

definition pasteable :: "char \<Rightarrow> bool" where
  "pasteable c \<longleftrightarrow> 97 \<le> (of_char c :: nat) \<and> (of_char c :: nat) \<le> 122 \<or> 50 \<le> (of_char c :: nat) \<and> (of_char c :: nat) \<le> 55"

lemma b32_pasteable: "c \<in> set (to_lower (b32_encode b)) \<Longrightarrow> pasteable c"
proof -
  assume "c \<in> set (to_lower (b32_encode b))"
  then obtain v where v: "v \<in> set (b32_groups b)" "c = lower_char (b32_digit v)"
    by (auto simp: to_lower_def b32_encode_def)
  from digit_char [OF groups_small [OF v(1)]] show ?thesis
    by (auto simp: v(2) lower_char_def pasteable_def)
qed

end
