(* ===== verification/Tickets.thy ===== *)
theory Tickets
  imports Json Base32 CustomTransport
begin

text \<open>
  \<^verbatim>\<open>cmd/go-iroh-tickets/main.go\<close>: an endpoint's address handed over as a ticket, and an
  application's own envelope around the ticket. The ticket format is the library's and a
  parameter (\<open>decode\<close>: the error it gives, if any); JSON and base32 are modelled in Json and
  Base32, and only the texts of their errors are parameters.
\<close>

section \<open>The envelope\<close>

definition tickets_alpn :: string where
  "tickets_alpn = ''go-iroh-examples/tickets/1''"

definition envelope_prefix :: string where
  "envelope_prefix = ''roomticket''"

record envelope =
  env_room :: string
  env_query :: string
  env_ticket :: string

record ticket_errors =
  decode :: "string \<Rightarrow> gerr option"
  bad_base32 :: "string \<Rightarrow> gerr"
  bad_json :: "bytes \<Rightarrow> gerr"

text \<open>\<^verbatim>\<open>json.Marshal\<close> and \<^verbatim>\<open>json.Unmarshal\<close> on the struct, by its field tags, in their order.\<close>

definition marshal_envelope :: "envelope \<Rightarrow> bytes" where
  "marshal_envelope e = bytes_of (json_object
     [(''room'', env_room e), (''query'', env_query e), (''ticket'', env_ticket e)])"

definition unmarshal_envelope :: "ticket_errors \<Rightarrow> bytes \<Rightarrow> gerr + envelope" where
  "unmarshal_envelope E b =
     (case (string_field ''room'' (text_of b), string_field ''query'' (text_of b), string_field ''ticket'' (text_of b)) of
        (Some r, Some q, Some t) \<Rightarrow> Inr \<lparr>env_room = r, env_query = q, env_ticket = t\<rparr>
      | _ \<Rightarrow> Inl (bad_json E b))"

definition wrap_ticket :: "string \<Rightarrow> string \<Rightarrow> string \<Rightarrow> string" where
  "wrap_ticket room qry ticket =
     envelope_prefix @ to_lower (b32_encode (marshal_envelope \<lparr>env_room = room, env_query = qry, env_ticket = ticket\<rparr>))"

definition unwrap_ticket :: "ticket_errors \<Rightarrow> string \<Rightarrow> gerr + string \<times> string \<times> string" where
  "unwrap_ticket E s =
     (case cut_prefix envelope_prefix s of
        None \<Rightarrow> Inl (Err (''app envelope: missing '' @ quote envelope_prefix @ '' prefix''))
      | Some rest \<Rightarrow>
     (case b32_decode (to_upper rest) of
        None \<Rightarrow> Inl (Wrapf ''app envelope: decode base32'' (bad_base32 E (to_upper rest)))
      | Some b \<Rightarrow>
     (case unmarshal_envelope E b of
        Inl e \<Rightarrow> Inl (Wrapf ''app envelope: decode json'' e)
      | Inr env \<Rightarrow>
     (case decode E (env_ticket env) of
        Some e \<Rightarrow> Inl (Wrapf ''app envelope: parse ticket'' e)
      | None \<Rightarrow> Inr (env_room env, env_query env, env_ticket env)))))"

section \<open>The program\<close>

abbreviation (input) tickets_bind where
  "tickets_bind \<equiv> bind_loopback"

abbreviation (input) tickets_exchange where
  "tickets_exchange \<equiv> exchange"

text \<open>\<^verbatim>\<open>kind\<close> is the library's \<^verbatim>\<open>endpointticket.Kind\<close>. The server's goroutine runs while the client waits.\<close>

definition tickets_run :: "call world \<Rightarrow> ticket_errors \<Rightarrow> string \<Rightarrow> unit io" where
  "tickets_run W E kind =
     go_try (tickets_bind W [WithALPNs [tickets_alpn]]) (\<lambda>server.
     go_defer (shutdown W server)
       (go_try (query W got_text (Lib ''endpointticket.Encode'' [server] [])) (\<lambda>ticket.
        go_then (say_bool ''ticket prefix:'' (has_prefix kind ticket))
        (go_try (go_lift (case decode E ticket of Some e \<Rightarrow> Inl e | None \<Rightarrow> Inr (ParsedAddr ticket))) (\<lambda>addr.
         go_try (query W got_text (Lib ''EndpointAddr.ID'' [] [ticket])) (\<lambda>named.
         go_try (query W got_text (Net (EndpointID server))) (\<lambda>i.
         go_then (say_bool ''same endpoint:'' (named = i))
         (go_try (query W got_texts (Lib ''EndpointAddr.Addrs'' [] [ticket])) (\<lambda>addrs.
          go_then (println (''addresses: '' @ digits_of (length addrs)))
          (go_try (tickets_bind W []) (\<lambda>client.
           go_defer (shutdown W client)
             (go_try (invoke W (Net (Connect client addr tickets_alpn))) (\<lambda>conn.
              go_defer (invoke W (Net (CloseConn conn 0 [])))
                (go_then (ct_server W server)
                (go_try (tickets_exchange W conn ''ticket hello'') (\<lambda>reply.
                 go_then (println (''reply: '' @ reply))
                 (go_try (go_lift (unwrap_ticket E (wrap_ticket ''room-7'' ''kind=photo tag=sunset'' ticket))) (\<lambda>(room, qry, unwrapped).
                  go_then (println (''room: '' @ room))
                  (go_then (println (''query: '' @ qry))
                  (say_bool ''envelope round trip:'' (unwrapped = ticket)))))))))))))))))))))"

section \<open>What the envelope promises\<close>

lemma json_fields_envelope:
  assumes "ascii room" "ascii qry" "ascii ticket"
  shows "unmarshal_envelope E (marshal_envelope \<lparr>env_room = room, env_query = qry, env_ticket = ticket\<rparr>)
    = Inr \<lparr>env_room = room, env_query = qry, env_ticket = ticket\<rparr>"
proof -
  have "json_parse (json_object [(''room'', room), (''query'', qry), (''ticket'', ticket)])
      = Some (JObj [(''room'', JStr room), (''query'', JStr qry), (''ticket'', JStr ticket)])"
    using assms json_parse_object [of "[(''room'', room), (''query'', qry), (''ticket'', ticket)]"]
    by (simp add: ascii_def)
  then show ?thesis
    by (simp add: unmarshal_envelope_def marshal_envelope_def string_field_def to_lower_def lower_char_def)
qed

text \<open>C26.
  The envelope carries its fields unchanged: for ASCII texts and a ticket the library
  accepts, unwrapping the wrapped ticket gives back the room, the query and the ticket, and
  what follows the prefix is lower-case letters and the digits 2 to 7 only, so the string can
  be pasted anywhere. A ticket the library refuses is refused by the receiver, with the
  library's error under the envelope's.
\<close>

theorem envelope_roundtrip:
  assumes "ascii room" "ascii qry" "ascii ticket"
  shows "unwrap_ticket E (wrap_ticket room qry ticket) =
      (case decode E ticket of
         None \<Rightarrow> Inr (room, qry, ticket)
       | Some e \<Rightarrow> Inl (Wrapf ''app envelope: parse ticket'' e))
    \<and> has_prefix envelope_prefix (wrap_ticket room qry ticket)
    \<and> list_all pasteable (drop (length envelope_prefix) (wrap_ticket room qry ticket))"
proof -
  have "list_all pasteable (to_lower (b32_encode b))" for b
    by (simp add: list_all_iff b32_pasteable)
  then show ?thesis
    using json_fields_envelope [OF assms, of E]
    by (simp add: unwrap_ticket_def wrap_ticket_def b32_decode_encode split: option.split)
qed

definition demo_errors :: ticket_errors where
  "demo_errors = \<lparr>decode = \<lambda>t. if has_prefix ''endpoint'' t then None else Some (Err ''wrong kind''),
     bad_base32 = \<lambda>_. Err ''base32'', bad_json = \<lambda>_. Err ''json''\<rparr>"

lemma envelope_roundtrip_witness:
  "unwrap_ticket demo_errors (wrap_ticket ''room-7'' ''kind=photo tag=sunset'' ''endpointab2'')
     = Inr (''room-7'', ''kind=photo tag=sunset'', ''endpointab2'')"
  using envelope_roundtrip [of "''room-7''" "''kind=photo tag=sunset''" "''endpointab2''" demo_errors]
  by (simp add: ascii_def demo_errors_def has_prefix_def)

lemma owns_tickets_run: "owns opens_endpoint frees_endpoint {} (tickets_run W E kind) (\<lambda>_. {})"
  unfolding tickets_run_def ct_server_def say_bool_def
  by (simp only: Diff_cancel | rule owns_try [OF owns_bind] owns_defer [OF drops_shutdown]
      owns_defer [where F = "{}"] owns_quiet_try owns_quiet_catch owns_wrap owns_exchange owns_echo quiet_then
      owns_println owns_println_all owns_query owns_invoke owns_cases owns_ret owns_lift | simp)+

end
