(* ===== verification/GossipTopic.thy ===== *)
theory GossipTopic
  imports CustomTransport
begin

text \<open>
  \<^verbatim>\<open>cmd/go-iroh-gossip-topic/main.go\<close>: three nodes of a gossip topic. A node's monitor (its
  neighbors, the \<^verbatim>\<open>changed\<close> channel that is closed and replaced whenever they change, the
  channel of received messages) is filled by one goroutine and waited on by another; the
  waiting is a step relation over every interleaving of the two.
\<close>

section \<open>The monitor of a node\<close>

datatype topic_event =
    NeighborUp string
  | NeighborDown string
  | Received (ev_content: bytes) (ev_from: string) (ev_round: nat) (ev_swarm: bool)

text \<open>
  \<open>tn_gen\<close> numbers the channels that \<^verbatim>\<open>changed\<close> has held: the current one is open, all
  earlier ones are closed.
\<close>

record monitor =
  tn_up :: "(string \<times> bool) list"
  tn_gen :: nat
  tn_seen :: "topic_event list"

definition new_monitor :: monitor where
  "new_monitor = \<lparr>tn_up = [], tn_gen = 0, tn_seen = []\<rparr>"

definition seen_cap :: nat where
  "seen_cap = 8"

text \<open>The send with a \<^verbatim>\<open>default\<close> in \<^verbatim>\<open>consume\<close>, and the receive in \<^verbatim>\<open>awaitMessage\<close>.\<close>

definition seen_offer :: "topic_event \<Rightarrow> monitor \<Rightarrow> bool \<times> monitor" where
  "seen_offer ev m =
     (if length (tn_seen m) < seen_cap then (True, m\<lparr>tn_seen := tn_seen m @ [ev]\<rparr>) else (False, m))"

definition seen_take :: "monitor \<Rightarrow> topic_event option \<times> monitor" where
  "seen_take m = (case tn_seen m of [] \<Rightarrow> (None, m) | ev # evs \<Rightarrow> (Some ev, m\<lparr>tn_seen := evs\<rparr>))"

interpretation seen: bounded_queue tn_seen seen_offer seen_take seen_cap
  by unfold_locales (auto simp: seen_offer_def seen_take_def split: list.splits)

definition set_neighbor :: "string \<Rightarrow> bool \<Rightarrow> monitor \<Rightarrow> monitor" where
  "set_neighbor name up m = m\<lparr>tn_up := AList.update name up (tn_up m), tn_gen := Suc (tn_gen m)\<rparr>"

definition is_up :: "monitor \<Rightarrow> string \<Rightarrow> bool" where
  "is_up m name \<longleftrightarrow> map_of (tn_up m) name = Some True"

text \<open>A peer the names do not hold has the empty name, as a Go map gives it.\<close>

definition name_of :: "(string \<times> string) list \<Rightarrow> string \<Rightarrow> string" where
  "name_of names i = (case map_of names i of Some n \<Rightarrow> n | None \<Rightarrow> [])"

fun consume_event :: "(string \<times> string) list \<Rightarrow> topic_event \<Rightarrow> monitor \<Rightarrow> monitor" where
  "consume_event names (NeighborUp i) m = set_neighbor (name_of names i) True m"
| "consume_event names (NeighborDown i) m = set_neighbor (name_of names i) False m"
| "consume_event names (Received b i r s) m = snd (seen_offer (Received b i r s) m)"

definition consume :: "(string \<times> string) list \<Rightarrow> topic_event list \<Rightarrow> monitor" where
  "consume names evs = fold (consume_event names) evs new_monitor"

definition neighbors :: "monitor \<Rightarrow> string list" where
  "neighbors m = sort (map fst (filter snd (tn_up m)))"

definition scope_name :: "bool \<Rightarrow> string" where
  "scope_name swarm = (if swarm then ''swarm'' else ''neighbor'')"

section \<open>Waiting for a neighbor\<close>

text \<open>
  Where \<^verbatim>\<open>awaitNeighbor\<close> stands: before its critical section, in the \<^verbatim>\<open>select\<close> on the channel
  it read there, or returned. The other goroutine publishes the membership changes that are
  still to come.
\<close>

datatype waiter = Checking | Blocked nat | Found

record await_state =
  aw_monitor :: monitor
  aw_waiter :: waiter
  aw_coming :: "(string \<times> bool) list"

inductive await_step :: "string \<Rightarrow> await_state \<Rightarrow> await_state \<Rightarrow> bool" for want :: string where
  publish: "aw_coming s = (n, u) # evs \<Longrightarrow>
    await_step want s (s\<lparr>aw_monitor := set_neighbor n u (aw_monitor s), aw_coming := evs\<rparr>)"
| check: "aw_waiter s = Checking \<Longrightarrow>
    await_step want s (s\<lparr>aw_waiter := if is_up (aw_monitor s) want then Found else Blocked (tn_gen (aw_monitor s))\<rparr>)"
| wake: "aw_waiter s = Blocked g \<Longrightarrow> g < tn_gen (aw_monitor s) \<Longrightarrow>
    await_step want s (s\<lparr>aw_waiter := Checking\<rparr>)"

inductive_cases await_stepE: "await_step want s t"

definition await_steps :: "string \<Rightarrow> await_state \<Rightarrow> await_state \<Rightarrow> bool" where
  "await_steps want = (await_step want)\<^sup>*\<^sup>*"

definition await_start :: "(string \<times> bool) list \<Rightarrow> await_state" where
  "await_start evs = \<lparr>aw_monitor = new_monitor, aw_waiter = Checking, aw_coming = evs\<rparr>"

text \<open>What is left to do, and what a blocked waiter knows.\<close>

fun waiter_left :: "waiter \<Rightarrow> nat \<Rightarrow> nat" where
  "waiter_left Checking gen = 1"
| "waiter_left (Blocked g) gen = (if g < gen then 2 else 0)"
| "waiter_left Found gen = 0"

definition await_left :: "await_state \<Rightarrow> nat" where
  "await_left s = 3 * length (aw_coming s) + waiter_left (aw_waiter s) (tn_gen (aw_monitor s))"

text \<open>The map of neighbors after some changes.\<close>

definition ups :: "(string \<times> bool) list \<Rightarrow> (string \<times> bool) list" where
  "ups changes = fold (\<lambda>(n, u). AList.update n u) changes []"

lemma ups_Nil [simp]: "ups [] = []"
  by (simp add: ups_def)

lemma ups_snoc [simp]: "ups (cs @ [(n, u)]) = AList.update n u (ups cs)"
  by (simp add: ups_def)

definition await_inv :: "string \<Rightarrow> (string \<times> bool) list \<Rightarrow> await_state \<Rightarrow> bool" where
  "await_inv want evs s \<longleftrightarrow>
     (\<exists>past. evs = past @ aw_coming s \<and>
        tn_up (aw_monitor s) = ups past \<and> tn_gen (aw_monitor s) = length past \<and>
        (case aw_waiter s of
           Checking \<Rightarrow> True
         | Blocked g \<Rightarrow> g \<le> length past \<and> map_of (ups (take g past)) want \<noteq> Some True
         | Found \<Rightarrow> \<exists>k \<le> length past. map_of (ups (take k past)) want = Some True))"

lemma await_inv_start: "await_inv want evs (await_start evs)"
  by (simp add: await_inv_def await_start_def new_monitor_def)

lemma await_inv_step:
  assumes "await_inv want evs s" "await_step want s t"
  shows "await_inv want evs t"
proof -
  obtain past where past: "evs = past @ aw_coming s" "tn_up (aw_monitor s) = ups past"
    "tn_gen (aw_monitor s) = length past" and w: "case aw_waiter s of
           Checking \<Rightarrow> True
         | Blocked g \<Rightarrow> g \<le> length past \<and> map_of (ups (take g past)) want \<noteq> Some True
         | Found \<Rightarrow> \<exists>k \<le> length past. map_of (ups (take k past)) want = Some True"
    using assms(1) unfolding await_inv_def by blast
  from assms(2) show ?thesis
  proof cases
    case (publish n u evs')
    have "(case aw_waiter s of
           Checking \<Rightarrow> True
         | Blocked g \<Rightarrow> g \<le> length (past @ [(n, u)]) \<and> map_of (ups (take g (past @ [(n, u)]))) want \<noteq> Some True
         | Found \<Rightarrow> \<exists>k \<le> length (past @ [(n, u)]). map_of (ups (take k (past @ [(n, u)]))) want = Some True)"
      using w by (auto split: waiter.splits intro: exI [where x = "k" for k] le_SucI)
    with past publish show ?thesis
      unfolding await_inv_def by (intro exI [of _ "past @ [(n, u)]"]) (simp add: set_neighbor_def)
  next
    case check
    with past show ?thesis
      unfolding await_inv_def by (intro exI [of _ past]) (auto simp: is_up_def)
  next
    case (wake g)
    with past show ?thesis
      unfolding await_inv_def by (intro exI [of _ past]) simp
  qed
qed

lemma await_reach: "await_steps want (await_start evs) s \<Longrightarrow> await_inv want evs s"
  unfolding await_steps_def by (induction rule: rtranclp_induct) (auto intro: await_inv_start await_inv_step)

lemma waiter_left_Suc: "waiter_left w (Suc g) < 3 + waiter_left w g"
  by (cases w) auto

lemma await_step_left: "await_step want s t \<Longrightarrow> await_left t < await_left s"
  by (erule await_stepE) (auto simp: await_left_def set_neighbor_def waiter_left_Suc)

lemma await_stuck:
  assumes "\<nexists>t. await_step want s t"
  shows "aw_coming s = []" and "aw_waiter s = Found \<or> (\<exists>g. aw_waiter s = Blocked g \<and> tn_gen (aw_monitor s) \<le> g)"
proof -
  show "aw_coming s = []"
    using assms await_step.publish [of s] by (cases "aw_coming s") auto
  show "aw_waiter s = Found \<or> (\<exists>g. aw_waiter s = Blocked g \<and> tn_gen (aw_monitor s) \<le> g)"
  proof (cases "aw_waiter s")
    case Checking
    with assms await_step.check [of s want] show ?thesis by blast
  next
    case (Blocked g)
    have "\<not> g < tn_gen (aw_monitor s)"
      using assms await_step.wake [OF Blocked] by blast
    with Blocked show ?thesis by auto
  qed simp
qed

section \<open>The program\<close>

definition topic_payload :: string where
  "topic_payload = ''one broadcast, two receivers''"

definition topic_alpn :: string where
  "topic_alpn = ''gossip.ALPN''"

record topic_node =
  tn_name :: string
  tn_endpoint :: nat
  tn_router :: nat
  tn_gossip :: nat

definition topic_serve :: "call world \<Rightarrow> nat \<Rightarrow> string \<Rightarrow> (string \<times> string) list \<Rightarrow> (topic_node \<times> (string \<times> string) list) io" where
  "topic_serve W ep name names =
     go_try (query W got_nat (Gossip (NewGossip ep))) (\<lambda>g.
     go_catch (invoke W (Net (NewRouter ep [topic_alpn]))) (\<lambda>r.
     case r of
       Inl e \<Rightarrow> go_then (shutdown W ep) (go_fail e)
     | Inr router \<Rightarrow>
       go_try (query W got_text (Net (EndpointID ep))) (\<lambda>i.
       go_ret (\<lparr>tn_name = name, tn_endpoint = ep, tn_router = router, tn_gossip = g\<rparr>, AList.update i name names))))"

abbreviation (input) topic_bind where
  "topic_bind \<equiv> bind_loopback"

definition new_topic_node :: "call world \<Rightarrow> string \<Rightarrow> (string \<times> string) list \<Rightarrow> (topic_node \<times> (string \<times> string) list) io" where
  "new_topic_node W name names =
     go_try (topic_bind W []) (\<lambda>ep. topic_serve W ep name names)"

text \<open>The topic a node has subscribed to by now, if any: \<^verbatim>\<open>close\<close> looks at the field when it runs.\<close>

fun subscribed :: "io_hist \<Rightarrow> nat \<Rightarrow> nat option" where
  "subscribed [] g = None"
| "subscribed (Did (Gossip (Subscribe g' t)) # h) g = (if g' = g then Some (length h) else subscribed h g)"
| "subscribed (e # h) g = subscribed h g"

definition close_topic :: "call world \<Rightarrow> topic_node \<Rightarrow> unit io" where
  "close_topic W n h =
     (case subscribed h (tn_gossip n) of
        None \<Rightarrow> go_ret ()
      | Some t \<Rightarrow> go_then (invoke W (Gossip (TopicClose t))) (go_ret ())) h"

definition close_topic_node :: "call world \<Rightarrow> topic_node \<Rightarrow> unit io" where
  "close_topic_node W n =
     go_then (close_topic W n)
     (go_then (invoke W (Gossip (GossipShutdown (tn_gossip n))))
     (go_then (invoke W (Net (RouterShutdown (tn_router n) (tn_endpoint n)))) (go_ret ())))"

definition node_subscribe :: "call world \<Rightarrow> topic_node \<Rightarrow> string \<Rightarrow> nat io" where
  "node_subscribe W n topic = invoke W (Gossip (Subscribe (tn_gossip n) topic))"

text \<open>
  \<open>events h t\<close>: what the goroutine that drains topic \<open>t\<close> has been given when the history is
  \<open>h\<close>. A look at the monitor is a call of its own; the \<^verbatim>\<open>select\<close> that follows may take the end
  of the context.
\<close>

definition monitor_of ::
  "call world \<Rightarrow> (io_hist \<Rightarrow> nat \<Rightarrow> topic_event list) \<Rightarrow> (string \<times> string) list \<Rightarrow> nat \<Rightarrow> monitor io" where
  "monitor_of W events names t = query W (\<lambda>_ h _. consume names (events h t)) (Gossip (NextEvent t))"

definition await_neighbor ::
  "call world \<Rightarrow> (io_hist \<Rightarrow> nat \<Rightarrow> topic_event list) \<Rightarrow> (string \<times> string) list \<Rightarrow> nat \<Rightarrow> topic_node \<times> nat \<Rightarrow> string \<Rightarrow> unit io" where
  "await_neighbor W events names fuel = (\<lambda>(n, t) want.
     go_loop fuel (\<lambda>_.
       go_try (monitor_of W events names t) (\<lambda>m.
       if is_up m want then go_ret (Inl ())
       else go_try (query W got_flag (Os Select)) (\<lambda>changed.
         if changed then go_ret (Inr ())
         else go_try (ctx_error W) (\<lambda>e.
           go_fail (Wrapf (''node '' @ tn_name n @ '' never saw neighbor '' @ want) e))))) ())"

definition await_message ::
  "call world \<Rightarrow> (io_hist \<Rightarrow> nat \<Rightarrow> topic_event list) \<Rightarrow> (string \<times> string) list \<Rightarrow> topic_node \<times> nat \<Rightarrow> topic_event io" where
  "await_message W events names = (\<lambda>(n, t).
     go_try (monitor_of W events names t) (\<lambda>m.
     case fst (seen_take m) of
       Some ev \<Rightarrow>
         go_try (query W got_flag (Os Select)) (\<lambda>taken.
         if taken then go_ret ev
         else go_try (ctx_error W) (\<lambda>e. go_fail (Wrapf (''node '' @ tn_name n @ '' never received the broadcast'') e)))
     | None \<Rightarrow> go_try (ctx_error W) (\<lambda>e. go_fail (Wrapf (''node '' @ tn_name n @ '' never received the broadcast'') e))))"

definition knows :: "call world \<Rightarrow> topic_node \<Rightarrow> topic_node \<Rightarrow> bool io" where
  "knows W n other = query W got_flag (Lib ''Endpoint.RemoteInfo'' [tn_endpoint n, tn_endpoint other] [])"

fun subscribe_all :: "call world \<Rightarrow> topic_node list \<Rightarrow> string \<Rightarrow> (topic_node \<times> nat) list io" where
  "subscribe_all W [] topic = go_ret []"
| "subscribe_all W (n # ns) topic =
     go_try (go_wrap (''subscribe '' @ tn_name n) (node_subscribe W n topic)) (\<lambda>t.
     go_try (subscribe_all W ns topic) (\<lambda>rest. go_ret ((n, t) # rest)))"

definition show_neighbors ::
  "call world \<Rightarrow> (io_hist \<Rightarrow> nat \<Rightarrow> topic_event list) \<Rightarrow> (string \<times> string) list \<Rightarrow> topic_node \<times> nat \<Rightarrow> unit io" where
  "show_neighbors W events names = (\<lambda>(n, t).
     go_try (monitor_of W events names t) (\<lambda>m.
     println (tn_name n @ '' neighbors: '' @ join '' '' (neighbors m))))"

definition show_message ::
  "call world \<Rightarrow> (io_hist \<Rightarrow> nat \<Rightarrow> topic_event list) \<Rightarrow> (string \<times> string) list \<Rightarrow> topic_node \<times> nat \<Rightarrow> unit io" where
  "show_message W events names nt =
     go_try (await_message W events names nt) (\<lambda>ev.
     println (tn_name (fst nt) @ '' received '' @ quote (text_of (ev_content ev)) @ '' from '' @ name_of names (ev_from ev) @
       '' at round '' @ digits_of (ev_round ev) @ '' over the '' @ scope_name (ev_swarm ev)))"

definition show_metrics :: "call world \<Rightarrow> topic_node \<Rightarrow> unit io" where
  "show_metrics W n =
     go_try (query W got_nat (Lib ''Metrics.MsgsDataSent'' [tn_gossip n] [])) (\<lambda>sent.
     go_try (query W got_nat (Lib ''Metrics.MsgsDataRecv'' [tn_gossip n] [])) (\<lambda>received.
     println (tn_name n @ '' data messages sent='' @ digits_of sent @ '' received='' @ digits_of received)))"

text \<open>\<^verbatim>\<open>run\<close>, once the three nodes are there.\<close>

definition topic_play ::
  "call world \<Rightarrow> (io_hist \<Rightarrow> nat \<Rightarrow> topic_event list) \<Rightarrow> nat \<Rightarrow> (string \<times> string) list \<Rightarrow> topic_node \<Rightarrow> topic_node \<Rightarrow> topic_node \<Rightarrow> unit io" where
  "topic_play W events fuel names na nb nc =
     go_try (query W got_bytes (Lib ''sha256.Sum256'' [] [''go-iroh-examples/gossip-topic/1''])) (\<lambda>topic.
     go_try (subscribe_all W [na, nb, nc] (text_of topic)) (\<lambda>subs.
     let a = subs ! 0; b = subs ! 1; c = subs ! 2 in
     go_then (println (''topic prefix: '' @ hex_encode (take 8 topic)))
     (go_try (go_wrap ''seed B with A'' (invoke W (Lib ''Topic.JoinPeers'' [snd b, tn_endpoint na] []))) (\<lambda>_.
      go_try (go_wrap ''seed C with B'' (invoke W (Lib ''Topic.JoinPeers'' [snd c, tn_endpoint nb] []))) (\<lambda>_.
      go_try (go_each (\<lambda>(n, want). await_neighbor W events names fuel n want) [(a, ''B''), (b, ''A''), (b, ''C''), (c, ''B'')]) (\<lambda>_.
      go_try (go_each (show_neighbors W events names) [a, b, c]) (\<lambda>_.
      go_try (knows W na nc) (\<lambda>before.
      go_then (say_bool ''A has connection state for C:'' before)
      (go_try (go_wrap ''broadcast'' (invoke W (Gossip (Broadcast (snd a) (bytes_of topic_payload))))) (\<lambda>_.
       go_then (println (''A broadcast: '' @ quote topic_payload))
       (go_try (go_each (show_message W events names) [b, c]) (\<lambda>_.
        go_try (knows W na nc) (\<lambda>after.
        go_then (say_bool ''A has connection state for C:'' after)
        (go_each (show_metrics W) [na, nb, nc]))))))))))))))"

definition topic_run :: "call world \<Rightarrow> (io_hist \<Rightarrow> nat \<Rightarrow> topic_event list) \<Rightarrow> nat \<Rightarrow> unit io" where
  "topic_run W events fuel =
     go_try (new_topic_node W ''A'' []) (\<lambda>(a, names_a).
     go_defer (close_topic_node W a)
       (go_try (new_topic_node W ''B'' names_a) (\<lambda>(b, names_b).
        go_defer (close_topic_node W b)
          (go_try (new_topic_node W ''C'' names_b) (\<lambda>(c, names).
           go_defer (close_topic_node W c) (topic_play W events fuel names a b c))))))"

section \<open>What is given back\<close>

lemma owns_topic_serve: "owns opens_endpoint frees_endpoint {ep} (topic_serve W ep name names) (\<lambda>(n, _). {tn_endpoint n})"
  unfolding topic_serve_def
  by (rule owns_try_query owns_catch owns_invoke owns_case_sum owns_then drops_shutdown owns_fail owns_ret | simp)+

lemma owns_new_topic_node: "owns opens_endpoint frees_endpoint {} (new_topic_node W name names) (\<lambda>(n, _). {tn_endpoint n})"
  unfolding new_topic_node_def
  by (rule owns_try owns_bind owns_topic_serve)+

lemma drops_close_topic_node: "drops opens_endpoint frees_endpoint {tn_endpoint n} (close_topic_node W n)"
  by (auto simp: drops_def close_topic_node_def close_topic_def go_simps split: option.splits)

lemma owns_monitor_of: "owns opens_endpoint frees_endpoint {} (monitor_of W events names t) (\<lambda>_. {})"
  unfolding monitor_of_def by (rule owns_query) simp

lemma owns_await_neighbor: "owns opens_endpoint frees_endpoint {} (await_neighbor W events names fuel nt want) (\<lambda>_. {})"
  unfolding await_neighbor_def
  by (cases nt, simp only: prod.case) (rule owns_loop owns_monitor_of owns_ctx_error program_rules | simp)+

lemma owns_await_message: "owns opens_endpoint frees_endpoint {} (await_message W events names nt) (\<lambda>_. {})"
  unfolding await_message_def
  by (cases nt, simp only: prod.case) (rule owns_monitor_of owns_ctx_error program_rules | simp)+

lemma owns_subscribe_all: "owns opens_endpoint frees_endpoint {} (subscribe_all W ns topic) (\<lambda>_. {})"
  by (induction ns) (simp add: owns_ret, simp add: node_subscribe_def, (rule program_rules | assumption | simp)+)

lemma owns_topic_play: "owns opens_endpoint frees_endpoint {} (topic_play W events fuel names a b c) (\<lambda>_. {})"
  unfolding topic_play_def knows_def show_neighbors_def show_message_def show_metrics_def Let_def
  by (rule owns_each owns_await_neighbor owns_await_message owns_monitor_of owns_subscribe_all program_rules | simp split: prod.split)+

lemma owns_topic_run: "owns opens_endpoint frees_endpoint {} (topic_run W events fuel) (\<lambda>_. {})"
  unfolding topic_run_def
  by (simp only: Diff_cancel prod.case | rule owns_try [OF owns_new_topic_node] owns_case_prod owns_defer [OF drops_close_topic_node] owns_topic_play
    | simp)+

section \<open>Properties\<close>

text \<open>
  What \<^verbatim>\<open>neighbors\<close> should say, without the map: the last membership change of a name decides.
\<close>

fun change_of :: "(string \<times> string) list \<Rightarrow> topic_event \<Rightarrow> (string \<times> bool) option" where
  "change_of names (NeighborUp i) = Some (name_of names i, True)"
| "change_of names (NeighborDown i) = Some (name_of names i, False)"
| "change_of names (Received b i r s) = None"

definition last_change :: "(string \<times> string) list \<Rightarrow> topic_event list \<Rightarrow> string \<Rightarrow> bool option" where
  "last_change names evs name =
     map_option snd (find_first (\<lambda>(n, u). n = name) (rev (List.map_filter (change_of names) evs)))"

lemma last_change_Nil [simp]: "last_change names [] name = None"
  by (simp add: last_change_def List.map_filter_def)

lemma last_change_snoc:
  "last_change names (evs @ [ev]) name =
     (case change_of names ev of
        None \<Rightarrow> last_change names evs name
      | Some (n, u) \<Rightarrow> if n = name then Some u else last_change names evs name)"
  by (cases "change_of names ev") (auto simp: last_change_def List.map_filter_def)

lemma consume_snoc: "consume names (evs @ [ev]) = consume_event names ev (consume names evs)"
  by (simp add: consume_def)

lemma consume_up: "map_of (tn_up (consume names evs)) name = last_change names evs name"
proof (induction evs rule: rev_induct)
  case Nil
  then show ?case by (simp add: consume_def new_monitor_def)
next
  case (snoc ev evs)
  then show ?case
    by (cases ev) (auto simp: consume_snoc last_change_snoc set_neighbor_def update_conv' seen_offer_def)
qed

lemma distinct_up: "distinct (map fst (tn_up (consume names evs)))"
proof (induction evs rule: rev_induct)
  case Nil
  then show ?case by (simp add: consume_def new_monitor_def)
next
  case (snoc ev evs)
  then show ?case
    by (cases ev) (auto simp: consume_snoc set_neighbor_def distinct_update seen_offer_def)
qed

lemma distinct_filter_keys: "distinct (map fst kvs) \<Longrightarrow> distinct (map fst (filter p kvs))"
  by (induction kvs) auto

text \<open>\<^verbatim>\<open>neighbors\<close> is the set of the names whose last membership event was an up, each once and in
  order, whatever came before.\<close>

lemma neighbors_exact:
  "sorted (neighbors (consume names evs)) \<and> distinct (neighbors (consume names evs)) \<and>
   set (neighbors (consume names evs)) = {name. last_change names evs name = Some True}"
proof -
  note d = distinct_up [of names evs]
  have "set (map fst (filter snd (tn_up (consume names evs)))) = {name. map_of (tn_up (consume names evs)) name = Some True}"
    using d by (force simp: map_of_eq_Some_iff)
  then show ?thesis
    using distinct_filter_keys [OF d] by (simp add: neighbors_def consume_up)
qed

text \<open>C30. No wake-up is lost: in every interleaving of \<^verbatim>\<open>awaitNeighbor\<close> with the goroutine that publishes
  membership changes, each step brings the end nearer, and where neither can go on all changes
  are published and the waiter has returned, unless the neighbor it waits for is not up then.
  A waiter that returned had the neighbor up at some point.\<close>

theorem no_lost_wakeup:
  assumes "await_steps want (await_start evs) s"
  shows "(\<forall>t. await_step want s t \<longrightarrow> await_left t < await_left s) \<and>
    ((\<nexists>t. await_step want s t) \<longrightarrow> aw_coming s = [] \<and> (aw_waiter s = Found \<or> map_of (ups evs) want \<noteq> Some True)) \<and>
    (aw_waiter s = Found \<longrightarrow> (\<exists>k \<le> length evs. map_of (ups (take k evs)) want = Some True))"
proof -
  obtain past where past: "evs = past @ aw_coming s" "tn_gen (aw_monitor s) = length past" and w: "case aw_waiter s of
           Checking \<Rightarrow> True
         | Blocked g \<Rightarrow> g \<le> length past \<and> map_of (ups (take g past)) want \<noteq> Some True
         | Found \<Rightarrow> \<exists>k \<le> length past. map_of (ups (take k past)) want = Some True"
    using await_reach [OF assms] unfolding await_inv_def by blast
  have "aw_coming s = [] \<and> (aw_waiter s = Found \<or> map_of (ups evs) want \<noteq> Some True)" if "\<nexists>t. await_step want s t"
    using await_stuck [OF that] past w by auto
  moreover have "\<exists>k \<le> length evs. map_of (ups (take k evs)) want = Some True" if found: "aw_waiter s = Found"
  proof -
    obtain k where "k \<le> length past" "map_of (ups (take k past)) want = Some True"
      using w found by auto
    with past show ?thesis by (intro exI [of _ k]) auto
  qed
  ultimately show ?thesis
    using await_step_left by blast
qed

lemma await_demo:
  "await_steps ''B'' (await_start [(''B'', True)])
     \<lparr>aw_monitor = set_neighbor ''B'' True new_monitor, aw_waiter = Checking, aw_coming = []\<rparr>"
proof -
  let ?s0 = "await_start [(''B'', True)]"
  let ?s1 = "?s0\<lparr>aw_waiter := Blocked 0\<rparr>"
  let ?s2 = "?s1\<lparr>aw_monitor := set_neighbor ''B'' True new_monitor, aw_coming := []\<rparr>"
  have "await_step ''B'' ?s0 ?s1"
    using await_step.check [of ?s0 "''B''"] by (simp add: await_start_def is_up_def new_monitor_def)
  moreover have "await_step ''B'' ?s1 ?s2"
    using await_step.publish [of ?s1 "''B''" True "[]" "''B''"] by (simp add: await_start_def)
  moreover have "await_step ''B'' ?s2 (?s2\<lparr>aw_waiter := Checking\<rparr>)"
    by (rule await_step.wake [of _ 0]) (simp_all add: await_start_def set_neighbor_def new_monitor_def)
  ultimately show ?thesis
    unfolding await_steps_def by (simp add: await_start_def)
qed

theorem no_lost_wakeup_witness:
  "\<exists>t. await_step ''B'' \<lparr>aw_monitor = set_neighbor ''B'' True new_monitor, aw_waiter = Checking, aw_coming = []\<rparr> t"
proof (rule ccontr)
  assume "\<nexists>t. await_step ''B'' \<lparr>aw_monitor = set_neighbor ''B'' True new_monitor, aw_waiter = Checking, aw_coming = []\<rparr> t"
  with no_lost_wakeup [OF await_demo] show False by (simp add: ups_def)
qed

text \<open>
  The channel of received messages: deliveries by \<^verbatim>\<open>consume\<close> and receives by \<^verbatim>\<open>awaitMessage\<close> in any
  order; \<open>log_took\<close> is what the receives returned, \<open>log_kept\<close> what the deliveries put in.
\<close>

datatype seen_op = Deliver topic_event | Take

record seen_log =
  log_monitor :: monitor
  log_took :: "topic_event list"
  log_kept :: "topic_event list"

fun seen_do :: "seen_op \<Rightarrow> seen_log \<Rightarrow> seen_log" where
  "seen_do (Deliver ev) l =
     (let (ok, m) = seen_offer ev (log_monitor l) in
      l\<lparr>log_monitor := m, log_kept := (if ok then log_kept l @ [ev] else log_kept l)\<rparr>)"
| "seen_do Take l =
     (let (got, m) = seen_take (log_monitor l) in
      l\<lparr>log_monitor := m, log_took := (case got of None \<Rightarrow> log_took l | Some ev \<Rightarrow> log_took l @ [ev])\<rparr>)"

definition seen_run :: "seen_op list \<Rightarrow> seen_log" where
  "seen_run ops = fold seen_do ops \<lparr>log_monitor = new_monitor, log_took = [], log_kept = []\<rparr>"

definition delivered :: "seen_op list \<Rightarrow> topic_event list" where
  "delivered ops = List.map_filter (\<lambda>x. case x of Deliver ev \<Rightarrow> Some ev | Take \<Rightarrow> None) ops"

definition seen_inv :: "seen_op list \<Rightarrow> seen_log \<Rightarrow> bool" where
  "seen_inv ops l \<longleftrightarrow> log_took l @ tn_seen (log_monitor l) = log_kept l \<and> length (tn_seen (log_monitor l)) \<le> 8 \<and>
     subseq (log_kept l) (delivered ops) \<and>
     (length (delivered ops) \<le> 8 \<longrightarrow> log_kept l = delivered ops)"

lemma delivered_snoc [simp]:
  "delivered (ops @ [Deliver ev]) = delivered ops @ [ev]" "delivered (ops @ [Take]) = delivered ops"
  by (simp_all add: delivered_def List.map_filter_def)

lemma seen_inv_run: "seen_inv ops (seen_run ops)"
proof (induction ops rule: rev_induct)
  case Nil
  then show ?case
    by (simp add: seen_inv_def seen_run_def new_monitor_def delivered_def List.map_filter_def)
next
  case (snoc x ops)
  let ?l = "seen_run ops"
  have run: "seen_run (ops @ [x]) = seen_do x ?l"
    by (simp add: seen_run_def)
  show ?case
  proof (cases x)
    case (Deliver ev)
    have bound: "length (tn_seen (log_monitor ?l)) \<le> length (delivered ops)"
    proof -
      have "log_took ?l @ tn_seen (log_monitor ?l) = log_kept ?l" "length (log_kept ?l) \<le> length (delivered ops)"
        using snoc by (auto simp: seen_inv_def dest: list_emb_length)
      then show ?thesis
        by (metis length_append le_add2 le_trans)
    qed
    show ?thesis
    proof (cases "length (tn_seen (log_monitor ?l)) < 8")
      case True
      with snoc Deliver run show ?thesis
        by (auto simp: seen_inv_def seen_offer_def seen_cap_def)
    next
      case False
      with snoc Deliver run bound show ?thesis
        by (auto simp: seen_inv_def seen_offer_def seen_cap_def intro: subseq_order.trans)
    qed
  next
    case Take
    with snoc run show ?thesis
      by (auto simp: seen_inv_def seen_take_def split: list.splits)
  qed
qed

text \<open>Received messages reach \<^verbatim>\<open>awaitMessage\<close> in the order they were delivered: at most 8 wait, what has
  been taken and what waits is what was kept, what is kept are deliveries in their order,
  and of the deliveries among the first 8 operations none is dropped.\<close>

lemma messages_in_order:
  "log_took (seen_run ops) @ tn_seen (log_monitor (seen_run ops)) = log_kept (seen_run ops) \<and>
   length (tn_seen (log_monitor (seen_run ops))) \<le> 8 \<and>
   subseq (log_kept (seen_run ops)) (delivered ops) \<and>
   log_kept (seen_run (take 8 ops)) = delivered (take 8 ops)"
proof -
  have "length (delivered os) \<le> length os" for os
    by (simp add: delivered_def List.map_filter_def)
  then have "length (delivered (take 8 ops)) \<le> 8"
    by (metis length_take min.boundedE)
  then show ?thesis
    using seen_inv_run [of ops] seen_inv_run [of "take 8 ops"] by (simp add: seen_inv_def)
qed

end
