(* ===== verification/Negotiation.thy ===== *)
theory Negotiation
  imports CustomTransport
begin

text \<open>
  Two programs that agree with a peer while dialing it: \<^verbatim>\<open>cmd/go-iroh-alpn-negotiation/main.go\<close>
  tries protocol versions, newest first, and \<^verbatim>\<open>cmd/go-iroh-key-exchange/main.go\<close> key-exchange
  policies. Both tell a refusal from every other failure, and both read back what was agreed.
\<close>

section \<open>Protocol versions\<close>

definition neg_v1 :: string where "neg_v1 = ''go-iroh-examples/alpn-negotiation/1''"
definition neg_v2 :: string where "neg_v2 = ''go-iroh-examples/alpn-negotiation/2''"
definition neg_v3 :: string where "neg_v3 = ''go-iroh-examples/alpn-negotiation/3''"

definition no_version_in_common :: "gerr \<Rightarrow> bool" where
  "no_version_in_common e = contains ''no application protocol'' (err_text e)"

definition neg_answer :: "string \<Rightarrow> string \<Rightarrow> string" where
  "neg_answer alpn = (if alpn = neg_v2 then (\<lambda>msg. ''v2 '' @ msg) else (\<lambda>msg. msg))"

definition neg_version :: "string \<Rightarrow> string" where
  "neg_version alpn = ''v'' @ (case after_last slash alpn of Some v \<Rightarrow> v | None \<Rightarrow> alpn)"

abbreviation (input) neg_exchange where
  "neg_exchange \<equiv> exchange"

text \<open>The loop of \<^verbatim>\<open>preferred\<close>, and the whole, with the client's endpoint around it.\<close>

fun dial_preferred :: "call world \<Rightarrow> nat \<Rightarrow> endpoint_addr \<Rightarrow> string \<Rightarrow> string list \<Rightarrow> (string \<times> string) io" where
  "dial_preferred W client addr msg [] = go_ret ([], [])"
| "dial_preferred W client addr msg (want # wants) =
     go_catch (invoke W (Net (Connect client addr want))) (\<lambda>r.
     case r of
       Inl e \<Rightarrow> if no_version_in_common e then dial_preferred W client addr msg wants else go_fail e
     | Inr conn \<Rightarrow>
       go_defer (invoke W (Net (CloseConn conn 0 [])))
         (go_try (neg_exchange W conn msg) (\<lambda>reply.
          go_try (query W got_text (Net (ConnALPN conn))) (\<lambda>alpn.
          go_ret (alpn, reply)))))"

abbreviation (input) neg_bind where
  "neg_bind \<equiv> bind_loopback"

definition preferred :: "call world \<Rightarrow> endpoint_addr \<Rightarrow> string list \<Rightarrow> string \<Rightarrow> (string \<times> string) io" where
  "preferred W addr wants msg =
     go_try (neg_bind W []) (\<lambda>client.
     go_defer (shutdown W client) (dial_preferred W client addr msg wants))"

text \<open>A handler that answers every connection, each in a goroutine whose result is dropped.\<close>

definition serve_each :: "call world \<Rightarrow> nat \<Rightarrow> (nat \<Rightarrow> unit io) \<Rightarrow> nat \<Rightarrow> unit io" where
  "serve_each W fuel handle ep =
     go_loop fuel (\<lambda>_.
       go_catch (invoke W (Net (Accept ep))) (\<lambda>r.
       case r of
         Inl e \<Rightarrow> go_ret (Inl ())
       | Inr conn \<Rightarrow> go_then (handle conn) (go_ret (Inr ())))) ()"

abbreviation (input) neg_transform where
  "neg_transform \<equiv> transform"

definition neg_handle :: "call world \<Rightarrow> nat \<Rightarrow> unit io" where
  "neg_handle W conn =
     go_try (query W got_text (Net (ConnALPN conn))) (\<lambda>alpn. neg_transform W conn (neg_answer alpn))"

definition neg_serve :: "call world \<Rightarrow> nat \<Rightarrow> nat \<Rightarrow> unit io" where
  "neg_serve W fuel = serve_each W fuel (neg_handle W)"

text \<open>One case of \<^verbatim>\<open>run\<close>; the server's goroutine runs where the dial finds it.\<close>

definition neg_case :: "call world \<Rightarrow> nat \<Rightarrow> nat \<Rightarrow> string \<times> string list \<Rightarrow> unit io" where
  "neg_case W fuel server = (\<lambda>(name, wants).
     go_then (neg_serve W fuel server)
     (go_try (go_wrap name (preferred W (AddrOf server) wants ''hello'')) (\<lambda>(alpn, reply).
      if alpn = [] then println (name @ '': no version in common with the server'')
      else println (name @ '': negotiated '' @ neg_version alpn @ '', reply '' @ quote reply))))"

definition neg_run :: "call world \<Rightarrow> nat \<Rightarrow> unit io" where
  "neg_run W fuel =
     go_try (neg_bind W [WithALPNs [neg_v1, neg_v2]]) (\<lambda>server.
     go_defer (shutdown W server)
       (go_each (neg_case W fuel server)
          [(''modern client'', [neg_v3, neg_v2, neg_v1]), (''pinned to v2'', [neg_v2]),
           (''legacy client'', [neg_v1]), (''future-only client'', [neg_v3])]))"

section \<open>Key exchange\<close>

definition kx_alpn :: string where
  "kx_alpn = ''go-iroh-examples/key-exchange/1''"

record kx_report =
  kx_nonce :: u64
  kx_group :: string

text \<open>\<^verbatim>\<open>postcard\<close>, the library's codec: a parameter. \<open>postcard_ok\<close> is what it documents.\<close>

record postcard_lib =
  put_request :: "u64 \<Rightarrow> gerr + bytes"
  get_request :: "bytes \<Rightarrow> gerr + u64"
  put_report :: "kx_report \<Rightarrow> gerr + bytes"
  get_report :: "bytes \<Rightarrow> gerr + kx_report"

definition postcard_ok :: "postcard_lib \<Rightarrow> bool" where
  "postcard_ok P \<longleftrightarrow>
     (\<forall>r. \<exists>b. put_request P r = Inr b \<and> get_request P b = Inr r) \<and>
     (\<forall>r. \<exists>b. put_report P r = Inr b \<and> get_report P b = Inr r) \<and>
     (\<exists>e. get_report P [] = Inl e)"

definition the_nonce :: u64 where
  "the_nonce = 0x5a5a"

fun hex_nat :: "nat \<Rightarrow> string" where
  "hex_nat n = (if n < 16 then [hex_char n] else hex_nat (n div 16) @ [hex_char (n mod 16)])"

declare hex_nat.simps [simp del]

definition kx_answer :: "postcard_lib \<Rightarrow> bytes \<Rightarrow> string \<Rightarrow> bytes" where
  "kx_answer P req grp =
     (case get_request P req of
        Inl e \<Rightarrow> []
      | Inr nonce \<Rightarrow> (case put_report P \<lparr>kx_nonce = nonce, kx_group = grp\<rparr> of Inl e \<Rightarrow> [] | Inr b \<Rightarrow> b))"

text \<open>What \<^verbatim>\<open>probe\<close> makes of a reply: the group the other side reports.\<close>

definition read_report :: "postcard_lib \<Rightarrow> string \<Rightarrow> gerr + string" where
  "read_report P reply =
     (case get_report P (bytes_of reply) of
        Inl e \<Rightarrow> Inl (Wrapf ''decode report'' e)
      | Inr rep \<Rightarrow>
        if kx_nonce rep \<noteq> the_nonce
        then Inl (Err (''report nonce = 0x'' @ hex_nat (unat (kx_nonce rep)) @ '', want 0x5a5a''))
        else Inr (kx_group rep))"

definition kx_group_of :: "call world \<Rightarrow> nat \<Rightarrow> string io" where
  "kx_group_of W conn = query W got_text (Lib ''Conn.KeyExchangeGroup'' [conn] [])"

abbreviation (input) kx_bind where
  "kx_bind \<equiv> bind_loopback"

abbreviation (input) kx_exchange where
  "kx_exchange \<equiv> exchange"

definition probe :: "call world \<Rightarrow> postcard_lib \<Rightarrow> endpoint_addr \<Rightarrow> string \<Rightarrow> (string \<times> string) io" where
  "probe W P addr policy =
     go_try (kx_bind W [WithKeyExchangePolicy policy]) (\<lambda>client.
     go_defer (shutdown W client)
       (go_try (invoke W (Net (Connect client addr kx_alpn))) (\<lambda>conn.
        go_defer (invoke W (Net (CloseConn conn 0 [])))
          (go_try (go_lift (put_request P the_nonce)) (\<lambda>req.
           go_try (kx_exchange W conn (text_of req)) (\<lambda>reply.
           go_try (go_lift (read_report P reply)) (\<lambda>accepted.
           go_try (kx_group_of W conn) (\<lambda>dialed.
           go_ret (dialed, accepted)))))))))"

abbreviation (input) kx_transform where
  "kx_transform \<equiv> transform"

definition kx_handle :: "call world \<Rightarrow> postcard_lib \<Rightarrow> nat \<Rightarrow> unit io" where
  "kx_handle W P conn =
     go_try (kx_group_of W conn) (\<lambda>grp.
     kx_transform W conn (\<lambda>req. text_of (kx_answer P (bytes_of req) grp)))"

definition kx_serve :: "call world \<Rightarrow> postcard_lib \<Rightarrow> nat \<Rightarrow> nat \<Rightarrow> unit io" where
  "kx_serve W P fuel = serve_each W fuel (kx_handle W P)"

definition kx_case :: "call world \<Rightarrow> postcard_lib \<Rightarrow> nat \<Rightarrow> string \<times> nat \<times> string \<Rightarrow> unit io" where
  "kx_case W P fuel = (\<lambda>(name, server, policy).
     go_then (kx_serve W P fuel server)
     (go_catch (probe W P (AddrOf server) policy) (\<lambda>r.
      case r of
        Inl e \<Rightarrow> if is_tls_failure e then println (name @ '': refused: no key exchange group in common'')
                 else go_fail (Wrapf name e)
      | Inr (dialed, accepted) \<Rightarrow>
          say_bool (name @ '': '' @ dialed @ '', both ends agree:'') (dialed = accepted))))"

definition kx_run :: "call world \<Rightarrow> postcard_lib \<Rightarrow> nat \<Rightarrow> unit io" where
  "kx_run W P fuel =
     go_try (kx_bind W [WithALPNs [kx_alpn]]) (\<lambda>flexible.
     go_defer (shutdown W flexible)
       (go_try (kx_bind W [WithALPNs [kx_alpn], WithKeyExchangePolicy ''PQOnly'']) (\<lambda>strict.
        go_defer (shutdown W strict)
          (go_each (kx_case W P fuel)
             [(''default server, default client'', flexible, ''Default''),
              (''default server, classical client'', flexible, ''Classical''),
              (''pq-only server, default client'', strict, ''Default''),
              (''pq-only server, classical client'', strict, ''Classical'')]))))"

section \<open>What is given back\<close>

lemma owns_serve_each:
  assumes "\<And>c. owns opens_endpoint frees_endpoint {} (handle c) (\<lambda>_. {})"
  shows "owns opens_endpoint frees_endpoint {} (serve_each W fuel handle ep) (\<lambda>_. {})"
  unfolding serve_each_def
  by (rule owns_loop assms quiet_then owns_quiet_catch owns_invoke owns_cases owns_ret | simp)+

lemma owns_neg_run: "owns opens_endpoint frees_endpoint {} (neg_run W fuel) (\<lambda>_. {})"
proof -
  have handle: "owns opens_endpoint frees_endpoint {} (neg_handle W c) (\<lambda>_. {})" for c
    unfolding neg_handle_def by (rule program_rules | simp)+
  have dial: "owns opens_endpoint frees_endpoint {} (dial_preferred W client addr msg wants) (\<lambda>_. {})" for client addr msg wants
    by (induction wants) (simp add: owns_ret, simp, (rule program_rules | assumption | simp)+)
  have pref: "owns opens_endpoint frees_endpoint {} (preferred W addr wants msg) (\<lambda>_. {})" for addr wants msg
    unfolding preferred_def
    by (simp only: Diff_cancel | rule owns_try [OF owns_bind] owns_defer [OF drops_shutdown] dial)+
  show ?thesis
    unfolding neg_run_def neg_case_def neg_serve_def
    by (simp only: Diff_cancel | rule owns_try [OF owns_bind] owns_defer [OF drops_shutdown] owns_each pref owns_serve_each handle
        program_rules | simp)+
qed

lemma owns_kx_run: "owns opens_endpoint frees_endpoint {} (kx_run W P fuel) (\<lambda>_. {})"
proof -
  have handle: "owns opens_endpoint frees_endpoint {} (kx_handle W P c) (\<lambda>_. {})" for c
    unfolding kx_handle_def kx_group_of_def by (rule program_rules | simp)+
  have probe: "owns opens_endpoint frees_endpoint {} (probe W P addr policy) (\<lambda>_. {})" for addr policy
    unfolding probe_def kx_group_of_def
    by (simp only: Diff_cancel | rule owns_try [OF owns_bind] program_rules | simp)+
  show ?thesis
    unfolding kx_run_def kx_case_def kx_serve_def
    by (simp only: Diff_cancel | rule owns_try [OF owns_bind] owns_defer [OF drops_shutdown] owns_each probe owns_serve_each handle
        program_rules | simp)+
qed

section \<open>Properties\<close>

text \<open>The dials a history shows, oldest first: the protocol asked for, and the error if it failed.\<close>

fun dial_log :: "io_hist \<Rightarrow> (string \<times> gerr option) list" where
  "dial_log [] = []"
| "dial_log (Did (Net (Connect c a w)) # h) = dial_log h @ [(w, None)]"
| "dial_log (Failed (Net (Connect c a w)) e # h) = dial_log h @ [(w, Some e)]"
| "dial_log (ev # h) = dial_log h"

definition refused :: "string \<times> gerr option \<Rightarrow> bool" where
  "refused d = (case snd d of None \<Rightarrow> False | Some e \<Rightarrow> no_version_in_common e)"

lemma dial_log_exchange [simp]: "dial_log (snd (exchange W conn msg h)) = dial_log h"
  by (simp add: exchange_def read_all_def go_simps split: option.split)

lemma dial_log_served:
  "dial_log (snd (go_defer (invoke W (Net (CloseConn conn 0 [])))
       (go_try (exchange W conn msg) (\<lambda>reply.
        go_try (query W got_text (Net (ConnALPN conn))) (\<lambda>alpn. go_ret (alpn, reply)))) h)) = dial_log h"
proof -
  obtain r h1 where x: "exchange W conn msg h = (r, h1)" by fastforce
  then have "dial_log h1 = dial_log h" using dial_log_exchange [of W conn msg h] by simp
  with x show ?thesis
    by (cases r) (simp_all add: go_simps split: option.split)
qed

text \<open>How a search over \<open>wants\<close> ended: nothing in common, a dial taken, or another failure.\<close>

definition search_end :: "string list \<Rightarrow> (string \<times> gerr option) list \<Rightarrow> gerr + string \<times> string \<Rightarrow> bool" where
  "search_end wants new r \<longleftrightarrow>
     (length new = length wants \<and> list_all refused new \<and> r = Inr ([], [])) \<or>
     (\<exists>d ds. new = ds @ [d] \<and> list_all refused ds \<and>
        (snd d = None \<or> (\<exists>e. snd d = Some e \<and> \<not> no_version_in_common e \<and> r = Inl e)))"

lemma search_end_Cons: "refused d \<Longrightarrow> search_end wants new r \<Longrightarrow> search_end (w # wants) (d # new) r"
  unfolding search_end_def by (elim disjE exE) (auto intro!: exI [where x = "d # ds" for ds])

text \<open>The search goes down the list: it dials the versions in the order given, each once, goes on
  only after a refusal for the version, and so ends at the first dial that is taken (whose
  result is the exchange's), at the first that fails in another way (whose error it returns),
  or with no version when the peer has refused them all.\<close>

lemma versions_tried_in_order:
  "\<exists>new. dial_log (snd (dial_preferred W client addr msg wants h)) = dial_log h @ new \<and>
     prefix (map fst new) wants \<and> search_end wants new (fst (dial_preferred W client addr msg wants h))"
proof (induction wants arbitrary: h)
  case Nil
  show ?case by (simp add: go_simps search_end_def)
next
  case (Cons w ws)
  let ?c = "Net (Connect client addr w)"
  show ?case
  proof (cases "fails W h ?c")
    case None
    then show ?thesis
      using dial_log_served [of W "length h" msg "Did ?c # h"]
      by (intro exI [of _ "[(w, None)]"]) (simp add: go_simps search_end_def)
  next
    case (Some e)
    show ?thesis
    proof (cases "no_version_in_common e")
      case True
      from Cons [of "Failed ?c e # h"] obtain new where
        "dial_log (snd (dial_preferred W client addr msg ws (Failed ?c e # h))) = dial_log (Failed ?c e # h) @ new"
        "prefix (map fst new) ws" "search_end ws new (fst (dial_preferred W client addr msg ws (Failed ?c e # h)))"
        by blast
      with Some True show ?thesis
        by (intro exI [of _ "(w, Some e) # new"]) (simp add: go_simps search_end_Cons refused_def)
    next
      case False
      with Some show ?thesis
        by (intro exI [of _ "[(w, Some e)]"]) (simp add: go_simps search_end_def)
    qed
  qed
qed

text \<open>A report answers its request: what the server makes of a request is read back by the prober
  as the group the server saw, and a request the server cannot decode gives an error at the
  prober, not a group.\<close>

lemma report_answers_request:
  assumes "postcard_ok P" and "put_request P the_nonce = Inr req"
  shows "read_report P (text_of (kx_answer P req g)) = Inr g"
proof -
  have "get_request P req = Inr the_nonce"
    using assms unfolding postcard_ok_def by (metis sum.inject(2))
  moreover obtain b where "put_report P \<lparr>kx_nonce = the_nonce, kx_group = g\<rparr> = Inr b"
    "get_report P b = Inr \<lparr>kx_nonce = the_nonce, kx_group = g\<rparr>"
    using assms(1) unfolding postcard_ok_def by blast
  ultimately show ?thesis
    by (simp add: read_report_def kx_answer_def)
qed

lemma junk_is_no_report:
  assumes "postcard_ok P" and "get_request P junk = Inl e"
  shows "\<exists>e'. read_report P (text_of (kx_answer P junk g)) = Inl (Wrapf ''decode report'' e')"
proof -
  obtain e' where "get_report P [] = Inl e'"
    using assms(1) unfolding postcard_ok_def by blast
  moreover have "bytes_of (text_of []) = []" by (rule bytes_of_text_of)
  ultimately show ?thesis
    using assms(2) by (simp add: read_report_def kx_answer_def)
qed

end
