(* ===== verification/WorkQueue.thy ===== *)
theory WorkQueue
  imports CustomTransport
begin

text \<open>
  \<^verbatim>\<open>cmd/go-iroh-rpc-workqueue/main.go\<close>: jobs dispatched together over one connection, their
  results printed as they finish. The order in which they finish is an argument.
\<close>

section \<open>The tasks\<close>

record wq_request =
  wq_id :: int
  wq_task :: string
  wq_body :: string

record wq_response =
  wr_id :: int
  wr_result :: string

text \<open>The loop of \<^verbatim>\<open>reverse\<close>: two indices that move towards each other, the ends swapped.\<close>

function swap_ends :: "'a list \<Rightarrow> nat \<Rightarrow> nat \<Rightarrow> 'a list" where
  "swap_ends r i j = (if i < j then swap_ends (r[i := r ! j, j := r ! i]) (i + 1) (j - 1) else r)"
  by pat_completeness auto
termination by (relation "measure (\<lambda>(r, i, j). j - i)") auto

declare swap_ends.simps [simp del]

text \<open>
  \<^verbatim>\<open>runTask\<close>, on ASCII bodies, whose runes are their bytes. The index of the last rune of an
  empty body is -1 in the source; the loop does not run there either way.
\<close>

definition run_task :: "wq_request \<Rightarrow> string" where
  "run_task req =
     (if wq_task req = ''upper'' then to_upper (wq_body req)
      else if wq_task req = ''reverse'' then swap_ends (wq_body req) 0 (length (wq_body req) - 1)
      else if wq_task req = ''count'' then digits_of (length (wq_body req)) @ '' bytes''
      else ''unknown task'')"

definition wq_handle :: "wq_request \<Rightarrow> wq_response" where
  "wq_handle req = \<lparr>wr_id = wq_id req, wr_result = run_task req\<rparr>"

lemma swap_ends_rev_at:
  "length r = n \<Longrightarrow> k < n \<Longrightarrow> i + j = n - 1 \<Longrightarrow>
     swap_ends r i j ! k = (if i \<le> k \<and> k \<le> j then r ! (n - 1 - k) else r ! k)"
proof (induction r i j rule: swap_ends.induct)
  case (1 r i j)
  show ?case
  proof (cases "i < j")
    case True
    let ?r = "r[i := r ! j, j := r ! i]"
    have j: "j = n - 1 - i" "i < n" "j < n"
      using 1 True by auto
    have "swap_ends ?r (i + 1) (j - 1) ! k = (if i + 1 \<le> k \<and> k \<le> j - 1 then ?r ! (n - 1 - k) else ?r ! k)"
      using 1 True by auto
    moreover have "swap_ends r i j = swap_ends ?r (i + 1) (j - 1)"
      using True by (simp add: swap_ends.simps [of r i j])
    moreover have "(if i + 1 \<le> k \<and> k \<le> j - 1 then ?r ! (n - 1 - k) else ?r ! k) = (if i \<le> k \<and> k \<le> j then r ! (n - 1 - k) else r ! k)"
    proof -
      have len: "length r = n" by (rule 1)
      consider "k = i" | "k = j" | "i < k \<and> k < j" | "k < i \<or> j < k" by linarith
      then show ?thesis
      proof cases
        case 1
        with True j len show ?thesis by simp
      next
        case 2
        with True j len show ?thesis by simp
      next
        case 3
        with True j have "i < n - 1 - k \<and> n - 1 - k < j" "i + 1 \<le> k \<and> k \<le> j - 1" "i \<le> k \<and> k \<le> j" by linarith+
        then show ?thesis by simp
      next
        case 4
        with True have "\<not> (i + 1 \<le> k \<and> k \<le> j - 1)" "\<not> (i \<le> k \<and> k \<le> j)" "k \<noteq> i" "k \<noteq> j" by linarith+
        then show ?thesis by (simp only: if_False) simp
      qed
    qed
    ultimately show ?thesis by simp
  next
    case False
    then have "swap_ends r i j = r"
      by (simp add: swap_ends.simps [of r i j])
    with 1 False show ?thesis by (auto intro: arg_cong [where f = "(!) r"])
  qed
qed

lemma length_swap_ends [simp]: "length (swap_ends r i j) = length r"
proof (induction r i j rule: swap_ends.induct)
  case (1 r i j)
  then show ?case by (subst swap_ends.simps) simp
qed

lemma swap_ends_rev: "swap_ends r 0 (length r - 1) = rev r"
proof (rule nth_equalityI)
  fix k assume "k < length (swap_ends r 0 (length r - 1))"
  then have "k < length r" "k \<le> length r - 1" by auto
  then show "swap_ends r 0 (length r - 1) ! k = rev r ! k"
    using swap_ends_rev_at [of r "length r" k 0 "length r - 1"] by (simp add: rev_nth)
qed simp

section \<open>The program\<close>

definition wq_alpn :: string where
  "wq_alpn = ''go-iroh-examples/rpc-workqueue/1''"

definition show_int :: "int \<Rightarrow> string" where
  "show_int i = (if i < 0 then ''-'' @ digits_of (nat (- i)) else digits_of (nat i))"

text \<open>
  \<open>answer h req\<close>: the first response the library's iterator gives to a call, if any. A call
  fails where it is made, or where its first response is read.
\<close>

definition wq_call :: "call world \<Rightarrow> (io_hist \<Rightarrow> wq_request \<Rightarrow> wq_response option) \<Rightarrow> nat \<Rightarrow> wq_request \<Rightarrow> wq_response io" where
  "wq_call W answer conn req =
     go_try (invoke W (Lib ''irpc.Call'' [conn] [show_int (wq_id req), wq_task req, wq_body req])) (\<lambda>responses.
     go_try (invoke_get W (\<lambda>_ h _. answer h req) (Lib ''responses.next'' [responses] [])) (\<lambda>r.
     case r of
       None \<Rightarrow> go_fail (Err (''no response for job '' @ show_int (wq_id req)))
     | Some resp \<Rightarrow> go_ret resp))"

definition wq_serve :: "call world \<Rightarrow> nat \<Rightarrow> unit io" where
  "wq_serve W ep =
     go_try (invoke W (Net (Accept ep))) (\<lambda>conn.
     go_try (invoke W (Lib ''irpc.Handler.Accept'' [conn] [])) (\<lambda>_. go_ret ()))"

definition wq_jobs :: "wq_request list" where
  "wq_jobs =
     [\<lparr>wq_id = 1, wq_task = ''upper'', wq_body = ''first job''\<rparr>,
      \<lparr>wq_id = 2, wq_task = ''reverse'', wq_body = ''second job''\<rparr>,
      \<lparr>wq_id = 3, wq_task = ''count'', wq_body = ''third job''\<rparr>]"

definition job_line :: "wq_response \<Rightarrow> string" where
  "job_line r = ''job '' @ show_int (wr_id r) @ '': '' @ wr_result r"

text \<open>A result taken from the channel.\<close>

definition wq_result :: "call world \<Rightarrow> (io_hist \<Rightarrow> wq_request \<Rightarrow> wq_response option) \<Rightarrow> nat \<Rightarrow> wq_request \<Rightarrow> unit io" where
  "wq_result W answer conn job =
     go_try (go_wrap (''job '' @ show_int (wq_id job)) (wq_call W answer conn job)) (\<lambda>r. println (job_line r))"

text \<open>
  The collecting loop, over the jobs in the order in which they finish. The \<^verbatim>\<open>select\<close> takes a
  result (0), the server's error (1), if there is one, or the end of the context (2).
\<close>

fun wq_collect :: "call world \<Rightarrow> (io_hist \<Rightarrow> wq_request \<Rightarrow> wq_response option) \<Rightarrow> nat \<Rightarrow> nat \<Rightarrow> wq_request list \<Rightarrow> unit io" where
  "wq_collect W answer server conn [] = go_ret ()"
| "wq_collect W answer server conn (job # rest) =
     go_try (query W got_nat (Os Select)) (\<lambda>which.
     if which = 2 then go_try (query W got_text (Os CtxErr)) (\<lambda>e. go_fail (Err e))
     else if which = 1 then
       go_catch (wq_serve W server) (\<lambda>r. case r of
         Inl e \<Rightarrow> go_fail (Wrapf ''serve'' e)
       | Inr _ \<Rightarrow> go_try (wq_result W answer conn job) (\<lambda>_. wq_collect W answer server conn rest))
     else go_try (wq_result W answer conn job) (\<lambda>_. wq_collect W answer server conn rest))"

abbreviation (input) wq_bind where
  "wq_bind \<equiv> bind_loopback"

definition wq_run :: "call world \<Rightarrow> (io_hist \<Rightarrow> wq_request \<Rightarrow> wq_response option) \<Rightarrow> nat list \<Rightarrow> unit io" where
  "wq_run W answer order =
     go_try (wq_bind W [WithALPNs [wq_alpn]]) (\<lambda>server.
     go_defer (shutdown W server)
       (go_try (wq_bind W []) (\<lambda>client.
        go_defer (shutdown W client)
          (go_try (invoke W (Net (Connect client (AddrOf server) wq_alpn))) (\<lambda>conn.
           go_defer (invoke W (Lib ''Conn.Close'' [conn] []))
             (wq_collect W answer server conn (map ((!) wq_jobs) order)))))))"

lemma owns_wq_run: "owns opens_endpoint frees_endpoint {} (wq_run W answer order) (\<lambda>_. {})"
proof -
  have serve: "owns opens_endpoint frees_endpoint {} (wq_serve W ep) (\<lambda>_. {})" for ep
    unfolding wq_serve_def by (rule program_rules | simp)+
  have res: "owns opens_endpoint frees_endpoint {} (wq_result W answer conn job) (\<lambda>_. {})" for conn job
    unfolding wq_result_def wq_call_def by (rule program_rules | simp)+
  have collect: "owns opens_endpoint frees_endpoint {} (wq_collect W answer server conn jobs) (\<lambda>_. {})" for server conn jobs
    by (induction jobs) (simp add: owns_ret, simp only: wq_collect.simps, (rule serve res program_rules | assumption | simp)+)
  show ?thesis
    unfolding wq_run_def
    by (simp only: Diff_cancel | rule owns_try [OF owns_bind] collect program_rules | simp)+
qed

section \<open>Properties\<close>

lemma wq_collect_lines:
  assumes up: "\<And>h c. fails W h c = None" and results: "\<And>h. got_nat W h (Os Select) = 0"
    and honest: "\<And>h req. answer h req = Some (wq_handle req)"
  shows "\<exists>h'. wq_collect W answer server conn jobs h = (Inr (), h') \<and>
    stdout_of h' = stdout_of h @ map (\<lambda>j. job_line (wq_handle j)) jobs"
proof (induction jobs arbitrary: h)
  case (Cons job jobs)
  let ?h = "Out (job_line (wq_handle job)) # Did (Lib ''responses.next'' [length (Did (Os Select) # h)] []) #
    Did (Lib ''irpc.Call'' [conn] [show_int (wq_id job), wq_task job, wq_body job]) # Did (Os Select) # h"
  have "wq_collect W answer server conn (job # jobs) h = wq_collect W answer server conn jobs ?h"
    using up results honest by (simp add: wq_result_def wq_call_def go_simps)
  with Cons [of ?h] show ?case by simp
qed (simp add: go_simps)


definition calm_world :: "call world" where
  "calm_world = \<lparr>fails = \<lambda>_ _. None, got_bytes = \<lambda>_ _. [], got_text = \<lambda>_ _. [], got_texts = \<lambda>_ _. [],
     got_nat = \<lambda>_ _. 0, got_flag = \<lambda>_ _. False\<rparr>"


end
