(* ===== verification/PublicEndpoint.thy ===== *)
theory PublicEndpoint
  imports CustomTransport
begin

text \<open>
  \<^verbatim>\<open>cmd/go-iroh-public-endpoint/main.go\<close>: a server on a fixed port and a dialer that is given the
  server's address in pieces. Flags take their defaults from the environment. What the \<^verbatim>\<open>flag\<close>
  package itself writes to standard error is left out.
\<close>

section \<open>The environment\<close>

definition pe_env :: "call world \<Rightarrow> string \<Rightarrow> string \<Rightarrow> string io" where
  "pe_env W name dflt =
     go_try (query W got_text (Os (Getenv name))) (\<lambda>v. go_ret (if v \<noteq> [] then v else dflt))"

definition env_uint :: "call world \<Rightarrow> string \<Rightarrow> nat \<Rightarrow> nat io" where
  "env_uint W name dflt =
     go_try (pe_env W name []) (\<lambda>s. go_ret (case parse_uint16 s of None \<Rightarrow> dflt | Some v \<Rightarrow> v))"

definition env_bool :: "call world \<Rightarrow> string \<Rightarrow> bool \<Rightarrow> bool io" where
  "env_bool W name dflt =
     go_try (pe_env W name []) (\<lambda>s. go_ret (case parse_bool s of None \<Rightarrow> dflt | Some v \<Rightarrow> v))"

section \<open>Usage\<close>

definition pe_usage_lines :: "string list" where
  "pe_usage_lines =
     [''usage:'',
      ''  go-iroh-public-endpoint listen [-port n] [-alpn v] [-serve] [-live]'',
      ''  go-iroh-public-endpoint connect [-peer-id id] [-peer-ip host:port] [-peer-relay url] [-alpn v]'',
      [],
      ''listen binds a fixed UDP port on every IPv4 interface and prints the address a'',
      ''dialer needs. connect takes those pieces as flags and echoes one message off'',
      ''the listener.'']"

fun eprintln_lines :: "string list \<Rightarrow> unit io" where
  "eprintln_lines [] = go_ret ()"
| "eprintln_lines (l # ls) = go_then (eprintln l) (eprintln_lines ls)"

definition pe_usage :: "'a io" where
  "pe_usage = go_then (eprintln_lines pe_usage_lines) (go_fail ErrUsage)"

definition pe_help :: "gerr \<Rightarrow> 'a io" where
  "pe_help e = (if err_is ErrHelp e then go_fail ErrHelp else pe_usage)"

definition default_alpn :: string where
  "default_alpn = ''go-iroh-examples/public-endpoint/1''"

section \<open>Listening\<close>

text \<open>\<^verbatim>\<open>[a b c]\<close>, as \<^verbatim>\<open>Fprintln\<close> prints a slice.\<close>

definition show_slice :: "string list \<Rightarrow> string" where
  "show_slice xs = ''['' @ join '' '' xs @ '']''"

definition print_address :: "call world \<Rightarrow> nat \<Rightarrow> string \<Rightarrow> unit io" where
  "print_address W ep alpn =
     go_try (query W got_text (Lib ''EndpointID.Z32'' [ep] [])) (\<lambda>i.
     go_then (println (''endpoint id: '' @ i))
     (go_then (println (''alpn: '' @ alpn))
     (go_try (query W got_texts (Net (IPAddrs (AddrOf ep)))) (\<lambda>ips.
      go_then (println (''direct paths: '' @ show_slice ips))
      (go_try (query W got_texts (Net (RelayURLs (AddrOf ep)))) (\<lambda>urls.
       go_then (println (''relay paths: '' @ show_slice urls))
       (go_try (query W got_text (Net (LocalAddr ep))) (\<lambda>local.
        println (''local udp: '' @ local)))))))))"

abbreviation (input) pe_echo where
  "pe_echo \<equiv> echo"

text \<open>The accept loop ends with the error of an accept; a connection's echo is a goroutine.\<close>

definition echo_all :: "call world \<Rightarrow> nat \<Rightarrow> nat \<Rightarrow> unit io" where
  "echo_all W fuel ep =
     go_loop fuel (\<lambda>_.
       go_try (invoke W (Net (Accept ep))) (\<lambda>conn.
       go_then (pe_echo W conn) (go_ret (Inr ())))) ()"

text \<open>The conversion \<^verbatim>\<open>uint16(port)\<close> wraps.\<close>

definition listen_opts :: "nat \<Rightarrow> string \<Rightarrow> bool \<Rightarrow> bind_opt list" where
  "listen_opts port alpn live =
     [WithBindAddr (''0.0.0.0:'' @ digits_of (unat (word_of_nat port :: 16 word))), WithALPNs [alpn]] @
     (if live then [WithRelayMode RelayDefault] else [])"

definition pe_listen :: "call world \<Rightarrow> nat \<Rightarrow> nat \<Rightarrow> string \<Rightarrow> bool \<Rightarrow> bool \<Rightarrow> unit io" where
  "pe_listen W fuel port alpn serve live =
     (if 65535 < port then go_fail (Err (''port '' @ digits_of port @ '' out of range''))
      else
        go_try (invoke W (Net (Bind (listen_opts port alpn live)))) (\<lambda>ep.
        go_defer (shutdown W ep)
          (go_try (if live then go_wrap ''connect to public relay map'' (invoke W (Net (Online ep))) else go_ret 0) (\<lambda>_.
           go_try (print_address W ep alpn) (\<lambda>_.
           if \<not> serve then println ''pass -serve or set IROH_EXAMPLE_SERVE=1 to keep serving echo connections''
           else echo_all W fuel ep)))))"

section \<open>Connecting\<close>

text \<open>Either printed form of an id: z-base-32 is tried first.\<close>

definition parse_endpoint_id :: "call world \<Rightarrow> string \<Rightarrow> string io" where
  "parse_endpoint_id W s =
     go_catch (invoke_get W got_text (Os (ParseText ''EndpointIDZ32'' s))) (\<lambda>r.
     case r of
       Inr i \<Rightarrow> go_ret i
     | Inl _ \<Rightarrow> invoke_get W got_text (Os (ParseText ''EndpointID'' s)))"

text \<open>The address from its pieces, and the relay URLs among them.\<close>

definition peer_addr :: "call world \<Rightarrow> string \<Rightarrow> string \<Rightarrow> string \<Rightarrow> (endpoint_addr \<times> string list) io" where
  "peer_addr W peer_id peer_ip peer_relay =
     go_try (go_wrap ''parse peer id'' (parse_endpoint_id W peer_id)) (\<lambda>i.
     go_try (if peer_ip = [] then go_ret (NewAddr i)
       else go_try (go_wrap ''parse peer ip'' (invoke_get W got_text (Os (ParseText ''AddrPort'' peer_ip)))) (\<lambda>ap.
         go_ret (WithIP (NewAddr i) ap))) (\<lambda>addr.
     if peer_relay = [] then go_ret (addr, [])
     else go_try (go_wrap ''parse peer relay'' (invoke_get W got_text (Os (ParseText ''RelayURL'' peer_relay)))) (\<lambda>u.
       go_ret (WithRelayURL addr u, [u]))))"

abbreviation (input) pe_exchange where
  "pe_exchange \<equiv> exchange"

definition pe_connect :: "call world \<Rightarrow> string \<Rightarrow> string \<Rightarrow> string \<Rightarrow> string \<Rightarrow> unit io" where
  "pe_connect W peer_id peer_ip peer_relay alpn =
     (if peer_id = [] \<or> (peer_ip = [] \<and> peer_relay = [])
      then println ''pass -peer-id and -peer-ip or -peer-relay (or set IROH_EXAMPLE_PEER_ID, IROH_EXAMPLE_PEER_IP, IROH_EXAMPLE_PEER_RELAY)''
      else
        go_try (peer_addr W peer_id peer_ip peer_relay) (\<lambda>(addr, urls).
        go_try (invoke W (Net (Bind (if urls = [] then [] else [WithRelayMode (RelayCustom urls)])))) (\<lambda>client.
        go_defer (shutdown W client)
          (go_try (query W got_text (Net (ShortID addr))) (\<lambda>i.
           go_try (go_wrap (''connect to '' @ i) (invoke W (Net (Connect client addr alpn)))) (\<lambda>conn.
           go_defer (invoke W (Net (CloseConn conn 0 [])))
             (go_try (pe_exchange W conn ''public hello'') (\<lambda>reply.
              go_then (println reply)
              (go_try (query W got_text (Net (RemoteID conn))) (\<lambda>remote.
               println (''remote: '' @ remote)))))))))))"

section \<open>The command line\<close>

definition listen_flags :: flag_set where
  "listen_flags = [(''port'', FUint), (''alpn'', FString), (''serve'', FBool), (''live'', FBool)]"

definition connect_flags :: flag_set where
  "connect_flags = [(''peer-id'', FString), (''peer-ip'', FString), (''peer-relay'', FString), (''alpn'', FString)]"

definition bool_text :: "bool \<Rightarrow> string" where
  "bool_text b = (if b then ''true'' else ''false'')"

definition parse_command :: "flag_set \<Rightarrow> string list \<Rightarrow> (flag_values \<Rightarrow> unit io) \<Rightarrow> unit io" where
  "parse_command fs args act =
     (case parse_flags fs [] args of
        Inl e \<Rightarrow> pe_help e
      | Inr (vals, rest) \<Rightarrow> if rest \<noteq> [] then pe_usage else act vals)"

definition listen_command :: "call world \<Rightarrow> nat \<Rightarrow> string list \<Rightarrow> unit io" where
  "listen_command W fuel args =
     go_try (env_uint W ''IROH_EXAMPLE_PORT'' 4433) (\<lambda>port.
     go_try (pe_env W ''IROH_EXAMPLE_ALPN'' default_alpn) (\<lambda>alpn.
     go_try (env_bool W ''IROH_EXAMPLE_SERVE'' False) (\<lambda>serve.
     go_try (env_bool W ''GO_IROH_LIVE_RELAY'' False) (\<lambda>live.
     parse_command listen_flags args (\<lambda>vals.
       pe_listen W fuel
         (case map_of (rev vals) ''port'' of None \<Rightarrow> port | Some v \<Rightarrow> the (parse_uint v))
         (flag_value vals ''alpn'' alpn)
         (the (parse_bool (flag_value vals ''serve'' (bool_text serve))))
         (the (parse_bool (flag_value vals ''live'' (bool_text live)))))))))"

definition connect_command :: "call world \<Rightarrow> string list \<Rightarrow> unit io" where
  "connect_command W args =
     go_try (pe_env W ''IROH_EXAMPLE_PEER_ID'' []) (\<lambda>peer_id.
     go_try (pe_env W ''IROH_EXAMPLE_PEER_IP'' []) (\<lambda>peer_ip.
     go_try (pe_env W ''IROH_EXAMPLE_PEER_RELAY'' []) (\<lambda>peer_relay.
     go_try (pe_env W ''IROH_EXAMPLE_ALPN'' default_alpn) (\<lambda>alpn.
     parse_command connect_flags args (\<lambda>vals.
       pe_connect W (flag_value vals ''peer-id'' peer_id) (flag_value vals ''peer-ip'' peer_ip)
         (flag_value vals ''peer-relay'' peer_relay) (flag_value vals ''alpn'' alpn))))))"

definition pe_run :: "call world \<Rightarrow> nat \<Rightarrow> string list \<Rightarrow> unit io" where
  "pe_run W fuel args =
     (case args of
        [] \<Rightarrow> pe_usage
      | a # rest \<Rightarrow>
        if a \<in> set [''-h'', ''-help'', ''--help''] then go_fail ErrHelp
        else if a = ''listen'' then listen_command W fuel rest
        else if a = ''connect'' then connect_command W rest
        else pe_usage)"

definition pe_main :: "call world \<Rightarrow> nat \<Rightarrow> string list \<Rightarrow> io_hist \<Rightarrow> nat \<times> io_hist" where
  "pe_main W fuel args h =
     (case pe_run W fuel args h of
        (Inr _, h') \<Rightarrow> (0, h')
      | (Inl e, h') \<Rightarrow>
        if err_is ErrHelp e then (0, snd (println_all pe_usage_lines h'))
        else if err_is ErrUsage e then (1, h')
        else (1, ErrOut (err_text e) # h'))"

section \<open>What is given back\<close>

lemma owns_eprintln_lines: "owns opens frees {} (eprintln_lines ls) own"
proof (induction ls)
  case (Cons l ls)
  then show ?case
    using owns_then [OF drops_eprintln [of opens frees l], of "{}"] by simp
qed (simp add: owns_def go_ret_def)

lemma owns_pe_usage: "owns opens frees {} pe_usage own"
  unfolding pe_usage_def
  by (rule owns_then [where F = "{}"] drops_owns owns_eprintln_lines owns_fail | simp)+

lemma owns_pe_run: "owns opens_endpoint frees_endpoint {} (pe_run W fuel args) (\<lambda>_. {})"
proof -
  have addr: "owns opens_endpoint frees_endpoint {} (peer_addr W i p r) (\<lambda>_. {})" for i p r
    unfolding peer_addr_def parse_endpoint_id_def by (rule program_rules | simp)+
  have say: "owns opens_endpoint frees_endpoint {} (print_address W ep alpn) (\<lambda>_. {})" for ep alpn
    unfolding print_address_def by (rule program_rules | simp)+
  have loop: "owns opens_endpoint frees_endpoint {} (echo_all W fuel ep) (\<lambda>_. {})" for ep
    unfolding echo_all_def by (rule owns_loop program_rules | simp)+
  have listen: "owns opens_endpoint frees_endpoint {} (pe_listen W fuel port alpn serve live) (\<lambda>_. {})" for port alpn serve live
    unfolding pe_listen_def
    by (simp only: Diff_cancel opens_endpoint.simps | rule owns_try [OF owns_invoke_open [where c = "Net (Bind opts)" for opts]] say loop program_rules | simp)+
  have dial: "owns opens_endpoint frees_endpoint {} (pe_connect W i p r alpn) (\<lambda>_. {})" for i p r alpn
    unfolding pe_connect_def
    by (simp only: Diff_cancel opens_endpoint.simps | rule owns_try [OF owns_invoke_open [where c = "Net (Bind opts)" for opts]] addr program_rules | simp)+
  have cmd: "owns opens_endpoint frees_endpoint {} (parse_command fs as act) (\<lambda>_. {})"
    if "\<And>vals. owns opens_endpoint frees_endpoint {} (act vals) (\<lambda>_. {})" for fs as act
    unfolding parse_command_def pe_help_def
    by (rule that owns_pe_usage owns_cases owns_fail | simp)+
  show ?thesis
    unfolding pe_run_def listen_command_def connect_command_def pe_env_def env_uint_def env_bool_def
    by (rule cmd listen dial owns_pe_usage program_rules | simp)+
qed

section \<open>Properties\<close>

text \<open>The port a command line and an environment ask for.\<close>

definition requested_port :: "string \<Rightarrow> string list \<Rightarrow> nat" where
  "requested_port setting args =
     (case parse_flags listen_flags [] args of
        Inl _ \<Rightarrow> 0
      | Inr (vals, _) \<Rightarrow>
        (case map_of (rev vals) ''port'' of
           Some v \<Rightarrow> the (parse_uint v)
         | None \<Rightarrow> if setting = [] then 4433 else (case parse_uint16 setting of None \<Rightarrow> 4433 | Some v \<Rightarrow> v)))"

fun binds_port :: "nat \<Rightarrow> call event \<Rightarrow> io_hist \<Rightarrow> bool" where
  "binds_port p (Did (Net (Bind opts))) h = (p \<le> 65535 \<and> hd opts = WithBindAddr (''0.0.0.0:'' @ digits_of p))"
| "binds_port p (Failed (Net (Bind opts)) e) h = (p \<le> 65535 \<and> hd opts = WithBindAddr (''0.0.0.0:'' @ digits_of p))"
| "binds_port p ev h = True"

lemma port_kept: "p \<le> 65535 \<Longrightarrow> hd (listen_opts p alpn live) = WithBindAddr (''0.0.0.0:'' @ digits_of p)"
  by (simp add: listen_opts_def unsigned_of_nat take_bit_nat_eq_self)

lemma keeps_pe_listen: "keeps (binds_port p) (pe_listen W fuel p alpn serve live)"
proof -
  have loop: "keeps (binds_port p) (echo_all W fuel ep)" for ep
    unfolding echo_all_def echo_def read_all_def by (rule keeps_rules | simp)+
  have say: "keeps (binds_port p) (print_address W ep alpn)" for ep
    unfolding print_address_def by (rule keeps_rules | simp)+
  have bind: "p \<le> 65535 \<Longrightarrow> keeps (binds_port p) (invoke W (Net (Bind (listen_opts p alpn live))))"
    by (rule keeps_invoke) (simp_all add: port_kept)
  show ?thesis
    unfolding pe_listen_def shutdown_def
    by (rule keeps_if keeps_fail keeps_try bind keeps_defer say loop keeps_rules | simp)+
qed

lemma keeps_pe_usage: "keeps (binds_port p) pe_usage"
proof -
  have "keeps (binds_port p) (eprintln_lines ls)" for ls
    by (induction ls) (simp add: keeps_ret, simp, (rule keeps_then keeps_eprintln | assumption | simp)+)
  then show ?thesis
    unfolding pe_usage_def by (auto intro: keeps_then keeps_fail)
qed

lemma keeps_listen_command:
  fixes W :: "call world"
  assumes "p = requested_port (got_text W h (Os (Getenv ''IROH_EXAMPLE_PORT''))) args" and "always (binds_port p) h"
  shows "always (binds_port p) (snd (listen_command W fuel args h))"
proof -
  let ?env = "got_text W h (Os (Getenv ''IROH_EXAMPLE_PORT''))"
  let ?port = "if ?env = [] then 4433 else (case parse_uint16 ?env of None \<Rightarrow> 4433 | Some v \<Rightarrow> v)"
  let ?rest = "\<lambda>port. go_try (pe_env W ''IROH_EXAMPLE_ALPN'' default_alpn) (\<lambda>alpn.
     go_try (env_bool W ''IROH_EXAMPLE_SERVE'' False) (\<lambda>serve.
     go_try (env_bool W ''GO_IROH_LIVE_RELAY'' False) (\<lambda>live.
     parse_command listen_flags args (\<lambda>vals.
       pe_listen W fuel
         (case map_of (rev vals) ''port'' of None \<Rightarrow> port | Some v \<Rightarrow> the (parse_uint v))
         (flag_value vals ''alpn'' alpn)
         (the (parse_bool (flag_value vals ''serve'' (bool_text serve))))
         (the (parse_bool (flag_value vals ''live'' (bool_text live))))))))"
  have empty: "parse_uint16 [] = None"
    by (simp add: parse_uint16_def)
  have port: "env_uint W ''IROH_EXAMPLE_PORT'' 4433 h = (Inr ?port, Did (Os (Getenv ''IROH_EXAMPLE_PORT'')) # h)"
    by (simp add: env_uint_def pe_env_def go_simps empty)
  have start: "listen_command W fuel args h = ?rest ?port (Did (Os (Getenv ''IROH_EXAMPLE_PORT'')) # h)"
    unfolding listen_command_def by (subst go_try_def) (simp only: port prod.case sum.case)
  have cmd: "keeps (binds_port p) (parse_command listen_flags args (\<lambda>vals.
       pe_listen W fuel
         (case map_of (rev vals) ''port'' of None \<Rightarrow> ?port | Some v \<Rightarrow> the (parse_uint v)) (a vals) (b vals) (c vals)))" for a b c
  proof (cases "parse_flags listen_flags [] args")
    case (Inl e)
    then show ?thesis
      by (simp add: parse_command_def pe_help_def keeps_pe_usage keeps_fail)
  next
    case (Inr vr)
    obtain vals rest where "vr = (vals, rest)" by fastforce
    with Inr assms(1) have "p = (case map_of (rev vals) ''port'' of None \<Rightarrow> ?port | Some v \<Rightarrow> the (parse_uint v))"
      by (auto simp: requested_port_def split: option.splits)
    with Inr \<open>vr = (vals, rest)\<close> keeps_pe_listen [of p W fuel "a vals" "b vals" "c vals"] show ?thesis
      by (simp add: parse_command_def keeps_pe_usage)
  qed
  have "keeps (binds_port p) (?rest ?port)"
    unfolding pe_env_def env_bool_def by (rule keeps_try keeps_query keeps_ret cmd | simp)+
  from keepsD [OF this, of "Did (Os (Getenv ''IROH_EXAMPLE_PORT'')) # h"] assms(2) show ?thesis
    unfolding start by simp
qed

text \<open>\<^verbatim>\<open>listen\<close> binds the port that was asked for or none: whatever the flags, the environment and the
  network, every bind is on the number of the last \<^verbatim>\<open>-port\<close>, or else of \<^verbatim>\<open>IROH_EXAMPLE_PORT\<close>, or
  else on 4433, and it is at most 65535, so the conversion to 16 bits never changes it.\<close>

lemma listen_binds_requested_port:
  "always (binds_port (requested_port (got_text W [] (Os (Getenv ''IROH_EXAMPLE_PORT''))) args))
     (snd (pe_run W fuel (''listen'' # args) []))"
  using keeps_listen_command [OF refl, of W "[]" args fuel] by (simp add: pe_run_def)

end
