(* ===== verification/Docs.thy ===== *)
theory Docs
  imports CustomTransport
begin

text \<open>
  The two document programs. \<^verbatim>\<open>cmd/go-iroh-docs-sync/main.go\<close> reconciles two replicas on demand;
  \<^verbatim>\<open>cmd/go-iroh-docs-live-sync/main.go\<close> keeps them in step over gossip. The document and blob
  stores are the library's; what a replica writes to them, in which order, and whom it lets
  synchronize are the programs'.
\<close>

section \<open>Entries\<close>

text \<open>What \<^verbatim>\<open>Entries\<close> of a store lists; \<open>view h store\<close> is that list when the history is \<open>h\<close>.\<close>

record doc_entry =
  de_key :: string
  de_author :: string
  de_len :: nat
  de_hash :: string

type_synonym doc_view = "io_hist \<Rightarrow> nat \<Rightarrow> doc_entry list"

definition doc_entries :: "call world \<Rightarrow> doc_view \<Rightarrow> nat \<Rightarrow> doc_entry list io" where
  "doc_entries W view store = query W (\<lambda>_ h _. view h store) (Lib ''MemoryStore.Entries'' [store] [])"

definition doc_len :: "call world \<Rightarrow> doc_view \<Rightarrow> nat \<Rightarrow> nat io" where
  "doc_len W view store = query W (\<lambda>_ h _. length (view h store)) (Lib ''MemoryStore.Len'' [store] [])"

text \<open>
  The write both programs share: the value goes to the blob store, and an entry with its hash,
  its length and a time is signed and put. \<open>put_entry\<close> is the call on the store; it fails where
  the outcome has an error, and tells whether it inserted and how much it removed.
\<close>

definition put_entry :: "nat \<Rightarrow> string \<Rightarrow> string \<Rightarrow> string \<Rightarrow> string \<Rightarrow> nat \<Rightarrow> u64 \<Rightarrow> call" where
  "put_entry store namespace author key hash len timestamp =
     Lib ''MemoryStore.Put'' [store] [namespace, author, key, hash, digits_of len, digits_of (unat timestamp)]"

definition write_blob :: "nat \<Rightarrow> string \<Rightarrow> call" where
  "write_blob content value = Lib ''blobs.WriteBlob'' [content] [value]"

definition put_value ::
  "call world \<Rightarrow> string \<Rightarrow> nat \<Rightarrow> nat \<Rightarrow> string \<Rightarrow> string \<Rightarrow> string \<Rightarrow> string \<Rightarrow> u64 io \<Rightarrow> nat io" where
  "put_value W name store content author namespace key value clock =
     go_try (go_wrap (name @ '': write content for '' @ quote key)
       (invoke_get W (\<lambda>W h c. (got_text W h c, length value)) (write_blob content value))) (\<lambda>(hash, len).
     go_try clock (\<lambda>timestamp.
     go_try (go_wrap (name @ '': persist '' @ quote key)
       (invoke_get W (\<lambda>W h c. (got_flag W h c, got_nat W h c)) (put_entry store namespace author key hash len timestamp)))
       (\<lambda>(inserted, removed).
     if \<not> inserted then go_fail (Err (name @ '': put '' @ quote key @ '': an equal or newer entry is already stored''))
     else go_ret removed)))"

section \<open>Synchronizing on demand\<close>

record ds_replica =
  ds_name :: string
  ds_ep :: nat
  ds_store :: nat
  ds_content :: nat
  ds_author :: string

text \<open>\<^verbatim>\<open>seed\<close>: 32 equal bytes, in hexadecimal.\<close>

definition ds_seed :: "byte \<Rightarrow> bytes" where
  "ds_seed b = replicate 32 b"

definition author_id :: "call world \<Rightarrow> bytes \<Rightarrow> string io" where
  "author_id W s = ask W (Lib ''docs.NewAuthor'' [] [hex_encode s])"

abbreviation (input) ds_bind where
  "ds_bind \<equiv> bind_loopback"

definition ds_new_replica :: "call world \<Rightarrow> string \<Rightarrow> byte \<Rightarrow> ds_replica io" where
  "ds_new_replica W name author_seed =
     go_try (go_wrap (name @ '': bind'') (ds_bind W [WithALPNs [''docs.ALPN'']])) (\<lambda>ep.
     go_catch (invoke W (Blob NewMemStore)) (\<lambda>r.
     case r of
       Inl e \<Rightarrow> go_then (shutdown W ep) (go_fail (Wrapf (name @ '': blob store'') e))
     | Inr content \<Rightarrow>
       go_try (author_id W (ds_seed author_seed)) (\<lambda>author.
       go_try (new_object W (Lib ''docs.NewMemoryStore'' [] [])) (\<lambda>store.
       go_ret \<lparr>ds_name = name, ds_ep = ep, ds_store = store, ds_content = content, ds_author = author\<rparr>))))"

definition ds_put :: "call world \<Rightarrow> ds_replica \<Rightarrow> string \<Rightarrow> string \<Rightarrow> string \<Rightarrow> u64 \<Rightarrow> nat io" where
  "ds_put W r namespace key value timestamp =
     put_value W (ds_name r) (ds_store r) (ds_content r) (ds_author r) namespace key value (go_ret timestamp)"

fun count_content :: "call world \<Rightarrow> ds_replica \<Rightarrow> doc_entry list \<Rightarrow> nat \<Rightarrow> nat io" where
  "count_content W r [] n = go_ret n"
| "count_content W r (e # es) n =
     go_try (go_wrap (ds_name r @ '': blob status'')
       (invoke_get W got_flag (Lib ''blobs.Status'' [ds_content r] [de_hash e]))) (\<lambda>complete.
     count_content W r es (if complete then n + 1 else n))"

definition have_content :: "call world \<Rightarrow> doc_view \<Rightarrow> ds_replica \<Rightarrow> nat io" where
  "have_content W view r =
     go_try (doc_entries W view (ds_store r)) (\<lambda>es. count_content W r es 0)"

definition ds_fingerprint :: "call world \<Rightarrow> nat \<Rightarrow> string io" where
  "ds_fingerprint W store = ask W (Lib ''MemoryStore.Fingerprint'' [store] [])"

definition converged :: "call world \<Rightarrow> ds_replica \<Rightarrow> ds_replica \<Rightarrow> bool io" where
  "converged W a b =
     go_try (ds_fingerprint W (ds_store a)) (\<lambda>x.
     go_try (ds_fingerprint W (ds_store b)) (\<lambda>y. go_ret (x = y)))"

text \<open>
  \<^verbatim>\<open>syncOnce\<close>: \<open>results h\<close> is what \<^verbatim>\<open>SyncTicket\<close> returns, one pair of counters per peer.
\<close>

definition sync_once ::
  "call world \<Rightarrow> (io_hist \<Rightarrow> (nat \<times> nat) list) \<Rightarrow> ds_replica \<Rightarrow> string \<Rightarrow> (nat \<times> nat) io" where
  "sync_once W results r ticket =
     go_try (invoke_get W (\<lambda>_ h _. results h) (Lib ''docs.SyncTicket'' [ds_ep r, ds_store r, ds_content r] [ticket])) (\<lambda>res.
     case res of
       [counts] \<Rightarrow> go_ret counts
     | _ \<Rightarrow> go_fail (Err (ds_name r @ '': synced '' @ digits_of (length res) @ '' peers, want 1'')))"

text \<open>\<^verbatim>\<open>%-12s\<close> and \<^verbatim>\<open>%2d\<close>: padding to a width.\<close>

definition pad_right :: "nat \<Rightarrow> string \<Rightarrow> string" where
  "pad_right n s = s @ replicate (n - length s) (CHR '' '')"

definition pad_left :: "nat \<Rightarrow> string \<Rightarrow> string" where
  "pad_left n s = replicate (n - length s) (CHR '' '') @ s"

definition doc_row :: "(string \<times> string) list \<Rightarrow> doc_entry \<Rightarrow> string" where
  "doc_row names e =
     ''  '' @ pad_right 12 (de_key e) @ '' '' @
     pad_right 5 (case map_of names (de_author e) of Some n \<Rightarrow> n | None \<Rightarrow> []) @ '' '' @
     pad_left 2 (digits_of (de_len e)) @ '' bytes  '' @ de_hash e"

definition print_document :: "call world \<Rightarrow> doc_view \<Rightarrow> string \<Rightarrow> ds_replica \<Rightarrow> (string \<times> string) list \<Rightarrow> unit io" where
  "print_document W view title r names =
     go_try (doc_entries W view (ds_store r)) (\<lambda>es.
     go_then (println (title @ '' document:''))
     (println_all (sort (map (doc_row names) es))))"

fun ds_put_all :: "call world \<Rightarrow> ds_replica \<Rightarrow> string \<Rightarrow> u64 \<Rightarrow> (string \<times> string) list \<Rightarrow> unit io" where
  "ds_put_all W r namespace ts [] = go_ret ()"
| "ds_put_all W r namespace ts ((k, v) # kvs) =
     go_try (ds_put W r namespace k v ts) (\<lambda>_. ds_put_all W r namespace (ts + 1) kvs)"

definition say_entries :: "call world \<Rightarrow> doc_view \<Rightarrow> string \<Rightarrow> ds_replica \<Rightarrow> unit io" where
  "say_entries W view what r =
     go_try (doc_len W view (ds_store r)) (\<lambda>n. println (what @ '' '' @ digits_of n @ '' entries''))"

definition say_content :: "call world \<Rightarrow> doc_view \<Rightarrow> string \<Rightarrow> ds_replica \<Rightarrow> nat \<Rightarrow> unit io" where
  "say_content W view who r n =
     go_try (doc_len W view (ds_store r)) (\<lambda>all.
     println (''content on '' @ who @ '': '' @ digits_of n @ '' of '' @ digits_of all @ '' entries''))"

text \<open>Bob joins with the ticket, writes, and synchronizes.\<close>

definition ds_join ::
  "call world \<Rightarrow> doc_view \<Rightarrow> (io_hist \<Rightarrow> (nat \<times> nat) list) \<Rightarrow> ds_replica \<Rightarrow> ds_replica \<Rightarrow> string \<Rightarrow> u64 \<Rightarrow> string \<Rightarrow> unit io" where
  "ds_join W view results alice bob namespace base wire =
     go_try (invoke W (Lib ''docs.ParseTicket'' [] [wire])) (\<lambda>joined.
     go_try (query W (\<lambda>W h c. (got_text W h c, got_flag W h c)) (Lib ''Capability.Secret'' [joined] [])) (\<lambda>(secret, writable).
     go_try (ask W (Lib ''DocTicket.Kind'' [joined] [])) (\<lambda>kind.
     go_then (println (''ticket kind: '' @ kind))
     (go_then (say_bool ''ticket grants write:'' writable)
     (go_try (query W got_texts (Lib ''DocTicket.Nodes'' [joined] [])) (\<lambda>nodes.
      go_then (println (''ticket nodes: '' @ digits_of (length nodes)))
      (go_try (ask W (Lib ''Capability.NamespaceID'' [joined] [])) (\<lambda>ns.
       go_then (say_bool ''same namespace:'' (ns = namespace))
       (go_try (ds_put_all W bob secret (base + 10) [(''greeting'', ''hello from bob''), (''menu/juice'', ''grapefruit'')]) (\<lambda>_.
        go_try (say_entries W view ''alice before sync:'' alice) (\<lambda>_.
        go_try (say_entries W view ''bob before sync:'' bob) (\<lambda>_.
        go_try (sync_once W results bob wire) (\<lambda>(sent, received).
        go_then (println (''sync 1: sent='' @ digits_of sent @ '' received='' @ digits_of received))
        (go_try (say_entries W view ''alice after sync:'' alice) (\<lambda>_.
         go_try (say_entries W view ''bob after sync:'' bob) (\<lambda>_.
         go_try (converged W alice bob) (\<lambda>same.
         say_bool ''fingerprints equal:'' same)))))))))))))))))"

definition ds_inspect :: "call world \<Rightarrow> doc_view \<Rightarrow> ds_replica \<Rightarrow> ds_replica \<Rightarrow> unit io" where
  "ds_inspect W view alice bob =
     (let names = AList.update (ds_author bob) ''bob'' (AList.update (ds_author alice) ''alice'' []) in
      go_try (print_document W view ''alice'' alice names) (\<lambda>_.
      go_try (print_document W view ''bob'' bob names) (\<lambda>_.
      go_try (have_content W view alice) (\<lambda>a.
      go_try (have_content W view bob) (\<lambda>b.
      go_try (say_content W view ''alice'' alice a) (\<lambda>_.
      say_content W view ''bob'' bob b))))))"

definition ds_update ::
  "call world \<Rightarrow> doc_view \<Rightarrow> (io_hist \<Rightarrow> (nat \<times> nat) list) \<Rightarrow> ds_replica \<Rightarrow> ds_replica \<Rightarrow> string \<Rightarrow> u64 \<Rightarrow> string \<Rightarrow> unit io" where
  "ds_update W view results alice bob namespace base wire =
     go_try (ds_put W alice namespace ''menu/coffee'' ''cold brew'' (base + 100)) (\<lambda>removed.
     go_then (println (''older entries replaced: '' @ digits_of removed))
     (go_try (say_entries W view ''alice after update:'' alice) (\<lambda>_.
      go_try (sync_once W results bob wire) (\<lambda>(sent, received).
      go_then (println (''sync 2: sent='' @ digits_of sent @ '' received='' @ digits_of received))
      (go_try (query W (\<lambda>W h c. (got_flag W h c, got_text W h c, got_nat W h c))
         (Lib ''MemoryStore.GetExact'' [ds_store bob] [namespace, ds_author alice, ''menu/coffee''])) (\<lambda>(ok, hash, updated).
       if \<not> ok then go_fail (Err (''bob is missing alice'' @ [CHR 0x27] @ ''s menu/coffee entry''))
       else
         go_try (ask W (Lib ''blobs.NewHash'' [] [''cold brew''])) (\<lambda>want.
         go_then (say_bool (''bob has alice'' @ [CHR 0x27] @ ''s update:'') (hash = want))
         (go_try (query W got_flag (Lib ''SignedEntry.Verify'' [updated] [])) (\<lambda>verified.
          go_then (say_bool ''signature verifies:'' verified)
          (go_try (converged W alice bob) (\<lambda>same.
           say_bool ''fingerprints equal:'' same)))))))))))"

definition ds_run :: "call world \<Rightarrow> doc_view \<Rightarrow> (io_hist \<Rightarrow> (nat \<times> nat) list) \<Rightarrow> unit io" where
  "ds_run W view results =
     go_try (ask W (Lib ''docs.NewNamespaceSecret'' [] [hex_encode (ds_seed 0xd0)])) (\<lambda>namespace.
     go_try (ds_new_replica W ''alice'' 0xa1) (\<lambda>alice.
     go_defer (shutdown W (ds_ep alice))
       (go_try (ds_new_replica W ''bob'' 0xb2) (\<lambda>bob.
        go_defer (shutdown W (ds_ep bob))
          (go_try (invoke W (Net (NewRouter (ds_ep alice) [''docs.ALPN'']))) (\<lambda>router.
           go_defer (invoke W (Net (RouterShutdown router (ds_ep alice))))
             (go_try (query W got_nat (Lib ''time.UnixMicro'' [] [])) (\<lambda>now.
              let base = word_of_nat now in
              go_try (ds_put_all W alice namespace base
                [(''greeting'', ''hello from alice''), (''menu/coffee'', ''espresso''), (''menu/tea'', ''genmaicha'')]) (\<lambda>_.
              go_try (ask W (Lib ''docs.NewTicket'' [ds_ep alice] [namespace])) (\<lambda>wire.
              go_try (ds_join W view results alice bob namespace base wire) (\<lambda>_.
              go_try (ds_inspect W view alice bob) (\<lambda>_.
              ds_update W view results alice bob namespace base wire))))))))))))"

section \<open>Live synchronization\<close>

record dl_replica =
  dl_name :: string
  dl_ep :: nat
  dl_router :: nat
  dl_gossip :: nat
  dl_lookup :: nat
  dl_store :: nat
  dl_content :: nat
  dl_author :: string

text \<open>
  The atomic pointer \<^verbatim>\<open>namespace\<close> of a replica, stored to as an event of its own: what it holds is
  the last store, and the peer's handler asks \<^verbatim>\<open>allowSync\<close> at any time.
\<close>

definition store_namespace :: "nat \<Rightarrow> string option \<Rightarrow> call" where
  "store_namespace ep ns = Lib ''namespace.Store'' [ep] (case ns of None \<Rightarrow> [] | Some n \<Rightarrow> [n])"

definition stored_namespace :: "call \<Rightarrow> nat \<Rightarrow> string option option" where
  "stored_namespace c ep =
     (case c of
        Lib f xs ss \<Rightarrow> if f = ''namespace.Store'' \<and> xs = [ep]
          then Some (case ss of [] \<Rightarrow> None | n # _ \<Rightarrow> Some n) else None
      | _ \<Rightarrow> None)"

fun active_namespace :: "io_hist \<Rightarrow> nat \<Rightarrow> string option" where
  "active_namespace [] ep = None"
| "active_namespace (Did c # h) ep = (case stored_namespace c ep of Some v \<Rightarrow> v | None \<Rightarrow> active_namespace h ep)"
| "active_namespace (Failed c e # h) ep = (case stored_namespace c ep of Some v \<Rightarrow> v | None \<Rightarrow> active_namespace h ep)"
| "active_namespace (ev # h) ep = active_namespace h ep"

definition allow_sync :: "io_hist \<Rightarrow> dl_replica \<Rightarrow> string \<Rightarrow> bool" where
  "allow_sync h r ns = (case active_namespace h (dl_ep r) of None \<Rightarrow> False | Some active \<Rightarrow> active = ns)"

text \<open>The live synchronization a replica has started by now, if any.\<close>

fun live_of :: "io_hist \<Rightarrow> nat \<Rightarrow> nat option" where
  "live_of [] ep = None"
| "live_of (Did (Lib f xs ss) # h) ep =
     (if f = ''docs.StartLiveSync'' \<and> xs \<noteq> [] \<and> hd xs = ep then Some (length h) else live_of h ep)"
| "live_of (ev # h) ep = live_of h ep"

definition dl_seed :: "call world \<Rightarrow> byte \<Rightarrow> bytes io" where
  "dl_seed W b = query W got_bytes (Lib ''sha256.Sum256'' [] [text_of [b]])"

abbreviation (input) dl_bind where
  "dl_bind \<equiv> bind_loopback"

definition dl_new_replica :: "call world \<Rightarrow> string \<Rightarrow> byte \<Rightarrow> nat \<Rightarrow> nat \<Rightarrow> dl_replica io" where
  "dl_new_replica W name author_seed store lookup =
     go_try (dl_bind W [WithALPNs [''docs.ALPN'', ''gossip.ALPN'']]) (\<lambda>ep.
     go_try (new_object W (Lib ''MemoryLookup.AddEndpointAddr'' [lookup, ep] [])) (\<lambda>_.
     go_try (invoke W (Blob NewMemStore)) (\<lambda>content.
     go_try (new_object W (Gossip (NewGossip ep))) (\<lambda>g.
     go_try (dl_seed W author_seed) (\<lambda>sd.
     go_try (author_id W sd) (\<lambda>author.
     go_try (invoke W (Net (NewRouter ep [''gossip.ALPN'', ''docs.ALPN'']))) (\<lambda>router.
     go_ret \<lparr>dl_name = name, dl_ep = ep, dl_router = router, dl_gossip = g, dl_lookup = lookup, dl_store = store,
              dl_content = content, dl_author = author\<rparr>)))))))"

definition start_live_sync :: "call world \<Rightarrow> dl_replica \<Rightarrow> string \<Rightarrow> nat list \<Rightarrow> unit io" where
  "start_live_sync W r namespace bootstrap =
     go_then (new_object W (store_namespace (dl_ep r) (Some namespace)))
     (go_catch (invoke W (Lib ''docs.StartLiveSync''
         ([dl_ep r, dl_gossip r, dl_store r, dl_lookup r, dl_content r] @ bootstrap) [namespace])) (\<lambda>res.
      case res of
        Inl e \<Rightarrow> go_then (new_object W (store_namespace (dl_ep r) None)) (go_fail (Wrapf (dl_name r @ '': start live sync'') e))
      | Inr _ \<Rightarrow> go_ret ()))"

definition dl_put :: "call world \<Rightarrow> dl_replica \<Rightarrow> string \<Rightarrow> string \<Rightarrow> string \<Rightarrow> unit io" where
  "dl_put W r namespace key value =
     go_try (put_value W (dl_name r) (dl_store r) (dl_content r) (dl_author r) namespace key value
       (query W (\<lambda>W h c. word_of_nat (got_nat W h c)) (Lib ''time.UnixMicro'' [] []))) (\<lambda>_. go_ret ())"

text \<open>\<^verbatim>\<open>await\<close> looks at the store, and again at every tick.\<close>

definition dl_await :: "call world \<Rightarrow> doc_view \<Rightarrow> nat \<Rightarrow> dl_replica \<Rightarrow> nat \<Rightarrow> unit io" where
  "dl_await W view fuel r n =
     go_loop fuel (\<lambda>_.
       go_try (doc_len W view (dl_store r)) (\<lambda>len.
       if n \<le> len then go_ret (Inl ())
       else go_try (query W got_flag (Os Select)) (\<lambda>tick.
         if tick then go_ret (Inr ())
         else go_try (doc_len W view (dl_store r)) (\<lambda>now.
           go_try (ctx_error W) (\<lambda>e.
           go_fail (Wrapf (dl_name r @ '' holds '' @ digits_of now @ '' entries, want '' @ digits_of n) e)))))) ()"

definition dl_close_live :: "call world \<Rightarrow> dl_replica \<Rightarrow> unit io" where
  "dl_close_live W r h =
     (case live_of h (dl_ep r) of
        None \<Rightarrow> go_ret ()
      | Some live \<Rightarrow> go_then (invoke W (Lib ''LiveSync.Close'' [live] [])) (go_ret ())) h"

definition dl_close :: "call world \<Rightarrow> dl_replica \<Rightarrow> unit io" where
  "dl_close W r =
     go_then (new_object W (store_namespace (dl_ep r) None))
     (go_then (dl_close_live W r)
     (go_then (invoke W (Net (RouterShutdown (dl_router r) (dl_ep r))))
     (go_then (shutdown W (dl_ep r)) (go_ret ()))))"

text \<open>\<^verbatim>\<open>run\<close>, once both replicas are there.\<close>

definition dl_play :: "call world \<Rightarrow> doc_view \<Rightarrow> nat \<Rightarrow> string \<Rightarrow> string \<Rightarrow> dl_replica \<Rightarrow> dl_replica \<Rightarrow> unit io" where
  "dl_play W view fuel namespace path alice bob =
     go_try (dl_put W alice namespace ''before'' ''written before bob joined'') (\<lambda>_.
     go_try (start_live_sync W alice namespace []) (\<lambda>_.
     go_try (start_live_sync W bob namespace [dl_ep alice]) (\<lambda>_.
     go_try (go_wrap ''bob was never caught up on the entry written before he joined'' (dl_await W view fuel bob 1)) (\<lambda>_.
     go_then (println ''bootstrap: bob reconciled 1 entry he never saw broadcast'')
     (go_try (dl_put W alice namespace ''after'' ''written while both are live'') (\<lambda>_.
      go_try (go_wrap (''alice'' @ [CHR 0x27] @ ''s live write never reached bob'') (dl_await W view fuel bob 2)) (\<lambda>_.
      go_then (println (''gossip: alice'' @ [CHR 0x27] @ ''s write reached bob without a sync call''))
      (go_try (dl_put W bob namespace ''reply'' ''bob writes too'') (\<lambda>_.
       go_try (go_wrap (''bob'' @ [CHR 0x27] @ ''s live write never reached alice'') (dl_await W view fuel alice 3)) (\<lambda>_.
       go_then (println (''gossip: bob'' @ [CHR 0x27] @ ''s write reached alice the same way''))
       (go_try (ds_fingerprint W (dl_store alice)) (\<lambda>a.
        go_try (ds_fingerprint W (dl_store bob)) (\<lambda>b.
        if a \<noteq> b then go_fail (Err ''replicas did not converge'')
        else
          go_try (doc_len W view (dl_store alice)) (\<lambda>n.
          go_then (println (''converged: '' @ digits_of n @ '' entries on both replicas''))
          (go_try (go_wrap (''bob'' @ [CHR 0x27] @ ''s store failed to persist'')
             (invoke W (Lib ''MemoryStore.PersistError'' [dl_store bob] []))) (\<lambda>_.
           go_try (go_wrap (''reopen bob'' @ [CHR 0x27] @ ''s store'') (invoke W (Lib ''docs.LoadMemoryStoreFile'' [] [path]))) (\<lambda>reopened.
           go_try (ds_fingerprint W reopened) (\<lambda>x.
           go_try (ds_fingerprint W (dl_store bob)) (\<lambda>y.
           if x \<noteq> y then go_fail (Err (''bob'' @ [CHR 0x27] @ ''s store did not survive being reopened''))
           else go_try (doc_len W view reopened) (\<lambda>m.
             println (''persisted: '' @ digits_of m @ '' entries read back from the file'')))))))))))))))))))))"

definition dl_run :: "call world \<Rightarrow> doc_view \<Rightarrow> nat \<Rightarrow> unit io" where
  "dl_run W view fuel =
     go_try (dl_seed W 0xd0) (\<lambda>sd.
     go_try (ask W (Lib ''docs.NewNamespaceSecret'' [] [hex_encode sd])) (\<lambda>namespace.
     go_try (invoke W (Os (MkdirTemp ''go-iroh-docs-live-sync''))) (\<lambda>dir.
     go_defer (invoke W (Os (RemoveTemp dir)))
       (go_try (ask W (Os (TempPath dir))) (\<lambda>root.
        let path = path_join [root, ''bob.doc''] in
        go_try (new_object W (Lib ''iroh.NewMemoryLookup'' [] [])) (\<lambda>lookup.
        go_try (new_object W (Lib ''docs.NewMemoryStore'' [] [])) (\<lambda>alice_store.
        go_try (dl_new_replica W ''alice'' 0xa1 alice_store lookup) (\<lambda>alice.
        go_defer (dl_close W alice)
          (go_try (go_wrap (''open bob'' @ [CHR 0x27] @ ''s store'') (invoke W (Lib ''docs.NewFileStore'' [] [path]))) (\<lambda>bob_store.
           go_try (dl_new_replica W ''bob'' 0xb0 bob_store lookup) (\<lambda>bob.
           go_defer (dl_close W bob) (dl_play W view fuel namespace path alice bob))))))))))))"

section \<open>What is given back\<close>

lemma owns_try_object:
  "(\<And>n. opens c n = {}) \<Longrightarrow> (\<And>x. owns opens frees S (k x) own) \<Longrightarrow> owns opens frees S (go_try (new_object W c) k) own"
  unfolding new_object_def by (rule owns_try_query)

lemma owns_try_ask:
  "(\<And>n. opens c n = {}) \<Longrightarrow> (\<And>x. owns opens frees S (k x) own) \<Longrightarrow> owns opens frees S (go_try (ask W c) k) own"
  unfolding ask_def by (rule owns_try_query)

lemma owns_ds_new_replica: "owns opens_endpoint frees_endpoint {} (ds_new_replica W name sd) (\<lambda>r. {ds_ep r})"
proof -
  have "owns opens_endpoint frees_endpoint {ep} (go_catch (invoke W (Blob NewMemStore)) (\<lambda>r. case r of
       Inl e \<Rightarrow> go_then (shutdown W ep) (go_fail (Wrapf (name @ '': blob store'') e))
     | Inr content \<Rightarrow>
       go_try (author_id W (ds_seed sd)) (\<lambda>author.
       go_try (new_object W (Lib ''docs.NewMemoryStore'' [] [])) (\<lambda>store.
       go_ret \<lparr>ds_name = name, ds_ep = ep, ds_store = store, ds_content = content, ds_author = author\<rparr>))))
     (\<lambda>r. {ds_ep r})" for ep
    unfolding author_id_def
    by (rule owns_catch owns_invoke owns_case_sum owns_try_ask owns_try_object owns_then [OF drops_shutdown] owns_fail owns_ret | simp)+
  then show ?thesis
    unfolding ds_new_replica_def by (rule owns_try [OF owns_wrap [OF owns_bind]])
qed

lemma owns_put_value:
  "owns opens_endpoint frees_endpoint {} clock (\<lambda>_. {}) \<Longrightarrow>
     owns opens_endpoint frees_endpoint {} (put_value W name store content author ns k v clock) (\<lambda>_. {})"
  unfolding put_value_def write_blob_def put_entry_def
  by (rule program_rules | assumption | simp)+

lemma owns_ds_put: "owns opens_endpoint frees_endpoint {} (ds_put W r ns k v ts) (\<lambda>_. {})"
  unfolding ds_put_def by (rule owns_put_value owns_ret | simp)+

lemma owns_ds_put_all: "owns opens_endpoint frees_endpoint {} (ds_put_all W r ns ts kvs) (\<lambda>_. {})"
  by (induction kvs arbitrary: ts) (auto intro!: owns_quiet_try owns_ret owns_ds_put)

declare ds_put_all.simps [simp del]

lemma owns_count_content: "owns opens_endpoint frees_endpoint {} (count_content W r es n) (\<lambda>_. {})"
  by (induction es arbitrary: n) (simp add: owns_ret, simp only: count_content.simps, (rule program_rules | assumption | simp)+)

lemma owns_ds_run: "owns opens_endpoint frees_endpoint {} (ds_run W view results) (\<lambda>_. {})"
proof -
  have say: "owns opens_endpoint frees_endpoint {} (say_entries W view what r) (\<lambda>_. {})" for what r
    unfolding say_entries_def doc_len_def by (rule program_rules | simp)+
  have conv: "owns opens_endpoint frees_endpoint {} (converged W a b) (\<lambda>_. {})" for a b
    unfolding converged_def ds_fingerprint_def by (rule program_rules | simp)+
  have sync: "owns opens_endpoint frees_endpoint {} (sync_once W results r t) (\<lambda>_. {})" for r t
    unfolding sync_once_def by (rule program_rules | simp)+
  have join: "owns opens_endpoint frees_endpoint {} (ds_join W view results a b ns base wire) (\<lambda>_. {})" for a b ns base wire
    unfolding ds_join_def by (rule say conv sync owns_ds_put_all program_rules | simp)+
  have doc: "owns opens_endpoint frees_endpoint {} (print_document W view t r names) (\<lambda>_. {})" for t r names
    unfolding print_document_def doc_entries_def by (rule program_rules | simp)+
  have look: "owns opens_endpoint frees_endpoint {} (ds_inspect W view a b) (\<lambda>_. {})" for a b
    unfolding ds_inspect_def have_content_def say_content_def doc_entries_def doc_len_def Let_def
    by (rule doc owns_count_content program_rules | simp)+
  have upd: "owns opens_endpoint frees_endpoint {} (ds_update W view results a b ns base wire) (\<lambda>_. {})" for a b ns base wire
    unfolding ds_update_def by (rule say conv sync owns_ds_put program_rules | simp)+
  show ?thesis
    unfolding ds_run_def Let_def
    by (simp only: Diff_cancel | rule owns_try [OF owns_ds_new_replica] join look upd owns_ds_put_all program_rules | simp)+
qed

text \<open>The live replicas give their endpoints back where a blob store and a router can be made.\<close>

definition live_starts :: "call world \<Rightarrow> bool" where
  "live_starts W \<longleftrightarrow> routers_start W \<and> (\<forall>h. fails W h (Blob NewMemStore) = None)"

lemma owns_dl_new_replica:
  assumes "live_starts W"
  shows "owns opens_endpoint frees_endpoint {} (dl_new_replica W name sd store lookup) (\<lambda>r. {dl_ep r})"
proof -
  have store: "owns opens_endpoint frees_endpoint S (go_try (invoke W (Blob NewMemStore)) k) own"
    if "\<And>x. owns opens_endpoint frees_endpoint S (k x) own" for S :: "nat set" and k and own :: "dl_replica \<Rightarrow> nat set"
  proof (rule owns_try_safe)
    show "owns opens_endpoint frees_endpoint {} (invoke W (Blob NewMemStore)) (\<lambda>_. {})"
      by (rule owns_invoke) simp
  qed (use assms that in \<open>auto simp: live_starts_def invoke_def\<close>)
  show ?thesis
    using assms unfolding dl_new_replica_def live_starts_def author_id_def dl_seed_def
    by (elim conjE) (rule owns_try [OF owns_bind] store owns_try_object owns_try_ask owns_try_query owns_try_router owns_ret | assumption | simp)+
qed

lemma drops_dl_close: "drops opens_endpoint frees_endpoint {dl_ep r} (dl_close W r)"
  by (auto simp: drops_def dl_close_def dl_close_live_def new_object_def store_namespace_def shutdown_def go_simps split: option.splits)

lemma owns_dl_play: "owns opens_endpoint frees_endpoint {} (dl_play W view fuel ns path a b) (\<lambda>_. {})"
proof -
  have put: "owns opens_endpoint frees_endpoint {} (dl_put W r ns k v) (\<lambda>_. {})" for r k v
    unfolding dl_put_def by (rule owns_quiet_try owns_put_value owns_query owns_ret | simp)+
  have live: "owns opens_endpoint frees_endpoint {} (start_live_sync W r ns boot) (\<lambda>_. {})" for r boot
    unfolding start_live_sync_def store_namespace_def by (rule program_rules | simp)+
  have wait: "owns opens_endpoint frees_endpoint {} (dl_await W view fuel r n) (\<lambda>_. {})" for r n
    unfolding dl_await_def doc_len_def by (rule owns_loop program_rules | simp)+
  show ?thesis
    unfolding dl_play_def ds_fingerprint_def doc_len_def by (rule put live wait program_rules | simp)+
qed

lemma owns_dl_run:
  assumes "live_starts W"
  shows "owns opens_endpoint frees_endpoint {} (dl_run W view fuel) (\<lambda>_. {})"
  unfolding dl_run_def Let_def dl_seed_def
  by (simp only: Diff_cancel | rule owns_try [OF owns_dl_new_replica [OF assms]] owns_defer [OF drops_dl_close] owns_dl_play program_rules | simp)+

text \<open>Elsewhere they do not: a replica whose blob store cannot be made leaves its endpoint bound.\<close>

lemma live_replica_leaks:
  "\<exists>W. endpoints_open (snd (dl_new_replica W name sd store lookup [])) = {0}"
proof
  let ?W = "\<lparr>fails = \<lambda>h c. if c = Blob NewMemStore then Some (Err ''disk'') else None, got_bytes = \<lambda>_ _. [],
    got_text = \<lambda>_ _. [], got_texts = \<lambda>_ _. [], got_nat = \<lambda>_ _. 0, got_flag = \<lambda>_ _. False\<rparr> :: call world"
  show "endpoints_open (snd (dl_new_replica ?W name sd store lookup [])) = {0}"
    by (simp add: dl_new_replica_def bind_loopback_def new_object_def go_simps endpoints_open_def)
qed

section \<open>What an entry names\<close>

text \<open>
  A put on a store, as an event: shortly before it, the very content whose hash and length the
  entry records was written to a blob store, and that write succeeded.
\<close>

definition names_written :: "call world \<Rightarrow> call \<Rightarrow> io_hist \<Rightarrow> bool" where
  "names_written W c h \<longleftrightarrow>
     (\<forall>st ns a k hash len ts. c = Lib ''MemoryStore.Put'' [st] [ns, a, k, hash, len, ts] \<longrightarrow>
        (\<exists>content value clock past. h = clock @ Did (write_blob content value) # past \<and> length clock \<le> 1 \<and>
           hash = got_text W past (write_blob content value) \<and> len = digits_of (length value)))"

fun put_guard :: "call world \<Rightarrow> call event \<Rightarrow> io_hist \<Rightarrow> bool" where
  "put_guard W (Did c) h = names_written W c h"
| "put_guard W (Failed c e) h = names_written W c h"
| "put_guard W ev h = True"

lemma other_call [simp]:
  "f \<noteq> ''MemoryStore.Put'' \<Longrightarrow> names_written W (Lib f xs ss) h" "names_written W (Net n) h"
  "names_written W (Os o') h" "names_written W (Blob b) h" "names_written W (Gossip g) h"
  "names_written W (write_blob content v) h" "names_written W (store_namespace ep ns') h"
  by (simp_all add: names_written_def write_blob_def store_namespace_def)

lemma put_names_written:
  "length clock \<le> 1 \<Longrightarrow> names_written W
     (put_entry st ns a k (got_text W past (write_blob content value)) (length value) ts)
     (clock @ Did (write_blob content value) # past)"
  unfolding names_written_def put_entry_def by auto

lemma keeps_put_value:
  assumes "clock = go_ret t \<or> clock = query W get c" and "\<And>h. names_written W c h"
  shows "keeps (put_guard W) (put_value W name store content author ns k v clock)"
proof (unfold keeps_def, intro allI impI)
  fix h assume h: "always (put_guard W) h"
  let ?w = "write_blob content v"
  let ?put = "\<lambda>ts. put_entry store ns author k (got_text W h ?w) (length v) ts"
  have g: "names_written W (?put ts) (Did ?w # h)" "names_written W (?put ts) (Did c # Did ?w # h)" for ts
    using put_names_written [of "[]" W store ns author k h content v ts]
      put_names_written [of "[Did c]" W store ns author k h content v ts] by simp_all
  show "always (put_guard W) (snd (put_value W name store content author ns k v clock h))"
    using assms(1)
  proof
    assume "clock = go_ret t"
    with h g show ?thesis
      by (auto simp: put_value_def go_simps split: option.split)
  next
    assume "clock = query W get c"
    with h g assms(2) show ?thesis
      by (auto simp: put_value_def go_simps split: option.split)
  qed
qed

lemma keeps_put_now: "keeps (put_guard W) (put_value W name store content author ns k v (go_ret t))"
  by (rule keeps_put_value [where t = t and c = "Net (Accept 0)"]) simp_all

lemma keeps_put_clock:
  "(\<And>h. names_written W c h) \<Longrightarrow> keeps (put_guard W) (put_value W name store content author ns k v (query W get c))"
  by (rule keeps_put_value [where c = c and get = get]) simp_all

lemma keeps_new_object: "(\<And>h. P (Did c) h) \<Longrightarrow> keeps P (new_object W c)"
  unfolding new_object_def by (rule keeps_query)

lemma keeps_ask: "(\<And>h. P (Did c) h) \<Longrightarrow> keeps P (ask W c)"
  unfolding ask_def by (rule keeps_query)

lemma keeps_say_bool: "(\<And>s h. P (Out s) h) \<Longrightarrow> keeps P (say_bool what b)"
  unfolding say_bool_def by (rule keeps_println)

lemmas doc_rules = keeps_new_object keeps_ask keeps_say_bool keeps_println_all keeps_each keeps_rules

lemma keeps_ds_put: "keeps (put_guard W) (ds_put W r ns k v ts)"
  unfolding ds_put_def by (rule keeps_put_now)

lemma keeps_ds_put_all: "keeps (put_guard W) (ds_put_all W r ns ts kvs)"
  by (induction kvs arbitrary: ts) (auto simp: ds_put_all.simps intro!: keeps_try keeps_ret keeps_ds_put)

lemma keeps_count_content: "keeps (put_guard W) (count_content W r es n)"
  by (induction es arbitrary: n) (simp add: keeps_ret, simp only: count_content.simps, (rule doc_rules | assumption | simp)+)

lemma keeps_bind_shutdown: "keeps (put_guard W) (bind_loopback V opts)" "keeps (put_guard W) (shutdown V ep)"
  unfolding bind_loopback_def shutdown_def by (rule keeps_invoke; simp)+

lemma keeps_ds_run: "keeps (put_guard W) (ds_run W view results)"
proof -
  have say: "keeps (put_guard W) (say_entries W view what r)" for what r
    unfolding say_entries_def doc_len_def by (rule doc_rules | simp)+
  have conv: "keeps (put_guard W) (converged W a b)" for a b
    unfolding converged_def ds_fingerprint_def by (rule doc_rules | simp)+
  have sync: "keeps (put_guard W) (sync_once W results r t)" for r t
    unfolding sync_once_def by (rule doc_rules | simp)+
  have join: "keeps (put_guard W) (ds_join W view results a b ns base wire)" for a b ns base wire
    unfolding ds_join_def by (rule say conv sync keeps_ds_put_all doc_rules | simp)+
  have doc: "keeps (put_guard W) (print_document W view t r names)" for t r names
    unfolding print_document_def doc_entries_def by (rule doc_rules | simp)+
  have look: "keeps (put_guard W) (ds_inspect W view a b)" for a b
    unfolding ds_inspect_def have_content_def say_content_def doc_entries_def doc_len_def Let_def
    by (rule doc keeps_count_content doc_rules | simp)+
  have upd: "keeps (put_guard W) (ds_update W view results a b ns base wire)" for a b ns base wire
    unfolding ds_update_def by (rule say conv sync keeps_ds_put doc_rules | simp)+
  have new: "keeps (put_guard W) (ds_new_replica W name sd)" for name sd
    unfolding ds_new_replica_def author_id_def by (rule keeps_bind_shutdown doc_rules | simp)+
  show ?thesis
    unfolding ds_run_def Let_def
    by (rule keeps_bind_shutdown new join look upd keeps_ds_put_all doc_rules | simp)+
qed

lemma keeps_dl_run: "keeps (put_guard W) (dl_run W view fuel)"
proof -
  have put: "keeps (put_guard W) (dl_put W r ns k v)" for r ns k v
    unfolding dl_put_def by (rule keeps_try keeps_put_clock keeps_ret | simp)+
  have live: "keeps (put_guard W) (start_live_sync W r ns boot)" for r ns boot
    unfolding start_live_sync_def by (rule doc_rules | simp)+
  have wait: "keeps (put_guard W) (dl_await W view fuel r n)" for r n
    unfolding dl_await_def doc_len_def ctx_error_def by (rule doc_rules | simp)+
  have play: "keeps (put_guard W) (dl_play W view fuel ns path a b)" for ns path a b
    unfolding dl_play_def ds_fingerprint_def doc_len_def by (rule put live wait doc_rules | simp)+
  have new: "keeps (put_guard W) (dl_new_replica W name sd store lookup)" for name sd store lookup
    unfolding dl_new_replica_def author_id_def dl_seed_def by (rule keeps_bind_shutdown doc_rules | simp)+
  have close: "keeps (put_guard W) (dl_close W r)" for r
    by (auto simp: keeps_def dl_close_def dl_close_live_def new_object_def shutdown_def go_simps split: option.splits)
  show ?thesis
    unfolding dl_run_def dl_seed_def Let_def
    by (rule keeps_bind_shutdown new play close doc_rules | simp)+
qed

text \<open>C27. An entry names content that exists: in both programs, whatever the stores and the peers answer,
  every put of an entry comes directly after a successful write of a blob (only the clock may
  be read between them), and records the hash that write returned and the length of what it
  wrote.\<close>

theorem entries_name_written_content:
  "always (put_guard W) (snd (ds_run W view results [])) \<and> always (put_guard W) (snd (dl_run W view fuel []))"
  by (intro conjI keepsD [OF keeps_ds_run] keepsD [OF keeps_dl_run]) simp_all

section \<open>Who may synchronize\<close>

text \<open>
  \<open>within F m\<close>: whatever \<open>m\<close> leaves open beyond what was open before it is among \<open>F\<close>. Under a
  deferred release of part of \<open>F\<close> only the rest remains.
\<close>

definition within ::
  "('c \<Rightarrow> nat \<Rightarrow> 'k set) \<Rightarrow> ('c \<Rightarrow> 'k set) \<Rightarrow> 'k set \<Rightarrow> ('c hist, 'a) go \<Rightarrow> bool" where
  "within opens frees F m \<longleftrightarrow> (\<forall>h. leaked opens frees (snd (m h)) \<subseteq> leaked opens frees h \<union> F)"

lemma withinD: "within opens frees F m \<Longrightarrow> m h = (r, h') \<Longrightarrow> leaked opens frees h' \<subseteq> leaked opens frees h \<union> F"
  by (metis within_def snd_conv)

lemma within_try:
  assumes m: "within opens frees F m" and k: "\<And>x. within opens frees F (k x)"
  shows "within opens frees F (go_try m k)"
proof (unfold within_def, intro allI)
  fix h
  obtain r h1 where mh: "m h = (r, h1)" by fastforce
  show "leaked opens frees (snd (go_try m k h)) \<subseteq> leaked opens frees h \<union> F"
  proof (cases r)
    case (Inl e)
    with mh withinD [OF m mh] show ?thesis by (simp add: go_try_def)
  next
    case (Inr x)
    have "leaked opens frees (snd (k x h1)) \<subseteq> leaked opens frees h1 \<union> F"
      using k unfolding within_def by blast
    with mh Inr withinD [OF m mh] show ?thesis by (auto simp: go_try_def)
  qed
qed

lemma within_catch:
  assumes m: "within opens frees F m" and k: "\<And>r. within opens frees F (k r)"
  shows "within opens frees F (go_catch m k)"
proof (unfold within_def, intro allI)
  fix h
  obtain r h1 where mh: "m h = (r, h1)" by fastforce
  have "leaked opens frees (snd (k r h1)) \<subseteq> leaked opens frees h1 \<union> F"
    using k unfolding within_def by blast
  with mh withinD [OF m mh] show "leaked opens frees (snd (go_catch m k h)) \<subseteq> leaked opens frees h \<union> F"
    by (auto simp: go_catch_def)
qed

lemma within_then:
  assumes "within opens frees F m" and "within opens frees F k"
  shows "within opens frees F (go_then m k)"
  using assms unfolding within_def go_then_def by blast

lemma within_defer:
  assumes c: "drops opens frees S c" and m: "within opens frees F m"
  shows "within opens frees (F - S) (go_defer c m)"
proof (unfold within_def, intro allI)
  fix h
  obtain r h1 where mh: "m h = (r, h1)" by fastforce
  show "leaked opens frees (snd (go_defer c m h)) \<subseteq> leaked opens frees h \<union> (F - S)"
    using mh drops_snd [OF c, of h1] withinD [OF m mh] by (auto simp: go_defer_def)
qed

lemma within_wrap: "within opens frees F m \<Longrightarrow> within opens frees F (go_wrap p m)"
  by (simp add: within_def go_wrap_def split: prod.splits sum.splits) (metis snd_conv)

lemma within_owns: "owns opens frees {} m (\<lambda>_. {}) \<Longrightarrow> within opens frees F m"
  using owns_leaked unfolding within_def by blast

lemma within_mono: "within opens frees E m \<Longrightarrow> E \<subseteq> F \<Longrightarrow> within opens frees F m"
  unfolding within_def by blast

text \<open>As resources: the replicas whose pointer holds a namespace.\<close>

fun opens_ns :: "call \<Rightarrow> nat \<Rightarrow> nat set" where
  "opens_ns (Lib f [ep] (ns # rest)) n = (if f = ''namespace.Store'' then {ep} else {})"
| "opens_ns c n = {}"

fun frees_ns :: "call \<Rightarrow> nat set" where
  "frees_ns (Lib f [ep] []) = (if f = ''namespace.Store'' then {ep} else {})"
| "frees_ns c = {}"

lemma opens_ns_other [simp]: "f \<noteq> ''namespace.Store'' \<Longrightarrow> opens_ns (Lib f xs ss) n = {}"
  by (cases "(Lib f xs ss, n)" rule: opens_ns.cases) auto

lemma stored_none: "stored_namespace c ep = None \<Longrightarrow> ep \<notin> frees_ns c"
  by (cases c rule: frees_ns.cases) (auto simp: stored_namespace_def split: if_splits)

lemma stored_some: "stored_namespace c ep = Some (Some n) \<Longrightarrow> ep \<in> opens_ns c k \<and> ep \<notin> frees_ns c"
  by (cases c; cases "(c, k)" rule: opens_ns.cases; cases c rule: frees_ns.cases)
    (auto simp: stored_namespace_def split: if_splits list.splits)

text \<open>A store cannot fail, so what is open is what the pointers hold.\<close>

definition stores_succeed :: "call event \<Rightarrow> io_hist \<Rightarrow> bool" where
  "stores_succeed ev h = (case ev of Failed c e \<Rightarrow> (\<forall>ep. stored_namespace c ep = None) | _ \<Rightarrow> True)"

lemma active_open:
  "always stores_succeed h \<Longrightarrow> active_namespace h ep \<noteq> None \<Longrightarrow> ep \<in> leaked opens_ns frees_ns h"
proof (induction h ep rule: active_namespace.induct)
  case (2 c h ep)
  then show ?case
    using stored_none [of c ep] stored_some [of c ep _ "length h"]
    by (cases "stored_namespace c ep") (auto simp: stores_succeed_def)
next
  case (3 c e h ep)
  then show ?case
    using stored_none [of c ep] by (auto simp: stores_succeed_def)
qed (auto simp: stores_succeed_def)

lemma ns_play:
  "within opens_ns frees_ns {dl_ep a, dl_ep b} (dl_play W view fuel ns path a b)"
proof -
  let ?F = "{dl_ep a, dl_ep b}"
  have put: "within opens_ns frees_ns ?F (dl_put W r ns k v)" for r k v
    by (rule within_owns, unfold dl_put_def put_value_def write_blob_def put_entry_def) (rule program_rules | simp)+
  have set_ns: "within opens_ns frees_ns ?F (new_object W (store_namespace (dl_ep r) x))" if "r = a \<or> r = b" for r x
    using that by (cases x) (auto simp: within_def new_object_def query_def store_namespace_def)
  have start: "within opens_ns frees_ns ?F (invoke W (Lib ''docs.StartLiveSync'' xs ss))" for xs ss
    by (rule within_owns) (rule owns_invoke, simp)
  have live: "within opens_ns frees_ns ?F (start_live_sync W r ns boot)" if "r = a \<or> r = b" for r boot
    unfolding start_live_sync_def
    using set_ns [OF that] start
    by (intro within_then within_catch) (auto intro!: within_then within_owns [OF owns_fail] within_owns [OF owns_ret] split: sum.split)
  have wait: "within opens_ns frees_ns ?F (dl_await W view fuel r n)" for r n
    by (rule within_owns, unfold dl_await_def doc_len_def ctx_error_def) (rule owns_loop program_rules | simp)+
  have rest: "within opens_ns frees_ns ?F (m :: unit io)" if "owns opens_ns frees_ns {} m (\<lambda>_. {})" for m
    using that by (rule within_owns)
  have line: "within opens_ns frees_ns ?F (println t)" for t
    by (rule within_owns [OF owns_println])
  have q: "within opens_ns frees_ns ?F (query W get c)" if "\<And>n. opens_ns c n = {}" for get c
    by (rule within_owns [OF owns_query]) (rule that)
  have i: "within opens_ns frees_ns ?F (invoke W c)" if "\<And>n. opens_ns c n = {}" for c
    by (rule within_owns [OF owns_invoke]) (rule that)
  have cond: "within opens_ns frees_ns ?F m \<Longrightarrow> within opens_ns frees_ns ?F n \<Longrightarrow> within opens_ns frees_ns ?F (if c then m else n)" for m n :: "unit io" and c
    by simp
  have bad: "within opens_ns frees_ns ?F (go_fail e)" for e
    by (rule within_owns [OF owns_fail]) simp
  show ?thesis
    unfolding dl_play_def ds_fingerprint_def doc_len_def ask_def
    by (rule put live wait within_try within_then within_wrap line q i cond bad | simp)+
qed

lemma drops_ns_close: "drops opens_ns frees_ns {dl_ep r} (dl_close W r)"
  by (auto simp: drops_def dl_close_def dl_close_live_def new_object_def store_namespace_def shutdown_def go_simps split: option.splits)

lemma ns_new_replica: "within opens_ns frees_ns F (dl_new_replica W name sd store lookup)"
  by (rule within_owns, unfold dl_new_replica_def author_id_def dl_seed_def bind_loopback_def) (rule program_rules | simp)+

lemma ns_run: "within opens_ns frees_ns {} (dl_run W view fuel)"
proof -
  have inner: "within opens_ns frees_ns {dl_ep a} (go_defer (dl_close W b) (dl_play W view fuel ns path a b))" for a b ns path
    by (rule within_mono [OF within_defer [OF drops_ns_close ns_play]]) blast
  have outer: "within opens_ns frees_ns {} (go_defer (dl_close W a) m)" if "within opens_ns frees_ns {dl_ep a} m" for a and m :: "unit io"
    by (rule within_mono [OF within_defer [OF drops_ns_close that]]) simp
  have q: "within opens_ns frees_ns F (query W get c)" if "\<And>n. opens_ns c n = {}" for get c F
    by (rule within_owns [OF owns_query]) (rule that)
  have i: "within opens_ns frees_ns F (invoke W c)" if "\<And>n. opens_ns c n = {}" for c F
    by (rule within_owns [OF owns_invoke]) (rule that)
  have temp: "within opens_ns frees_ns {} (go_defer (invoke W (Os (RemoveTemp d))) m)" if "within opens_ns frees_ns {} m" for d and m :: "unit io"
    by (rule within_mono [OF within_defer [OF drops_owns [OF owns_invoke] that]]) simp_all
  show ?thesis
    unfolding dl_run_def dl_seed_def ask_def new_object_def Let_def
    by (rule temp outer inner ns_new_replica within_try within_wrap q i | simp)+
qed

lemma stores_run: "keeps stores_succeed (dl_run W view fuel)"
proof -
  have ok: "stores_succeed (Did c) h" "stores_succeed (Out t) h" "stores_succeed (ErrOut t) h"
    "stores_succeed (Failed (Net n) e) h" "stores_succeed (Failed (Os o') e) h" "stores_succeed (Failed (Blob b) e) h"
    "f \<noteq> ''namespace.Store'' \<Longrightarrow> stores_succeed (Failed (Lib f xs ss) e) h" for c h t n e o' b f xs ss
    by (simp_all add: stores_succeed_def stored_namespace_def)
  have put: "keeps stores_succeed (dl_put W r ns k v)" for r ns k v
    unfolding dl_put_def put_value_def write_blob_def put_entry_def by (rule doc_rules | simp add: ok)+
  have live: "keeps stores_succeed (start_live_sync W r ns boot)" for r ns boot
    unfolding start_live_sync_def by (rule doc_rules | simp add: ok)+
  have wait: "keeps stores_succeed (dl_await W view fuel r n)" for r n
    unfolding dl_await_def doc_len_def ctx_error_def by (rule doc_rules | simp add: ok)+
  have play: "keeps stores_succeed (dl_play W view fuel ns path a b)" for ns path a b
    unfolding dl_play_def ds_fingerprint_def doc_len_def by (rule put live wait doc_rules | simp add: ok)+
  have new: "keeps stores_succeed (dl_new_replica W name sd store lookup)" for name sd store lookup
    unfolding dl_new_replica_def author_id_def dl_seed_def bind_loopback_def by (rule doc_rules | simp add: ok)+
  have close: "keeps stores_succeed (dl_close W r)" for r
    by (auto simp: keeps_def dl_close_def dl_close_live_def new_object_def shutdown_def go_simps ok split: option.splits)
  show ?thesis
    unfolding dl_run_def dl_seed_def Let_def by (rule new play close doc_rules | simp add: ok)+
qed

text \<open>C28. A replica's store is open to peers only while it is live: however the run ends, in the middle of
  starting or after, when it is over no replica allows any namespace to be synchronized.\<close>

theorem sync_ends_with_the_replica:
  "\<not> allow_sync (snd (dl_run W view fuel [])) r ns"
proof -
  have "leaked opens_ns frees_ns (snd (dl_run W view fuel [])) = {}"
    using ns_run [of W view fuel] unfolding within_def by (metis leaked.simps(1) subset_empty sup_bot.right_neutral)
  moreover have "always stores_succeed (snd (dl_run W view fuel []))"
    by (rule keepsD [OF stores_run]) simp
  ultimately have "active_namespace (snd (dl_run W view fuel [])) (dl_ep r) = None"
    using active_open by fastforce
  then show ?thesis by (simp add: allow_sync_def)
qed

end
