(* ===== verification/BlobsStore.thy ===== *)
theory BlobsStore
  imports PublicEndpoint
begin

text \<open>
  \<^verbatim>\<open>cmd/go-iroh-blobs-store/main.go\<close>: blobs written to a store on disk, read back by a second
  store on the same directory, downloaded from two providers, and collected. The stores are
  the library's; the program's part is the order of tagging and releasing, and the release of
  what it opened.
\<close>

section \<open>Writing and reopening\<close>

definition keep_data :: bytes where
  "keep_data = bytes_of (''tagged blob, outlives the process'' @ [CHR 0x0A])"

definition scratch_data :: bytes where
  "scratch_data = bytes_of (''untagged blob, collected by gc'' @ [CHR 0x0A])"

definition remote_data :: bytes where
  "remote_data = concat (replicate 200 (bytes_of (''remote payload chunk'' @ [CHR 0x0A])))"

definition fs_store :: "string \<Rightarrow> call" where
  "fs_store dir = Lib ''blobs.NewFSStore'' [] [dir]"

definition set_tag :: "nat \<Rightarrow> nat \<Rightarrow> string \<Rightarrow> call" where
  "set_tag store t name = Lib ''FSStore.SetTag'' [store, t] [name]"

definition close_tag :: "nat \<Rightarrow> call" where
  "close_tag t = Lib ''TempTag.Close'' [t] []"

definition short_hash :: "call world \<Rightarrow> nat \<Rightarrow> string io" where
  "short_hash W x = ask W (Lib ''Hash.Short'' [x] [])"

text \<open>A temp tag, made durable under a name and released when the rest of the function is done.\<close>

definition tagged :: "call world \<Rightarrow> nat \<Rightarrow> nat \<Rightarrow> string \<Rightarrow> unit io \<Rightarrow> unit io" where
  "tagged W store t name rest =
     go_defer (invoke W (close_tag t))
       (go_try (go_wrap ''set tag'' (invoke W (set_tag store t name))) (\<lambda>_. rest))"

definition bs_write :: "call world \<Rightarrow> string \<Rightarrow> unit io" where
  "bs_write W dir =
     go_try (go_wrap ''open store'' (invoke W (fs_store dir))) (\<lambda>store.
     go_try (go_wrap ''new blob'' (invoke W (Lib ''FSStore.NewBlob'' [store] []))) (\<lambda>w.
     go_defer (invoke W (Lib ''BlobWriter.Close'' [w] []))
       (go_try (go_wrap ''write blob'' (invoke W (Lib ''BlobWriter.Write'' [w] [text_of keep_data]))) (\<lambda>_.
        go_try (go_wrap ''commit blob'' (invoke W (Lib ''BlobWriter.Commit'' [w] []))) (\<lambda>t.
        tagged W store t ''keep''
          (go_try (go_wrap ''add blob'' (invoke W (Lib ''FSStore.Add'' [store] [text_of scratch_data]))) (\<lambda>_.
           go_try (short_hash W t) (\<lambda>s. println (''stored: '' @ s)))))))))"

definition bs_reopen :: "call world \<Rightarrow> string \<Rightarrow> nat io" where
  "bs_reopen W dir =
     go_try (go_wrap ''reopen store'' (invoke W (fs_store dir))) (\<lambda>store.
     go_try (go_wrap ''read tag'' (invoke_get W (\<lambda>W h c. (got_text W h c, got_flag W h c)) (Lib ''FSStore.Tag'' [store] [''keep'']))) (\<lambda>(hash, ok).
     if \<not> ok then go_fail (Err ''tag keep did not survive the reopen'')
     else
       go_try (ask W (Lib ''Hash.Short'' [] [hash])) (\<lambda>s.
       go_try (go_wrap (''read blob '' @ s) (invoke_get W got_bytes (Lib ''blobs.ReadBlob'' [store] [hash]))) (\<lambda>data.
       if data \<noteq> keep_data then go_fail (Err ''reopened blob does not match what was stored'')
       else go_then (println (''reopened: '' @ s @ '' still tagged keep'')) (go_ret store)))))"

section \<open>Providers and the download\<close>

abbreviation (input) bs_bind where
  "bs_bind \<equiv> bind_loopback"

definition bs_serve :: "call world \<Rightarrow> string \<Rightarrow> bytes \<Rightarrow> (nat \<times> nat) io" where
  "bs_serve W dir data =
     go_try (go_wrap ''open provider store'' (invoke W (fs_store dir))) (\<lambda>store.
     go_try (go_wrap ''add provider blob'' (invoke W (Lib ''FSStore.Add'' [store] [text_of data]))) (\<lambda>_.
     go_try (bs_bind W []) (\<lambda>ep.
     go_catch (invoke W (Net (NewRouter ep [''blobs.ALPN'']))) (\<lambda>r.
     case r of
       Inl e \<Rightarrow> go_then (shutdown W ep) (go_fail e)
     | Inr router \<Rightarrow> go_ret (router, ep)))))"

text \<open>The loop that starts the providers, each released when the function returns.\<close>

fun with_providers :: "call world \<Rightarrow> string \<Rightarrow> nat list \<Rightarrow> endpoint_addr list \<Rightarrow> (endpoint_addr list \<Rightarrow> unit io) \<Rightarrow> unit io" where
  "with_providers W dir [] addrs k = k addrs"
| "with_providers W dir (i # is) addrs k =
     go_try (bs_serve W (path_join [dir, ''provider'' @ digits_of i]) remote_data) (\<lambda>(router, ep).
     go_defer (invoke W (Net (RouterShutdown router ep)))
       (with_providers W dir is (addrs @ [AddrOf ep]) k))"

datatype download_event = TryProvider | DownloadComplete | OtherDownloadEvent

text \<open>\<open>seen h\<close>: the events the downloader has reported by then, which the program counts.\<close>

definition bs_fetch :: "call world \<Rightarrow> (io_hist \<Rightarrow> download_event list) \<Rightarrow> nat \<Rightarrow> endpoint_addr list \<Rightarrow> unit io" where
  "bs_fetch W seen store providers =
     go_try (ask W (Lib ''blobs.NewHash'' [] [text_of remote_data])) (\<lambda>hash.
     go_try (bs_bind W []) (\<lambda>client.
     go_defer (shutdown W client)
       (go_try (new_object W (Lib ''blobs.NewDownloader'' [store, client, length providers] [])) (\<lambda>d.
        go_defer (invoke W (Lib ''Downloader.Close'' [d] []))
          (go_try (ask W (Lib ''Hash.Short'' [] [hash])) (\<lambda>s.
           go_try (go_wrap (''download '' @ s) (invoke W (Lib ''Downloader.Download'' [d] [hash]))) (\<lambda>t.
           tagged W store t ''remote''
             (go_try (query W (\<lambda>_ h _. (length (filter ((=) TryProvider) (seen h)), length (filter ((=) DownloadComplete) (seen h))))
                (Lib ''Downloader.events'' [d] [])) (\<lambda>(tried, completed).
              if tried = 0 \<or> completed = 0 then go_fail (Err ''downloader reported no provider attempt'')
              else
                go_then (println (''providers offered: '' @ digits_of (length providers)))
                (go_try (short_hash W t) (\<lambda>s'. println (''downloaded: '' @ s'))))))))))))"

definition bs_download :: "call world \<Rightarrow> (io_hist \<Rightarrow> download_event list) \<Rightarrow> nat \<Rightarrow> string \<Rightarrow> unit io" where
  "bs_download W seen store dir = with_providers W dir [0, 1] [] (bs_fetch W seen store)"

section \<open>Collection\<close>

text \<open>
  \<open>events h\<close>: what a sweep reports, a hash and whether it was deleted; \<open>tags h\<close>: the names in
  the store with their hashes.
\<close>

definition blob_present :: "call world \<Rightarrow> nat \<Rightarrow> string \<Rightarrow> bool io" where
  "blob_present W store hash = go_wrap ''status'' (invoke_get W got_flag (Lib ''blobs.Status'' [store] [hash]))"

fun print_reclaimed :: "call world \<Rightarrow> string list \<Rightarrow> unit io" where
  "print_reclaimed W [] = go_ret ()"
| "print_reclaimed W (x # xs) =
     go_try (ask W (Lib ''Hash.Short'' [] [x])) (\<lambda>s.
     go_then (println (''gc reclaimed: '' @ s)) (print_reclaimed W xs))"

definition print_tag :: "call world \<Rightarrow> nat \<Rightarrow> string \<times> string \<Rightarrow> unit io" where
  "print_tag W store = (\<lambda>(name, hash).
     go_try (blob_present W store hash) (\<lambda>present.
     go_try (ask W (Lib ''Hash.Short'' [] [hash])) (\<lambda>s.
     println (''tag '' @ name @ '': '' @ s @ '' present='' @ bool_text present))))"

definition bs_collect ::
  "call world \<Rightarrow> (io_hist \<Rightarrow> (string \<times> bool) list) \<Rightarrow> (io_hist \<Rightarrow> (string \<times> string) list) \<Rightarrow> nat \<Rightarrow> unit io" where
  "bs_collect W events tags store =
     go_try (ask W (Lib ''blobs.NewHash'' [] [text_of scratch_data])) (\<lambda>scratch.
     go_try (go_wrap ''gc'' (invoke_get W (\<lambda>W h c. (got_nat W h c, map fst (filter snd (events h)))) (Lib ''FSStore.GCWithEvents'' [store] [])))
       (\<lambda>(deleted, hashes).
     go_then (println (''gc deleted: '' @ digits_of deleted))
     (go_try (print_reclaimed W hashes) (\<lambda>_.
      go_try (blob_present W store scratch) (\<lambda>present.
      go_then (say_bool ''untagged blob present:'' present)
      (go_try (go_wrap ''tags'' (invoke_get W (\<lambda>_ h _. tags h) (Lib ''FSStore.Tags'' [store] []))) (\<lambda>ts.
       go_each (print_tag W store) ts)))))))"

section \<open>The program\<close>

record bs_view =
  bs_seen :: "io_hist \<Rightarrow> download_event list"
  bs_events :: "io_hist \<Rightarrow> (string \<times> bool) list"
  bs_tags :: "io_hist \<Rightarrow> (string \<times> string) list"

definition bs_steps :: "call world \<Rightarrow> bs_view \<Rightarrow> string \<Rightarrow> unit io" where
  "bs_steps W V dir =
     go_try (bs_write W dir) (\<lambda>_.
     go_try (bs_reopen W dir) (\<lambda>store.
     go_try (bs_download W (bs_seen V) store dir) (\<lambda>_.
     bs_collect W (bs_events V) (bs_tags V) store)))"

abbreviation (input) bs_env where
  "bs_env \<equiv> pe_env"

definition bs_run :: "call world \<Rightarrow> bs_view \<Rightarrow> string list \<Rightarrow> unit io" where
  "bs_run W V args =
     go_try (bs_env W ''IROH_EXAMPLE_DIR'' []) (\<lambda>dflt.
     go_try (go_lift (parse_flags [(''dir'', FString)] [] args)) (\<lambda>(vals, _).
     let dir = flag_value vals ''dir'' dflt in
     if dir \<noteq> [] then bs_steps W V dir
     else
       go_try (invoke W (Os (MkdirTemp ''go-iroh-blobs-store''))) (\<lambda>tmp.
       go_defer (invoke W (Os (RemoveTemp tmp)))
         (go_try (ask W (Os (TempPath tmp))) (\<lambda>d. bs_steps W V d)))))"

definition bs_main :: "call world \<Rightarrow> bs_view \<Rightarrow> string list \<Rightarrow> io_hist \<Rightarrow> nat \<times> io_hist" where
  "bs_main W V args h =
     (case bs_run W V args h of
        (Inr _, h') \<Rightarrow> (0, h')
      | (Inl e, h') \<Rightarrow> if err_is ErrHelp e then (0, h') else (1, ErrOut (err_text e) # h'))"

section \<open>What is given back\<close>

lemmas bs_defs = tagged_def set_tag_def close_tag_def fs_store_def short_hash_def blob_present_def print_tag_def

lemma owns_bs_serve: "owns opens_endpoint frees_endpoint {} (bs_serve W dir data) (\<lambda>(r, ep). {ep})"
  unfolding bs_serve_def fs_store_def
  by (rule owns_try [OF owns_wrap [OF owns_invoke]] owns_try [OF owns_bind] owns_catch owns_invoke owns_case_sum owns_then [OF drops_shutdown] owns_fail owns_ret | simp)+

lemma owns_with_providers:
  assumes "\<And>addrs. owns opens_endpoint frees_endpoint {} (k addrs) (\<lambda>_. {})"
  shows "owns opens_endpoint frees_endpoint {} (with_providers W dir is addrs k) (\<lambda>_. {})"
proof (induction "is" arbitrary: addrs)
  case (Cons i "is")
  have "owns opens_endpoint frees_endpoint (case r of (router, ep) \<Rightarrow> {ep}) (case r of (router, ep) \<Rightarrow>
     go_defer (invoke W (Net (RouterShutdown router ep))) (with_providers W dir is (addrs @ [AddrOf ep]) k)) (\<lambda>_. {})" for r
    using Cons by (cases r) (auto intro!: owns_defer [OF drops_router])
  then show ?case
    by (auto intro: owns_try [OF owns_bs_serve])
qed (simp add: assms)

lemma owns_print_reclaimed:
  "(\<And>f xs ss n. opens (Lib f xs ss) n = {}) \<Longrightarrow> owns opens frees {} (print_reclaimed W xs) (\<lambda>_. {})"
  by (induction xs) (simp add: owns_ret, simp only: print_reclaimed.simps, (rule program_rules | assumption | simp)+)

lemma owns_bs_collect: "owns opens_endpoint frees_endpoint {} (bs_collect W ev tg st) (\<lambda>_. {})"
  unfolding bs_collect_def bs_defs
  by (rule owns_each owns_print_reclaimed program_rules | simp)+

lemma owns_bs_steps: "owns opens_endpoint frees_endpoint {} (bs_steps W V dir) (\<lambda>_. {})"
proof -
  have fetch: "owns opens_endpoint frees_endpoint {} (bs_fetch W seen st addrs) (\<lambda>_. {})" for seen st addrs
    unfolding bs_fetch_def bs_defs
    by (simp only: Diff_cancel | rule owns_quiet_try [OF owns_ask] owns_try [OF owns_bind] program_rules | simp)+
  show ?thesis
    unfolding bs_steps_def bs_write_def bs_reopen_def bs_download_def bs_defs
    by (rule owns_with_providers fetch owns_bs_collect program_rules | simp)+
qed

lemma owns_bs_run: "owns opens_endpoint frees_endpoint {} (bs_run W V args) (\<lambda>_. {})"
  unfolding bs_run_def pe_env_def Let_def
  by (rule owns_bs_steps program_rules | simp)+

section \<open>Properties\<close>

text \<open>
  Where a temp tag is released: its blob has a durable name, or giving it one has failed.
\<close>

definition named_or_failed :: "call \<Rightarrow> io_hist \<Rightarrow> bool" where
  "named_or_failed c h \<longleftrightarrow>
     (\<forall>t. c = close_tag t \<longrightarrow>
        (\<exists>store name. Did (set_tag store t name) \<in> set h \<or> (\<exists>e. Failed (set_tag store t name) e \<in> set h)))"

fun tag_guard :: "call event \<Rightarrow> io_hist \<Rightarrow> bool" where
  "tag_guard (Did c) h = named_or_failed c h"
| "tag_guard (Failed c e) h = named_or_failed c h"
| "tag_guard ev h = True"

lemma no_tag [simp]:
  "f \<noteq> ''TempTag.Close'' \<Longrightarrow> named_or_failed (Lib f xs ss) h" "named_or_failed (Net n) h" "named_or_failed (Os o') h"
  "named_or_failed (fs_store d) h" "named_or_failed (set_tag st t name) h"
  by (simp_all add: named_or_failed_def close_tag_def fs_store_def set_tag_def)

lemma close_named:
  "Did (set_tag store t name) \<in> set h \<Longrightarrow> named_or_failed (close_tag t) h"
  "Failed (set_tag store t name) e \<in> set h \<Longrightarrow> named_or_failed (close_tag t) h"
  unfolding named_or_failed_def close_tag_def by auto

lemma keeps_tagged:
  assumes keep: "keeps tag_guard rest" and grow: "grows rest"
  shows "keeps tag_guard (tagged W store t name rest)"
proof (unfold keeps_def, intro allI impI)
  fix h assume h: "always tag_guard h"
  show "always tag_guard (snd (tagged W store t name rest h))"
  proof (cases "fails W h (set_tag store t name)")
    case (Some e)
    with h show ?thesis
      by (auto simp: tagged_def go_simps close_named(2) [of store t name e] split: option.split)
  next
    case None
    let ?h = "Did (set_tag store t name) # h"
    obtain r h1 where r: "rest ?h = (r, h1)" by fastforce
    obtain new where "h1 = new @ ?h" using growsD [OF grow r] by blast
    moreover have "always tag_guard h1"
      using keepsD' [OF keep r] h by simp
    ultimately show ?thesis
      using None r by (auto simp: tagged_def go_simps close_named(1) [of store t name] split: option.split sum.split)
  qed
qed

lemma keeps_pure:
  "(\<And>h. P (Did c) h) \<Longrightarrow> keeps P (new_object W c)" "(\<And>h. P (Did c) h) \<Longrightarrow> keeps P (ask W c)"
  unfolding new_object_def ask_def by (rule keeps_query; simp)+

lemma grows_pure: "grows (ask W c)" "grows (short_hash W x)" "grows (println_all ls)" "grows (say_bool what b)"
proof -
  show "grows (println_all ls)"
    by (induction ls) (auto intro: grows_rules)
qed (auto simp: ask_def short_hash_def say_bool_def intro: grows_rules)

lemma keeps_bs_write: "keeps tag_guard (bs_write W dir)"
  unfolding bs_write_def short_hash_def
  by (rule keeps_tagged keeps_pure keeps_rules grows_pure grows_rules | simp)+

lemma keeps_bs_fetch: "keeps tag_guard (bs_fetch W seen store addrs)"
  unfolding bs_fetch_def short_hash_def bind_loopback_def shutdown_def
  by (rule keeps_tagged keeps_pure keeps_rules grows_pure grows_rules | simp)+

lemma keeps_bs_serve: "keeps tag_guard (bs_serve W dir data)"
  unfolding bs_serve_def bind_loopback_def shutdown_def by (rule keeps_rules | simp)+

lemma keeps_with_providers:
  assumes "\<And>addrs. keeps tag_guard (k addrs)"
  shows "keeps tag_guard (with_providers W dir is addrs k)"
  by (induction "is" arbitrary: addrs)
    (simp add: assms, simp only: with_providers.simps, (rule keeps_bs_serve keeps_rules | assumption | simp)+)

lemma keeps_print_reclaimed: "keeps tag_guard (print_reclaimed W xs)"
  by (induction xs) (simp add: keeps_ret, simp only: print_reclaimed.simps, (rule keeps_pure keeps_rules | assumption | simp)+)

lemma keeps_bs_run: "keeps tag_guard (bs_run W V args)"
proof -
  have collect: "keeps tag_guard (bs_collect W ev tg st)" for ev tg st
    unfolding bs_collect_def print_tag_def blob_present_def say_bool_def
    by (rule keeps_print_reclaimed keeps_pure keeps_rules | simp)+
  have steps: "keeps tag_guard (bs_steps W V dir)" for dir
    unfolding bs_steps_def bs_reopen_def bs_download_def
    by (rule keeps_bs_write keeps_with_providers keeps_bs_fetch collect keeps_pure keeps_rules | simp)+
  show ?thesis
    unfolding bs_run_def pe_env_def Let_def
    by (rule steps keeps_pure keeps_rules | simp)+
qed

text \<open>C29. A blob is never left to the collector between its arrival and its name: in every run, on every
  path, a temp tag is released only after its blob was given a durable name, or after the
  attempt to do so failed; and a run without \<^verbatim>\<open>-dir\<close> leaves no temporary directory behind.\<close>

theorem tags_outlive_naming:
  "always tag_guard (snd (bs_run W V args [])) \<and> dirs_left (snd (bs_run W V args [])) = {}"
proof
  show "always tag_guard (snd (bs_run W V args []))"
    by (rule keepsD [OF keeps_bs_run]) simp
  have collect: "owns opens_dir frees_dir {} (bs_collect W ev tg st) (\<lambda>_. {})" for ev tg st
    unfolding bs_collect_def bs_defs say_bool_def by (rule owns_each owns_print_reclaimed program_rules | simp)+
  have serve: "owns opens_dir frees_dir {} (bs_serve W d data) (\<lambda>_. {})" for d data
    unfolding bs_serve_def fs_store_def bind_loopback_def shutdown_def by (rule program_rules | simp)+
  have fetch: "owns opens_dir frees_dir {} (bs_fetch W seen st addrs) (\<lambda>_. {})" for seen st addrs
    unfolding bs_fetch_def bs_defs bind_loopback_def shutdown_def by (rule program_rules | simp)+
  have prov: "owns opens_dir frees_dir {} (with_providers W d is addrs (bs_fetch W seen st)) (\<lambda>_. {})" for d "is" addrs seen st
    by (induction "is" arbitrary: addrs) (simp add: fetch, simp only: with_providers.simps, (rule serve program_rules | assumption | simp)+)
  have steps: "owns opens_dir frees_dir {} (bs_steps W V d) (\<lambda>_. {})" for d
    unfolding bs_steps_def bs_write_def bs_reopen_def bs_download_def bs_defs
    by (rule prov collect program_rules | simp)+
  have temp: "owns opens_dir frees_dir {} (go_try (invoke W (Os (MkdirTemp p))) (\<lambda>tmp.
       go_defer (invoke W (Os (RemoveTemp tmp))) (go_try (ask W (Os (TempPath tmp))) (\<lambda>d. bs_steps W V d)))) (\<lambda>_. {})" for p
    by (rule temp_dir.owns_bracket) (rule steps program_rules | simp)+
  have "owns opens_dir frees_dir {} (bs_run W V args) (\<lambda>_. {})"
    unfolding bs_run_def pe_env_def Let_def by (rule temp steps program_rules | simp)+
  from owns_leaked [OF this, of "[]"] show "dirs_left (snd (bs_run W V args [])) = {}"
    by (simp add: dirs_left_def)
qed

end
