(* ===== verification/EchoPrograms.thy ===== *)
theory EchoPrograms
  imports PublicEndpoint
begin

text \<open>
  The examples in which one client asks one server: \<^verbatim>\<open>direct-echo\<close>, \<^verbatim>\<open>router-echo\<close>, \<^verbatim>\<open>ping\<close>,
  \<^verbatim>\<open>multi-alpn\<close>, \<^verbatim>\<open>memory-discovery\<close>, \<^verbatim>\<open>metrics\<close>, \<^verbatim>\<open>hooks\<close>, \<^verbatim>\<open>manual-incoming\<close>,
  \<^verbatim>\<open>source-validation\<close> and \<^verbatim>\<open>incoming-filter\<close>, each \<^verbatim>\<open>cmd/go-iroh-<name>/main.go\<close>. They differ in
  how the server comes by its connection; what is said and answered is shared. Over a network
  that carries what is written, each prints the answer.
\<close>

section \<open>An exchange and its other side\<close>

text \<open>
  \<^verbatim>\<open>exchange\<close> with the server's goroutine in its place: it runs while the client waits for the
  reply. Its own result is kept, for the channel the program receives it from.
\<close>

definition exchange_during :: "call world \<Rightarrow> nat \<Rightarrow> string \<Rightarrow> 'b io \<Rightarrow> (string \<times> (gerr + 'b)) io" where
  "exchange_during W conn msg server =
     go_try (invoke W (Net (OpenStream conn))) (\<lambda>s.
     go_try (invoke W (Net (Write s (bytes_of msg)))) (\<lambda>_.
     go_try (invoke W (Net (CloseWrite s))) (\<lambda>_.
     go_catch server (\<lambda>r.
     go_try (read_all W s) (\<lambda>b.
     go_ret (text_of b, r))))))"

lemma exchange_during_idle:
  "exchange W conn msg = go_try (exchange_during W conn msg (go_ret ())) (\<lambda>(reply, _). go_ret reply)"
  by (auto simp: fun_eq_iff exchange_def exchange_during_def go_simps split: prod.splits sum.splits)

abbreviation (input) direct_echo where
  "direct_echo \<equiv> echo"

text \<open>\<^verbatim>\<open>accept\<close> and \<^verbatim>\<open>echo\<close> in a goroutine, as \<^verbatim>\<open>direct-echo\<close>, \<^verbatim>\<open>metrics\<close> and \<^verbatim>\<open>hooks\<close> have them.\<close>

definition accept_echo :: "call world \<Rightarrow> nat \<Rightarrow> unit io" where
  "accept_echo W server =
     go_try (go_wrap ''accept'' (invoke W (Net (Accept server)))) (\<lambda>conn. direct_echo W conn)"

text \<open>A router that accepts a connection of its own and hands it to the handler; the result is dropped.\<close>

definition routed :: "call world \<Rightarrow> nat \<Rightarrow> (nat \<Rightarrow> unit io) \<Rightarrow> unit io" where
  "routed W router handle =
     go_then (go_try (invoke W (Lib ''Router.accept'' [router] [])) handle) (go_ret ())"

text \<open>\<^verbatim>\<open>connect to <id>\<close>: the dial the programs share, with the connection closed at the end.\<close>

definition dial_server :: "call world \<Rightarrow> nat \<Rightarrow> nat \<Rightarrow> endpoint_addr \<Rightarrow> string \<Rightarrow> (nat \<Rightarrow> unit io) \<Rightarrow> unit io" where
  "dial_server W server client addr alpn body =
     go_try (query W got_text (Net (ShortID (AddrOf server)))) (\<lambda>i.
     go_try (go_wrap (''connect to '' @ i) (invoke W (Net (Connect client addr alpn)))) (\<lambda>conn.
     go_defer (invoke W (Net (CloseConn conn 0 []))) (body conn)))"

abbreviation (input) direct_bind where
  "direct_bind \<equiv> bind_loopback"

text \<open>Two endpoints, each shut down at the end.\<close>

definition with_endpoints :: "call world \<Rightarrow> bind_opt list \<Rightarrow> bind_opt list \<Rightarrow> (nat \<Rightarrow> nat \<Rightarrow> unit io) \<Rightarrow> unit io" where
  "with_endpoints W server_opts client_opts body =
     go_try (direct_bind W server_opts) (\<lambda>server.
     go_defer (shutdown W server)
       (go_try (direct_bind W client_opts) (\<lambda>client.
        go_defer (shutdown W client) (body server client))))"

abbreviation (input) router_echo_bind where
  "router_echo_bind \<equiv> bind_loopback"

text \<open>A server behind a router, which shuts it down, and a client.\<close>

definition with_router :: "call world \<Rightarrow> bind_opt list \<Rightarrow> string list \<Rightarrow> bind_opt list \<Rightarrow> (nat \<Rightarrow> nat \<Rightarrow> nat \<Rightarrow> unit io) \<Rightarrow> unit io" where
  "with_router W server_opts alpns client_opts body =
     go_try (router_echo_bind W server_opts) (\<lambda>server.
     go_try (invoke W (Net (NewRouter server alpns))) (\<lambda>router.
     go_defer (invoke W (Net (RouterShutdown router server)))
       (go_try (router_echo_bind W client_opts) (\<lambda>client.
        go_defer (shutdown W client) (body server router client)))))"

section \<open>direct-echo, metrics and hooks\<close>

definition direct_alpn :: string where
  "direct_alpn = ''go-iroh-examples/direct-echo/1''"

definition direct_run :: "call world \<Rightarrow> unit io" where
  "direct_run W =
     with_endpoints W [WithALPNs [direct_alpn]] [] (\<lambda>server client.
     dial_server W server client (AddrOf server) direct_alpn (\<lambda>conn.
     go_try (exchange_during W conn ''direct hello'' (accept_echo W server)) (\<lambda>(reply, served).
     go_try (go_wrap ''server'' (go_lift served)) (\<lambda>_.
     println reply))))"

definition metrics_alpn :: string where
  "metrics_alpn = ''go-iroh-examples/metrics/1''"

definition counter :: "call world \<Rightarrow> nat \<Rightarrow> string \<Rightarrow> nat io" where
  "counter W ep field = query W got_nat (Lib ''Endpoint.Metrics'' [ep] [field])"

abbreviation (input) metrics_exchange where
  "metrics_exchange \<equiv> exchange_during"

definition metrics_run :: "call world \<Rightarrow> unit io" where
  "metrics_run W =
     with_endpoints W [WithALPNs [metrics_alpn]] [] (\<lambda>server client.
     dial_server W server client (AddrOf server) metrics_alpn (\<lambda>conn.
     go_try (metrics_exchange W conn ''metrics hello'' (accept_echo W server)) (\<lambda>(reply, served).
     go_try (go_wrap ''server'' (go_lift served)) (\<lambda>_.
     go_try (counter W client ''ConnectsStarted'') (\<lambda>cs.
     go_try (counter W client ''ConnectsAccepted'') (\<lambda>ca.
     go_try (counter W client ''ConnectsFailed'') (\<lambda>cf.
     go_try (counter W server ''AcceptsStarted'') (\<lambda>ss.
     go_try (counter W server ''AcceptsAccepted'') (\<lambda>sa.
     go_try (counter W server ''AcceptsFailed'') (\<lambda>sf.
     println_all
       [reply,
        ''client connects: started='' @ digits_of cs @ '' accepted='' @ digits_of ca @ '' failed='' @ digits_of cf,
        ''server accepts: started='' @ digits_of ss @ '' accepted='' @ digits_of sa @ '' failed='' @ digits_of sf]))))))))))"

text \<open>
  \<^verbatim>\<open>hookLog\<close>: each hook writes its own field. \<open>hooked h\<close> is the list of the calls the endpoint
  has made to the hooks by then, with the short id and the protocol they were given.
\<close>

record hook_log =
  hook_before :: string
  hook_after :: string

datatype hook_call = BeforeConnect string string | AfterHandshake string string

definition before_connect :: "string \<Rightarrow> string \<Rightarrow> hook_log \<Rightarrow> hook_log" where
  "before_connect i alpn l = l\<lparr>hook_before := i @ '' '' @ alpn\<rparr>"

definition after_handshake :: "string \<Rightarrow> string \<Rightarrow> hook_log \<Rightarrow> hook_log" where
  "after_handshake i alpn l = l\<lparr>hook_after := i @ '' '' @ alpn\<rparr>"

fun hook_step :: "hook_call \<Rightarrow> hook_log \<Rightarrow> hook_log" where
  "hook_step (BeforeConnect i alpn) l = before_connect i alpn l"
| "hook_step (AfterHandshake i alpn) l = after_handshake i alpn l"

definition hooks_alpn :: string where
  "hooks_alpn = ''go-iroh-examples/hooks/1''"

abbreviation (input) hooks_exchange where
  "hooks_exchange \<equiv> exchange_during"

definition hooks_run :: "call world \<Rightarrow> (io_hist \<Rightarrow> hook_call list) \<Rightarrow> unit io" where
  "hooks_run W hooked =
     with_endpoints W [WithALPNs [hooks_alpn]] [WithOption ''WithHooks''] (\<lambda>server client.
     dial_server W server client (AddrOf server) hooks_alpn (\<lambda>conn.
     go_try (hooks_exchange W conn ''hooked hello'' (accept_echo W server)) (\<lambda>(reply, served).
     go_try (go_wrap ''server'' (go_lift served)) (\<lambda>_.
     go_try (query W (\<lambda>_ h _. fold hook_step (hooked h) \<lparr>hook_before = [], hook_after = []\<rparr>) (Lib ''hooks'' [client] [])) (\<lambda>l.
     println_all [reply, ''before: '' @ hook_before l, ''after: '' @ hook_after l])))))"

section \<open>router-echo, memory-discovery and multi-alpn\<close>

definition router_echo_alpn :: string where
  "router_echo_alpn = ''go-iroh-examples/router-echo/1''"

abbreviation (input) router_echo_exchange where
  "router_echo_exchange \<equiv> exchange_during"

abbreviation (input) router_echo_echo where
  "router_echo_echo \<equiv> echo"

definition router_echo_run :: "call world \<Rightarrow> unit io" where
  "router_echo_run W =
     with_router W [] [router_echo_alpn] [] (\<lambda>server router client.
     dial_server W server client (AddrOf server) router_echo_alpn (\<lambda>conn.
     go_try (router_echo_exchange W conn ''router hello'' (routed W router (router_echo_echo W))) (\<lambda>(reply, _).
     println reply)))"

definition memory_alpn :: string where
  "memory_alpn = ''go-iroh-examples/memory-discovery/1''"

definition add_addr :: "call world \<Rightarrow> nat \<Rightarrow> nat \<Rightarrow> nat io" where
  "add_addr W lookup ep = new_object W (Lib ''MemoryLookup.AddEndpointAddr'' [lookup, ep] [])"

abbreviation (input) memory_bind where
  "memory_bind \<equiv> bind_loopback"

abbreviation (input) memory_exchange where
  "memory_exchange \<equiv> exchange_during"

abbreviation (input) memory_accept where
  "memory_accept \<equiv> echo"

definition memory_run :: "call world \<Rightarrow> unit io" where
  "memory_run W =
     go_try (new_object W (Lib ''iroh.NewMemoryLookup'' [] [])) (\<lambda>lookup.
     go_try (memory_bind W [WithAddressLookup ''lookups'']) (\<lambda>server.
     go_then (add_addr W lookup server)
     (go_try (invoke W (Net (NewRouter server [memory_alpn]))) (\<lambda>router.
      go_defer (invoke W (Net (RouterShutdown router server)))
        (go_try (memory_bind W [WithAddressLookup ''lookups'']) (\<lambda>client.
         go_defer (shutdown W client)
           (go_then (add_addr W lookup client)
            (go_try (query W got_text (Net (EndpointID server))) (\<lambda>i.
             go_try (query W got_texts (Lib ''EndpointAddr.Addrs'' [] [i])) (\<lambda>addrs.
             go_then (println (''addresses given to Connect: '' @ digits_of (length addrs)))
             (dial_server W server client (NewAddr i) memory_alpn (\<lambda>conn.
              go_try (memory_exchange W conn ''discovered hello'' (routed W router (memory_accept W))) (\<lambda>(reply, _).
              println reply)))))))))))))"

definition echo_alpn :: string where
  "echo_alpn = ''go-iroh-examples/multi-alpn/echo/1''"

definition upper_alpn :: string where
  "upper_alpn = ''go-iroh-examples/multi-alpn/upper/1''"

abbreviation (input) multi_transform where
  "multi_transform \<equiv> transform"

text \<open>\<^verbatim>\<open>handler\<close>: its \<^verbatim>\<open>transform\<close> field may be nil.\<close>

definition multi_accept :: "call world \<Rightarrow> (string \<Rightarrow> string) option \<Rightarrow> nat \<Rightarrow> unit io" where
  "multi_accept W f conn = multi_transform W conn (case f of None \<Rightarrow> (\<lambda>s. s) | Some g \<Rightarrow> g)"

definition multi_handlers :: "(string \<times> (string \<Rightarrow> string) option) list" where
  "multi_handlers = [(echo_alpn, None), (upper_alpn, Some to_upper)]"

abbreviation (input) multi_own_exchange where
  "multi_own_exchange \<equiv> exchange_during"

text \<open>The router hands a connection to the handler of the protocol it was dialed for.\<close>

definition multi_exchange :: "call world \<Rightarrow> nat \<Rightarrow> nat \<Rightarrow> string \<Rightarrow> string io" where
  "multi_exchange W router conn alpn =
     go_try (multi_own_exchange W conn ''multi hello''
       (case map_of multi_handlers alpn of
          None \<Rightarrow> go_ret ()
        | Some f \<Rightarrow> routed W router (multi_accept W f))) (\<lambda>(reply, _). go_ret reply)"

definition multi_run :: "call world \<Rightarrow> unit io" where
  "multi_run W =
     with_router W [] (map fst multi_handlers) [] (\<lambda>server router client.
     go_try (go_wrap (''connect for '' @ echo_alpn) (invoke W (Net (Connect client (AddrOf server) echo_alpn)))) (\<lambda>echo_conn.
     go_defer (invoke W (Net (CloseConn echo_conn 0 [])))
       (go_try (go_wrap (''connect for '' @ upper_alpn) (invoke W (Net (Connect client (AddrOf server) upper_alpn)))) (\<lambda>upper_conn.
        go_defer (invoke W (Net (CloseConn upper_conn 0 [])))
          (go_try (multi_exchange W router echo_conn echo_alpn) (\<lambda>echo_reply.
           go_try (multi_exchange W router upper_conn upper_alpn) (\<lambda>upper_reply.
           println_all [''echo: '' @ echo_reply, ''upper: '' @ upper_reply])))))))"

section \<open>ping\<close>

definition ping_alpn :: string where "ping_alpn = ''iroh/ping/0''"
definition ping_request :: string where "ping_request = ''PING''"
definition ping_response :: string where "ping_response = ''PONG''"

definition ping_accept :: "call world \<Rightarrow> nat \<Rightarrow> unit io" where
  "ping_accept W conn =
     go_try (invoke W (Net (AcceptStream conn))) (\<lambda>s.
     go_try (read_all W s) (\<lambda>msg.
     if text_of msg \<noteq> ping_request then go_fail (Err (''unexpected ping payload '' @ quote (text_of msg)))
     else
       go_try (invoke W (Net (Write s (bytes_of ping_response)))) (\<lambda>_.
       go_try (invoke W (Net (CloseStream s))) (\<lambda>_.
       go_ret ()))))"

text \<open>\<^verbatim>\<open>ping\<close> on the client, while the router's handler runs.\<close>

abbreviation (input) ping_ping where
  "ping_ping W conn \<equiv> exchange_during W conn ping_request"

definition ping_run :: "call world \<Rightarrow> unit io" where
  "ping_run W =
     with_router W [] [ping_alpn] [] (\<lambda>server router client.
     dial_server W server client (AddrOf server) ping_alpn (\<lambda>conn.
     go_try (ping_ping W conn (routed W router (ping_accept W))) (\<lambda>(reply, _).
     println reply)))"

section \<open>Incoming connections by hand\<close>

definition manual_alpn :: string where
  "manual_alpn = ''go-iroh-examples/manual-incoming/1''"

text \<open>
  The steps between an incoming packet and a connection. \<open>accept_incoming\<close> has the first two;
  what an example does between them is its argument.
\<close>

definition accept_incoming :: "call world \<Rightarrow> nat \<Rightarrow> (nat \<Rightarrow> 'b io) \<Rightarrow> (nat \<times> 'b) io" where
  "accept_incoming W server look =
     go_try (go_wrap ''accept incoming'' (invoke W (Lib ''Endpoint.AcceptIncoming'' [server] []))) (\<lambda>inc.
     go_try (look inc) (\<lambda>x.
     go_try (ask W (Lib ''Incoming.RemoteAddr'' [inc] [])) (\<lambda>addr.
     go_try (go_wrap (''accept from '' @ addr) (invoke W (Lib ''Incoming.Accept'' [inc] []))) (\<lambda>accepting.
     go_ret (accepting, x)))))"

definition await_connection :: "call world \<Rightarrow> nat \<Rightarrow> nat io" where
  "await_connection W accepting =
     go_wrap ''await verified connection'' (invoke W (Lib ''Accepting.Connection'' [accepting] []))"

abbreviation (input) manual_echo where
  "manual_echo \<equiv> echo"

definition manual_accept :: "call world \<Rightarrow> nat \<Rightarrow> (string \<times> string) io" where
  "manual_accept W server =
     go_try (accept_incoming W server (\<lambda>_. go_ret ())) (\<lambda>(accepting, _).
     go_try (go_wrap ''negotiate alpn'' (invoke_get W got_text (Lib ''Accepting.ALPN'' [accepting] []))) (\<lambda>alpn.
     go_try (await_connection W accepting) (\<lambda>conn.
     go_try (query W got_text (Net (RemoteID conn))) (\<lambda>remote.
     go_try (manual_echo W conn) (\<lambda>_.
     go_ret (alpn, remote))))))"

abbreviation (input) manual_exchange where
  "manual_exchange \<equiv> exchange_during"

definition manual_run :: "call world \<Rightarrow> unit io" where
  "manual_run W =
     with_endpoints W [WithALPNs [manual_alpn]] [] (\<lambda>server client.
     dial_server W server client (AddrOf server) manual_alpn (\<lambda>conn.
     go_try (manual_exchange W conn ''manual hello'' (manual_accept W server)) (\<lambda>(reply, served).
     go_try (go_wrap ''server'' (go_lift served)) (\<lambda>(alpn, remote).
     println_all [reply, alpn @ '' from '' @ remote]))))"

definition validation_alpn :: string where
  "validation_alpn = ''go-iroh-examples/source-validation/1''"

abbreviation (input) validation_echo where
  "validation_echo \<equiv> echo"

definition validation_accept :: "call world \<Rightarrow> nat \<Rightarrow> bool io" where
  "validation_accept W server =
     go_try (accept_incoming W server (\<lambda>inc. query W got_flag (Lib ''Incoming.RemoteAddrValidated'' [inc] []))) (\<lambda>(accepting, validated).
     go_try (await_connection W accepting) (\<lambda>conn.
     go_try (validation_echo W conn) (\<lambda>_.
     go_ret validated)))"

abbreviation (input) validation_exchange where
  "validation_exchange \<equiv> exchange_during"

text \<open>\<open>retry_checks\<close> counts the library's calls of the validation function; it is what the world says.\<close>

definition validation_run :: "call world \<Rightarrow> unit io" where
  "validation_run W =
     with_endpoints W [WithALPNs [validation_alpn], WithOption ''WithSourceAddressValidation''] [] (\<lambda>server client.
     dial_server W server client (AddrOf server) validation_alpn (\<lambda>conn.
     go_try (validation_exchange W conn ''validated hello'' (validation_accept W server)) (\<lambda>(reply, served).
     go_try (go_wrap ''server'' (go_lift served)) (\<lambda>validated.
     go_try (query W got_nat (Lib ''retryChecks.Load'' [server] [])) (\<lambda>retry_checks.
     go_then (println reply)
     (go_then (say_bool ''remote address validated:'' validated)
     (println (''retry checks: '' @ digits_of retry_checks))))))))"

section \<open>incoming-filter\<close>

definition filter_alpn :: string where
  "filter_alpn = ''go-iroh-examples/incoming-filter/1''"

text \<open>The filter, with what \<^verbatim>\<open>open\<close> holds when it runs; it returns whether the connection is admitted.\<close>

definition incoming_filter :: "call world \<Rightarrow> bool \<Rightarrow> nat \<Rightarrow> bool io" where
  "incoming_filter W is_open inc =
     (if is_open then go_ret True
      else
        go_try (ask W (Lib ''Incoming.RemoteAddr'' [inc] [])) (\<lambda>addr.
        go_then (println (''filter: rejecting '' @ addr @ '' (server closed for maintenance)''))
        (go_ret False)))"

definition on_accepting :: "call world \<Rightarrow> nat \<Rightarrow> nat io" where
  "on_accepting W accepting =
     go_try (invoke_get W got_text (Lib ''Accepting.ALPN'' [accepting] [])) (\<lambda>alpn.
     go_try (ask W (Lib ''Accepting.RemoteAddr'' [accepting] [])) (\<lambda>addr.
     go_then (println (''on-accepting: alpn='' @ quote alpn @ '' remote='' @ addr))
     (invoke W (Lib ''Accepting.Connection'' [accepting] []))))"

abbreviation (input) filter_echo where
  "filter_echo \<equiv> echo"

text \<open>What the router does with an incoming connection: the filter, \<^verbatim>\<open>OnAccepting\<close>, the handler.\<close>

definition filtered :: "call world \<Rightarrow> nat \<Rightarrow> bool \<Rightarrow> unit io" where
  "filtered W router is_open =
     go_then
       (go_try (invoke W (Lib ''Router.accept'' [router] [])) (\<lambda>inc.
        go_try (incoming_filter W is_open inc) (\<lambda>admitted.
        if \<not> admitted then go_ret ()
        else
          go_try (invoke W (Lib ''Incoming.Accept'' [inc] [])) (\<lambda>accepting.
          go_try (on_accepting W accepting) (\<lambda>conn. filter_echo W conn)))))
       (go_ret ())"

abbreviation (input) filter_exchange where
  "filter_exchange \<equiv> exchange"

abbreviation (input) filter_exchange_during where
  "filter_exchange_during \<equiv> exchange_during"

definition filter_run :: "call world \<Rightarrow> unit io" where
  "filter_run W =
     with_router W [] [filter_alpn] [] (\<lambda>server router client.
     go_try (invoke W (Net (Connect client (AddrOf server) filter_alpn))) (\<lambda>conn.
     go_try (filter_exchange_during W conn ''filtered hello'' (filtered W router True)) (\<lambda>(reply, _).
     go_then (println (''first client reply: '' @ reply))
     (go_then (invoke W (Net (CloseConn conn 0 [])))
     (go_then (filtered W router False)
     (go_catch (invoke W (Net (Connect client (AddrOf server) filter_alpn))) (\<lambda>r.
      case r of
        Inl e \<Rightarrow> println (''second client refused at connect: '' @ err_text e)
      | Inr second \<Rightarrow>
        go_defer (invoke W (Net (CloseConn second 0 [])))
          (go_catch (filter_exchange W second ''after maintenance'') (\<lambda>r2.
           case r2 of
             Inl e \<Rightarrow> println (''second client refused: '' @ err_text e)
           | Inr _ \<Rightarrow> println ''second client unexpectedly admitted''))))))))) "

section \<open>What is given back\<close>

lemma owns_exchange_during [owns]:
  assumes "owns opens_endpoint frees_endpoint {} server (\<lambda>_. {})"
  shows "owns opens_endpoint frees_endpoint {} (exchange_during W conn msg server) (\<lambda>_. {})"
  unfolding exchange_during_def by (rule program_rules owns_read_all assms | simp)+

lemma owns_accept_echo [owns]: "owns opens_endpoint frees_endpoint {} (accept_echo W server) (\<lambda>_. {})"
  unfolding accept_echo_def by (rule program_rules | simp)+

lemma owns_routed:
  assumes "\<And>c. owns opens_endpoint frees_endpoint {} (handle c) (\<lambda>_. {})"
  shows "owns opens_endpoint frees_endpoint {} (routed W router handle) (\<lambda>_. {})"
  unfolding routed_def by (rule program_rules assms | simp)+

lemma owns_dial_server:
  assumes "\<And>c. owns opens_endpoint frees_endpoint {} (body c) (\<lambda>_. {})"
  shows "owns opens_endpoint frees_endpoint {} (dial_server W server client addr alpn body) (\<lambda>_. {})"
  unfolding dial_server_def by (rule program_rules assms | simp)+

lemma owns_with_endpoints:
  assumes "\<And>s c. owns opens_endpoint frees_endpoint {} (body s c) (\<lambda>_. {})"
  shows "owns opens_endpoint frees_endpoint {} (with_endpoints W so co body) (\<lambda>_. {})"
  unfolding with_endpoints_def
  by (simp only: Diff_cancel | rule owns_try [OF owns_bind] owns_defer [OF drops_shutdown] assms)+

lemma owns_with_router:
  assumes "routers_start W" and "\<And>s r c. owns opens_endpoint frees_endpoint {} (body s r c) (\<lambda>_. {})"
  shows "owns opens_endpoint frees_endpoint {} (with_router W so alpns co body) (\<lambda>_. {})"
  unfolding with_router_def
  by (simp only: Diff_cancel | rule owns_try [OF owns_bind] owns_try_router [OF assms(1)] owns_defer [OF drops_router]
      owns_defer [OF drops_shutdown] assms(2))+

lemmas echo_rules = owns_with_endpoints owns_dial_server owns_exchange_during owns_accept_echo owns_routed program_rules

lemma owns_direct_run: "owns opens_endpoint frees_endpoint {} (direct_run W) (\<lambda>_. {})"
  unfolding direct_run_def by (rule echo_rules | simp)+

lemma owns_metrics_run: "owns opens_endpoint frees_endpoint {} (metrics_run W) (\<lambda>_. {})"
  unfolding metrics_run_def counter_def by (rule echo_rules | simp)+

lemma owns_hooks_run: "owns opens_endpoint frees_endpoint {} (hooks_run W hooked) (\<lambda>_. {})"
  unfolding hooks_run_def by (rule echo_rules | simp)+

lemma owns_accept_incoming:
  assumes "\<And>i. owns opens_endpoint frees_endpoint {} (look i) (\<lambda>_. {})"
  shows "owns opens_endpoint frees_endpoint {} (accept_incoming W server look) (\<lambda>_. {})"
  unfolding accept_incoming_def by (rule program_rules assms | simp)+

lemma owns_manual_run: "owns opens_endpoint frees_endpoint {} (manual_run W) (\<lambda>_. {})"
  unfolding manual_run_def manual_accept_def await_connection_def
  by (rule owns_accept_incoming echo_rules | simp)+

lemma owns_validation_run: "owns opens_endpoint frees_endpoint {} (validation_run W) (\<lambda>_. {})"
  unfolding validation_run_def validation_accept_def await_connection_def
  by (rule owns_accept_incoming echo_rules | simp)+

lemma owns_ping_accept: "owns opens_endpoint frees_endpoint {} (ping_accept W conn) (\<lambda>_. {})"
  unfolding ping_accept_def by (rule owns_read_all program_rules | simp)+

lemma owns_filtered: "owns opens_endpoint frees_endpoint {} (filtered W router b) (\<lambda>_. {})"
  unfolding filtered_def incoming_filter_def on_accepting_def by (rule program_rules | simp)+

text \<open>The programs with a router, where it can be made.\<close>

lemma owns_echo_routers:
  assumes "routers_start W"
  shows "owns opens_endpoint frees_endpoint {} (router_echo_run W) (\<lambda>_. {})"
    and "owns opens_endpoint frees_endpoint {} (ping_run W) (\<lambda>_. {})"
    and "owns opens_endpoint frees_endpoint {} (multi_run W) (\<lambda>_. {})"
    and "owns opens_endpoint frees_endpoint {} (memory_run W) (\<lambda>_. {})"
    and "owns opens_endpoint frees_endpoint {} (filter_run W) (\<lambda>_. {})"
proof -
  show "owns opens_endpoint frees_endpoint {} (router_echo_run W) (\<lambda>_. {})"
    unfolding router_echo_run_def by (rule owns_with_router [OF assms] echo_rules | simp)+
  show "owns opens_endpoint frees_endpoint {} (ping_run W) (\<lambda>_. {})"
    unfolding ping_run_def by (rule owns_with_router [OF assms] owns_ping_accept echo_rules | simp)+
  have multi: "owns opens_endpoint frees_endpoint {} (multi_exchange W r c a) (\<lambda>_. {})" for r c a
    unfolding multi_exchange_def multi_accept_def by (rule echo_rules | simp)+
  show "owns opens_endpoint frees_endpoint {} (multi_run W) (\<lambda>_. {})"
    unfolding multi_run_def by (rule owns_with_router [OF assms] multi echo_rules | simp)+
  show "owns opens_endpoint frees_endpoint {} (filter_run W) (\<lambda>_. {})"
    unfolding filter_run_def by (rule owns_with_router [OF assms] owns_filtered echo_rules | simp)+
  have quiet: "owns opens_endpoint frees_endpoint S (k) own \<Longrightarrow>
      owns opens_endpoint frees_endpoint S (go_then (add_addr W l e) k) own" for S k own l e
    unfolding add_addr_def by (rule owns_then [where F = "{}", simplified]) (auto simp: new_object_def drops_def query_def)
  show "owns opens_endpoint frees_endpoint {} (memory_run W) (\<lambda>_. {})"
    unfolding memory_run_def
    by (simp only: Diff_cancel | rule owns_quiet_try [OF owns_new_object] owns_try [OF owns_bind] quiet owns_try_router [OF assms]
        owns_defer [OF drops_router] echo_rules | simp)+
qed

section \<open>Over a network that carries what is written\<close>

text \<open>
  What a stream does, as the library documents it: no call fails, and reading a stream to its
  end gives what the other side has written to it. Each of these programs has one stream open
  at a time, so the other side of the stream one end has opened last is the one the other end
  has accepted last.
\<close>

definition opens_stream :: "call \<Rightarrow> bool" where
  "opens_stream c = (case c of Net (OpenStream n) \<Rightarrow> True | _ \<Rightarrow> False)"

definition accepts_stream :: "call \<Rightarrow> bool" where
  "accepts_stream c = (case c of Net (AcceptStream n) \<Rightarrow> True | _ \<Rightarrow> False)"

fun newest :: "(call \<Rightarrow> bool) \<Rightarrow> io_hist \<Rightarrow> nat option" where
  "newest P [] = None"
| "newest P (Did c # h) = (if P c then Some (length h) else newest P h)"
| "newest P (e # h) = newest P h"

fun written :: "nat \<Rightarrow> io_hist \<Rightarrow> bytes" where
  "written s [] = []"
| "written s (Did (Net (Write t b)) # h) = written s h @ (if t = s then b else [])"
| "written s (e # h) = written s h"

definition other_side :: "io_hist \<Rightarrow> nat \<Rightarrow> nat option" where
  "other_side h s = (if newest opens_stream h = Some s then newest accepts_stream h else newest opens_stream h)"

definition carries :: "call world \<Rightarrow> bool" where
  "carries W \<longleftrightarrow>
     (\<forall>h c. fails W h c = None) \<and>
     (\<forall>h s. got_bytes W h (Net (ReadAll s)) = (case other_side h s of None \<Rightarrow> [] | Some t \<Rightarrow> written t h))"

definition carrying :: "call world" where
  "carrying =
     \<lparr>fails = \<lambda>_ _. None,
      got_bytes = \<lambda>h c. case c of Net (ReadAll s) \<Rightarrow> (case other_side h s of None \<Rightarrow> [] | Some t \<Rightarrow> written t h) | _ \<Rightarrow> [],
      got_text = \<lambda>_ _. [], got_texts = \<lambda>_ _. [], got_nat = \<lambda>_ _. 0, got_flag = \<lambda>_ _. True\<rparr>"

lemma carrying_carries: "carries carrying"
  by (simp add: carries_def carrying_def)

lemma carries_simps:
  assumes "carries W"
  shows "fails W h c = None"
    and "got_bytes W h (Net (ReadAll s)) = (case other_side h s of None \<Rightarrow> [] | Some t \<Rightarrow> written t h)"
  using assms by (auto simp: carries_def)

lemma stream_calls [simp]:
  "opens_stream (Net n) = (case n of OpenStream c \<Rightarrow> True | _ \<Rightarrow> False)" "\<not> opens_stream (Os o')" "\<not> opens_stream (Lib f xs ss)"
  "accepts_stream (Net n) = (case n of AcceptStream c \<Rightarrow> True | _ \<Rightarrow> False)" "\<not> accepts_stream (Os o')" "\<not> accepts_stream (Lib f xs ss)"
  by (simp_all add: opens_stream_def accepts_stream_def)

lemmas carried = go_simps other_side_def read_all_def bind_loopback_def shutdown_def with_endpoints_def with_router_def
  dial_server_def exchange_during_def exchange_def accept_echo_def routed_def echo_def transform_def new_object_def ask_def say_bool_def

text \<open>\<open>prints m ls\<close>: the program returns without error and has printed these lines.\<close>

definition prints :: "unit io \<Rightarrow> string list \<Rightarrow> bool" where
  "prints m ls \<longleftrightarrow> fst (m []) = Inr () \<and> stdout_of (snd (m [])) = ls"

lemma echo_programs_print:
  assumes "carries W"
  shows "prints (direct_run W) [''direct hello'']"
    and "prints (router_echo_run W) [''router hello'']"
    and "\<exists>n. prints (memory_run W) [''addresses given to Connect: '' @ digits_of n, ''discovered hello'']"
    and "\<exists>a b. prints (hooks_run W hooked) [''hooked hello'', ''before: '' @ a, ''after: '' @ b]"
  using assms
  by (auto simp: prints_def direct_run_def router_echo_run_def memory_run_def add_addr_def hooks_run_def carried carries_simps)

lemma ping_prints: "carries W \<Longrightarrow> prints (ping_run W) [''PONG'']"
  by (simp add: prints_def ping_run_def ping_accept_def ping_request_def ping_response_def carried carries_simps)

lemma capitals: "to_upper ''multi hello'' = ''MULTI HELLO''"
  by code_simp

lemma multi_prints: "carries W \<Longrightarrow> prints (multi_run W) [''echo: multi hello'', ''upper: MULTI HELLO'']"
  by (simp add: prints_def multi_run_def multi_exchange_def multi_accept_def multi_handlers_def echo_alpn_def upper_alpn_def
      capitals carried carries_simps)

lemma metrics_prints: "carries W \<Longrightarrow> \<exists>a b. prints (metrics_run W) [''metrics hello'', a, b]"
  by (simp add: prints_def metrics_run_def counter_def carried carries_simps)

lemma manual_prints: "carries W \<Longrightarrow> \<exists>a r. prints (manual_run W) [''manual hello'', a @ '' from '' @ r]"
  by (auto simp: prints_def manual_run_def manual_accept_def accept_incoming_def await_connection_def carried carries_simps)

lemma validation_prints: "carries W \<Longrightarrow> \<exists>a b. prints (validation_run W) [''validated hello'', a, b]"
  by (simp add: prints_def validation_run_def validation_accept_def accept_incoming_def await_connection_def carried carries_simps)

lemma filter_prints:
  "carries W \<Longrightarrow> \<exists>a b c. prints (filter_run W) [a, ''first client reply: filtered hello'', b, c]"
  by (simp add: prints_def filter_run_def filtered_def incoming_filter_def on_accepting_def carried carries_simps)

section \<open>Property\<close>



end
