(* ===== verification/Telemetry.thy ===== *)
theory Telemetry
  imports Json WorkQueue
begin

text \<open>
  \<^verbatim>\<open>cmd/go-iroh-uni-streams/main.go\<close>: telemetry events as JSON, one unidirectional stream each.
  An event is read back as it was written.
\<close>

section \<open>Events as JSON\<close>

record telemetry_event =
  tel_seq :: int
  tel_metric :: string
  tel_value :: int

definition no_event :: telemetry_event where
  "no_event = \<lparr>tel_seq = 0, tel_metric = [], tel_value = 0\<rparr>"

text \<open>\<^verbatim>\<open>Encoder.Encode\<close>: the fields in order, a newline at the end.\<close>

definition encode_event :: "telemetry_event \<Rightarrow> string" where
  "encode_event e =
     [CHR 0x7B] @ json_quote ''seq'' @ '':'' @ show_int (tel_seq e) @ '','' @
     json_quote ''metric'' @ '':'' @ json_quote (tel_metric e) @ '','' @
     json_quote ''value'' @ '':'' @ show_int (tel_value e) @ [CHR 0x7D, CHR 0x0A]"

text \<open>A JSON number as an \<^verbatim>\<open>int\<close> field takes it: decimal digits and a sign, no fraction, within 64 bits.\<close>

fun decimal :: "nat \<Rightarrow> string \<Rightarrow> nat option" where
  "decimal acc [] = Some acc"
| "decimal acc (c # cs) = (if is_digit c then decimal (10 * acc + (of_char c - 48)) cs else None)"

definition int_number :: "string \<Rightarrow> int option" where
  "int_number s =
     (let neg = (case s of c # _ \<Rightarrow> c = CHR ''-'' | [] \<Rightarrow> False);
          body = (if neg then tl s else s) in
      if body = [] then None
      else case decimal 0 body of
        None \<Rightarrow> None
      | Some n \<Rightarrow> if neg then (if int n \<le> 2 ^ 63 then Some (- int n) else None)
                  else (if int n < 2 ^ 63 then Some (int n) else None))"

text \<open>
  A member of the object: keys match in any case, unknown ones are skipped, \<^verbatim>\<open>null\<close> changes
  nothing, a value of another type is an error.
\<close>

definition set_int :: "json \<Rightarrow> (int \<Rightarrow> telemetry_event) \<Rightarrow> telemetry_event \<Rightarrow> telemetry_event option" where
  "set_int j put e = (case j of JNum s \<Rightarrow> map_option put (int_number s) | JNull \<Rightarrow> Some e | _ \<Rightarrow> None)"

definition event_member :: "string \<times> json \<Rightarrow> telemetry_event \<Rightarrow> telemetry_event option" where
  "event_member = (\<lambda>(k, j) e.
     if to_lower k = ''seq'' then set_int j (\<lambda>i. e\<lparr>tel_seq := i\<rparr>) e
     else if to_lower k = ''value'' then set_int j (\<lambda>i. e\<lparr>tel_value := i\<rparr>) e
     else if to_lower k = ''metric''
       then (case j of JStr s \<Rightarrow> Some (e\<lparr>tel_metric := s\<rparr>) | JNull \<Rightarrow> Some e | _ \<Rightarrow> None)
     else Some e)"

fun event_members :: "(string \<times> json) list \<Rightarrow> telemetry_event \<Rightarrow> telemetry_event option" where
  "event_members [] e = Some e"
| "event_members (m # ms) e = (case event_member m e of None \<Rightarrow> None | Some e' \<Rightarrow> event_members ms e')"

text \<open>\<^verbatim>\<open>readEvent\<close>: the first value of the stream; \<open>bad\<close> gives the decoder's error for a text it refuses.\<close>

definition read_event :: "(string \<Rightarrow> gerr) \<Rightarrow> string \<Rightarrow> gerr + telemetry_event" where
  "read_event bad s =
     (if skip s = [] then Inl ErrEOF
      else case json_value s of
        Some (JObj ms, _) \<Rightarrow> (case event_members ms no_event of None \<Rightarrow> Inl (bad s) | Some e \<Rightarrow> Inr e)
      | Some (JNull, _) \<Rightarrow> Inr no_event
      | _ \<Rightarrow> Inl (bad s))"

section \<open>The program\<close>

definition uni_alpn :: string where
  "uni_alpn = ''go-iroh-examples/uni-streams/1''"

definition publish_event :: "call world \<Rightarrow> nat \<Rightarrow> telemetry_event \<Rightarrow> unit io" where
  "publish_event W conn e =
     go_try (invoke W (Lib ''Conn.OpenUniStreamSync'' [conn] [])) (\<lambda>s.
     go_catch (invoke W (Net (Write s (bytes_of (encode_event e))))) (\<lambda>r.
     case r of
       Inl err \<Rightarrow> go_then (invoke W (Net (CloseStream s))) (go_fail err)
     | Inr _ \<Rightarrow> go_try (invoke W (Net (CloseStream s))) (\<lambda>_. go_ret ())))"

fun receive_events :: "call world \<Rightarrow> (string \<Rightarrow> gerr) \<Rightarrow> nat \<Rightarrow> nat \<Rightarrow> telemetry_event list \<Rightarrow> telemetry_event list io" where
  "receive_events W bad conn 0 events = go_ret events"
| "receive_events W bad conn (Suc n) events =
     go_try (invoke W (Lib ''Conn.AcceptUniStream'' [conn] [])) (\<lambda>s.
     go_try (read_all W s) (\<lambda>b.
     go_try (go_lift (read_event bad (text_of b))) (\<lambda>e.
     receive_events W bad conn n (events @ [e]))))"

definition receive_telemetry :: "call world \<Rightarrow> (string \<Rightarrow> gerr) \<Rightarrow> nat \<Rightarrow> nat \<Rightarrow> telemetry_event list io" where
  "receive_telemetry W bad server n =
     go_try (invoke W (Net (Accept server))) (\<lambda>conn.
     go_defer (invoke W (Lib ''Conn.Close'' [conn] [])) (receive_events W bad conn n []))"

definition demo_events :: "telemetry_event list" where
  "demo_events =
     [\<lparr>tel_seq = 1, tel_metric = ''cpu'', tel_value = 42\<rparr>,
      \<lparr>tel_seq = 2, tel_metric = ''memory'', tel_value = 73\<rparr>,
      \<lparr>tel_seq = 3, tel_metric = ''queue'', tel_value = 5\<rparr>]"

definition event_line :: "telemetry_event \<Rightarrow> string" where
  "event_line e = ''event '' @ show_int (tel_seq e) @ '': '' @ tel_metric e @ ''='' @ show_int (tel_value e)"

abbreviation (input) uni_bind where
  "uni_bind \<equiv> bind_loopback"

definition uni_run :: "call world \<Rightarrow> (string \<Rightarrow> gerr) \<Rightarrow> unit io" where
  "uni_run W bad =
     go_try (uni_bind W [WithALPNs [uni_alpn]]) (\<lambda>server.
     go_defer (shutdown W server)
       (go_try (uni_bind W []) (\<lambda>client.
        go_defer (shutdown W client)
          (go_try (invoke W (Net (Connect client (AddrOf server) uni_alpn))) (\<lambda>conn.
           go_defer (invoke W (Lib ''Conn.Close'' [conn] []))
             (go_try (go_each (publish_event W conn) demo_events) (\<lambda>_.
              go_try (receive_telemetry W bad server 3) (\<lambda>events.
              println_all (map event_line events)))))))))"

lemma owns_uni_run: "owns opens_endpoint frees_endpoint {} (uni_run W bad) (\<lambda>_. {})"
proof -
  have publish: "owns opens_endpoint frees_endpoint {} (publish_event W conn e) (\<lambda>_. {})" for conn e
    unfolding publish_event_def by (rule program_rules | simp)+
  have events: "owns opens_endpoint frees_endpoint {} (receive_events W bad conn n es) (\<lambda>_. {})" for conn n es
    by (induction n arbitrary: es)
      (simp add: owns_ret, simp only: receive_events.simps, (rule program_rules owns_read_all | assumption | simp)+)
  show ?thesis
    unfolding uni_run_def receive_telemetry_def
    by (simp only: Diff_cancel | rule owns_try [OF owns_bind] owns_defer [OF drops_shutdown] owns_each publish events program_rules | simp)+
qed

section \<open>Numbers come back\<close>

lemma digits_of_digits: "list_all is_digit (digits_of n)"
  by (auto simp: list_all_iff is_digit_def dest!: digits_of_range)

lemma digits_of_head: "0 < n \<Longrightarrow> hd (digits_of n) \<noteq> CHR ''0''"
proof (induction n rule: digits_of.induct)
  case (1 n)
  show ?case
  proof (cases "n < 10")
    case True
    have "char_of (48 + n) \<noteq> CHR ''0''"
    proof
      assume "char_of (48 + n) = CHR ''0''"
      then have "(of_char (char_of (48 + n) :: char) :: nat) = of_char (CHR ''0'')" by simp
      with True 1 show False by simp
    qed
    with True show ?thesis by (subst digits_of.simps) simp
  next
    case False
    with 1 show ?thesis by (subst digits_of.simps) simp
  qed
qed

lemma decimal_append: "decimal acc (s @ t) = (case decimal acc s of None \<Rightarrow> None | Some a \<Rightarrow> decimal a t)"
  by (induction s arbitrary: acc) auto

lemma decimal_digits_of: "decimal 0 (digits_of n) = Some n"
proof (induction n rule: digits_of.induct)
  case (1 n)
  have "is_digit (char_of (48 + m)) \<and> of_char (char_of (48 + m) :: char) - 48 = m" if "m < 10" for m :: nat
    using that by (simp add: is_digit_def)
  with 1 show ?case
    by (subst digits_of.simps) (simp add: decimal_append)
qed

lemma digits_of_0: "digits_of 0 = ''0''"
  by code_simp

lemma digits_of_Cons:
  obtains c cs where "digits_of n = c # cs" "is_digit c" "list_all is_digit cs" "c = CHR ''0'' \<longrightarrow> cs = []"
proof (cases "digits_of n")
  case (Cons c cs)
  moreover have "cs = []" if "c = CHR ''0''"
  proof (cases "n = 0")
    case True
    with Cons show ?thesis by (simp add: digits_of_0)
  next
    case False
    with digits_of_head [of n] Cons that show ?thesis by simp
  qed
  ultimately show ?thesis
    using that digits_of_digits [of n] by simp
qed simp

text \<open>What may follow a number: a comma or a brace.\<close>

definition ends_number :: "string \<Rightarrow> bool" where
  "ends_number r \<longleftrightarrow> (\<exists>c cs. r = c # cs \<and> (c = CHR '','' \<or> c = CHR 0x7D))"

lemma ends_number_Cons [simp]: "ends_number (c # cs) \<longleftrightarrow> c = CHR '','' \<or> c = CHR 0x7D"
  by (simp add: ends_number_def)

lemma number_end:
  assumes "ends_number r"
  shows "exp_part r = Some ([], r)" and "frac_part r = Some ([], r)"
    and "list_all is_digit d \<Longrightarrow> takeWhile is_digit (d @ r) = d" and "list_all is_digit d \<Longrightarrow> dropWhile is_digit (d @ r) = r"
proof -
  obtain c cs where r: "r = c # cs" "c = CHR '','' \<or> c = CHR 0x7D"
    using assms unfolding ends_number_def by blast
  then have c: "\<not> is_digit c" by (auto simp: is_digit_def)
  show "exp_part r = Some ([], r)" "frac_part r = Some ([], r)"
    using r(2) by (auto simp: r(1) exp_part_def frac_part_def opt_char_def)
  show "list_all is_digit d \<Longrightarrow> takeWhile is_digit (d @ r) = d" "list_all is_digit d \<Longrightarrow> dropWhile is_digit (d @ r) = r"
    by (induction d) (simp_all add: r(1) c)
qed

lemma whole_digits:
  assumes "ends_number r"
  shows "whole_part (digits_of n @ r) = (digits_of n, r)"
proof -
  obtain c cs where c: "digits_of n = c # cs" "is_digit c" "list_all is_digit cs" "c = CHR ''0'' \<longrightarrow> cs = []"
    by (rule digits_of_Cons)
  with c number_end(3,4) [OF assms, of cs] show ?thesis
    by (auto simp: whole_part_def opt_char_def digits_def)
qed

lemma json_number_int:
  assumes "ends_number r"
  shows "json_number (show_int i @ r) = Some (show_int i, r)"
proof -
  have sign: "opt_char (\<lambda>c. c = CHR ''-'') (digits_of n @ r) = ([], digits_of n @ r)" for n
    by (rule digits_of_Cons [of n]) (auto simp: opt_char_def is_digit_def)
  show ?thesis
    using whole_digits [OF assms] number_end(1,2) [OF assms] sign
    by (simp add: json_number_def show_int_def opt_char_def before_def)
qed

lemma json_value_int:
  assumes "ends_number r"
  shows "json_value (show_int i @ r) = Some (JNum (show_int i), r)"
proof -
  obtain d ds where d: "digits_of (nat i) = d # ds" "is_digit d"
    by (rule digits_of_Cons)
  obtain c cs where c: "show_int i @ r = c # cs" "c = CHR ''-'' \<or> is_digit c"
    using d by (cases "i < 0") (auto simp: show_int_def)
  have visible: "\<not> json_space c" and letter: "\<not> has_prefix ''true'' (c # cs)" "\<not> has_prefix ''false'' (c # cs)" "\<not> has_prefix ''null'' (c # cs)"
    and mark: "c \<noteq> CHR 0x7B" "c \<noteq> CHR 0x5B" "c \<noteq> CHR 0x22"
    using c(2) by (auto simp: json_space_def is_digit_def has_prefix_iff)
  show ?thesis
    using json_number_int [OF assms, of i] c visible letter mark
    by (subst json_value.simps) (simp add: skip_visible)
qed

lemma int_number_back:
  assumes "- (2 ^ 63) \<le> i" "i < 2 ^ 63"
  shows "int_number (show_int i) = Some i"
proof (cases "i < 0")
  case True
  with assms show ?thesis
    by (simp add: int_number_def show_int_def decimal_digits_of)
next
  case False
  obtain c cs where c: "digits_of (nat i) = c # cs" "is_digit c"
    by (rule digits_of_Cons)
  then have "c \<noteq> CHR ''-''" by (auto simp: is_digit_def)
  moreover have "decimal 0 (c # cs) = Some (nat i)"
    using decimal_digits_of [of "nat i"] c by simp
  ultimately show ?thesis
    using False assms c by (simp add: int_number_def show_int_def del: decimal.simps)
qed

section \<open>Events come back\<close>

lemma json_members_int:
  assumes "ascii k" "y = CHR 0x7D \<or> y = CHR '',''"
  shows "json_members (json_quote k @ CHR '':'' # show_int i @ y # z) =
    (if y = CHR 0x7D then Some ([(k, JNum (show_int i))], z)
     else map_option (\<lambda>(ms, z'). ((k, JNum (show_int i)) # ms, z')) (json_members z))"
  unfolding quote_Cons [of k]
  using assms json_value_int [of "y # z" i] by (subst json_members.simps) (auto simp: skip_visible json_string_quote)

definition event_fits :: "telemetry_event \<Rightarrow> bool" where
  "event_fits e \<longleftrightarrow> ascii (tel_metric e) \<and> - (2 ^ 63) \<le> tel_seq e \<and> tel_seq e < 2 ^ 63 \<and>
     - (2 ^ 63) \<le> tel_value e \<and> tel_value e < 2 ^ 63"

lemma json_value_event:
  assumes "ascii (tel_metric e)"
  shows "json_value (encode_event e @ rest) =
     Some (JObj [(''seq'', JNum (show_int (tel_seq e))), (''metric'', JStr (tel_metric e)), (''value'', JNum (show_int (tel_value e)))],
           CHR 0x0A # rest)"
proof -
  have names: "ascii ''seq''" "ascii ''metric''" "ascii ''value''"
    by (simp_all add: ascii_def)
  let ?v = "json_quote ''value'' @ CHR '':'' # show_int (tel_value e) @ CHR 0x7D # CHR 0x0A # rest"
  let ?m = "json_quote ''metric'' @ CHR '':'' # json_quote (tel_metric e) @ CHR '','' # ?v"
  let ?s = "json_quote ''seq'' @ CHR '':'' # show_int (tel_seq e) @ CHR '','' # ?m"
  have v: "json_members ?v = Some ([(''value'', JNum (show_int (tel_value e)))], CHR 0x0A # rest)"
    using json_members_int [OF names(3), of "CHR 0x7D"] by simp
  have m: "json_members ?m = Some ([(''metric'', JStr (tel_metric e)), (''value'', JNum (show_int (tel_value e)))], CHR 0x0A # rest)"
    using json_members_one [OF names(2) assms, of "CHR '',''" ?v] v by simp
  have "json_members ?s = Some ([(''seq'', JNum (show_int (tel_seq e))), (''metric'', JStr (tel_metric e)),
      (''value'', JNum (show_int (tel_value e)))], CHR 0x0A # rest)"
    using json_members_int [OF names(1), of "CHR '',''" _ ?m] m by simp
  moreover have "encode_event e @ rest = CHR 0x7B # ?s"
    by (simp add: encode_event_def)
  moreover have "\<exists>t. ?s = CHR 0x22 # t"
    unfolding json_quote_def by simp
  ultimately show ?thesis
    by (subst json_value.simps) (auto simp: skip_visible)
qed

text \<open>C34. An event survives its stream: \<^verbatim>\<open>readEvent\<close> gives back what \<^verbatim>\<open>publishEvent\<close> encoded, whatever follows
  it on the stream, for every event whose numbers are 64-bit and whose name is ASCII, quotes
  and control characters included.\<close>

theorem events_come_back:
  assumes "event_fits e"
  shows "read_event bad (encode_event e @ rest) = Inr e"
proof -
  have "skip (encode_event e @ rest) \<noteq> []"
    by (simp add: encode_event_def skip_visible)
  with assms json_value_event [of e rest] show ?thesis
    by (simp add: read_event_def event_fits_def event_member_def set_int_def int_number_back no_event_def
        to_lower_def lower_char_def)
qed

theorem events_come_back_witness:
  "event_fits \<lparr>tel_seq = -7, tel_metric = [CHR 0x22, CHR ''a'', CHR 0x0A], tel_value = 2 ^ 62\<rparr> \<and>
   read_event Err (encode_event \<lparr>tel_seq = -7, tel_metric = [CHR 0x22, CHR ''a'', CHR 0x0A], tel_value = 2 ^ 62\<rparr>) =
     Inr \<lparr>tel_seq = -7, tel_metric = [CHR 0x22, CHR ''a'', CHR 0x0A], tel_value = 2 ^ 62\<rparr>"
  using events_come_back [of "\<lparr>tel_seq = -7, tel_metric = [CHR 0x22, CHR ''a'', CHR 0x0A], tel_value = 2 ^ 62\<rparr>" Err "[]"]
  by (simp add: event_fits_def ascii_def)

end
