(* ===== verification/StreamPrograms.thy ===== *)
theory StreamPrograms
  imports Framing Negotiation PublicEndpoint
begin

text \<open>
  Streams, datagrams and the end of a connection: \<^verbatim>\<open>datagram-vs-stream\<close> (its \<^verbatim>\<open>sendMessage\<close> is in
  Framing), \<^verbatim>\<open>transport-tuning\<close>, \<^verbatim>\<open>stream-netconn\<close>, \<^verbatim>\<open>stream-listener\<close>, \<^verbatim>\<open>quic-surface\<close> and
  \<^verbatim>\<open>close-codes\<close>, each \<^verbatim>\<open>cmd/go-iroh-<name>/main.go\<close>. A server's goroutine runs where the
  program waits for its result.
\<close>

section \<open>Texts written without a newline of their own\<close>

text \<open>\<^verbatim>\<open>Fprint\<close> of a text that ends a line itself.\<close>

definition newline :: string where
  "newline = [CHR 0x0A]"

definition print_text :: "string \<Rightarrow> unit io" where
  "print_text s = println (trim_suffix newline s)"

text \<open>\<^verbatim>\<open>bufio.NewReader(c).ReadString\<close> up to a newline, and \<^verbatim>\<open>io.WriteString\<close>.\<close>

definition read_line :: "call world \<Rightarrow> nat \<Rightarrow> string io" where
  "read_line W c = invoke_get W got_text (Lib ''bufio.ReadString'' [c] [])"

definition write_text :: "call world \<Rightarrow> nat \<Rightarrow> string \<Rightarrow> nat io" where
  "write_text W c s = invoke W (Net (Write c (bytes_of s)))"

definition set_deadline :: "call world \<Rightarrow> nat \<Rightarrow> nat io" where
  "set_deadline W c = invoke W (Lib ''SetDeadline'' [c] [])"

definition close_lib :: "call world \<Rightarrow> string \<Rightarrow> nat \<Rightarrow> nat io" where
  "close_lib W f c = invoke W (Lib f [c] [])"

section \<open>datagram-vs-stream\<close>

definition dvs_alpn :: string where
  "dvs_alpn = ''go-iroh-examples/datagram-vs-stream/1''"

record received_message =
  rm_via :: string
  rm_len :: nat

text \<open>The next message either goroutine of the server puts into the channel, or the error that ends it.\<close>

definition dvs_datagram :: "call world \<Rightarrow> nat \<Rightarrow> received_message io" where
  "dvs_datagram W conn =
     go_try (invoke_get W got_bytes (Net (ReadDatagram conn))) (\<lambda>b.
     go_ret \<lparr>rm_via = ''datagram'', rm_len = length b\<rparr>)"

definition dvs_stream :: "call world \<Rightarrow> nat \<Rightarrow> received_message io" where
  "dvs_stream W conn =
     go_catch (invoke W (Net (AcceptStream conn))) (\<lambda>r.
     case r of
       Inl e \<Rightarrow> go_then (invoke W (Net (CloseConn conn 0 []))) (go_fail e)
     | Inr s \<Rightarrow>
       go_defer (invoke W (Net (CloseStream s)))
         (go_try (read_all W s) (\<lambda>b.
          go_ret \<lparr>rm_via = ''stream'', rm_len = length b\<rparr>)))"

text \<open>
  One round of the receiving loop: the \<^verbatim>\<open>select\<close> takes the end of the context (0), a datagram's
  message (1) or a stream's (2); a goroutine that has ended leaves the others.
\<close>

definition dvs_receive :: "call world \<Rightarrow> nat \<Rightarrow> nat \<Rightarrow> unit io" where
  "dvs_receive W fuel conn =
     go_loop fuel (\<lambda>_.
       go_try (query W got_nat (Os Select)) (\<lambda>which.
       if which = 0 then go_try (ctx_error W) (\<lambda>e. go_fail e)
       else
         go_catch (if which = 1 then dvs_datagram W conn else dvs_stream W conn) (\<lambda>r.
         case r of
           Inl _ \<Rightarrow> go_ret (Inr ())
         | Inr m \<Rightarrow>
           go_then (println (''server received '' @ rm_via m @ '' ('' @ digits_of (rm_len m) @ '' bytes)''))
           (go_ret (Inl ()))))) ()"

definition dvs_small :: bytes where
  "dvs_small = bytes_of ''fits in one datagram''"

definition dvs_large :: bytes where
  "dvs_large = concat (replicate 5000 (bytes_of ''stream fallback ''))"

definition dvs_send :: "call world \<Rightarrow> nat \<Rightarrow> string \<Rightarrow> bytes \<Rightarrow> unit io" where
  "dvs_send W conn what b =
     go_try (send_message W conn b) (\<lambda>via.
     println (what @ '' sent via '' @ via @ '' ('' @ digits_of (length b) @ '' bytes)''))"

definition dvs_play :: "call world \<Rightarrow> nat \<Rightarrow> nat \<Rightarrow> nat \<Rightarrow> unit io" where
  "dvs_play W fuel server conn =
     go_try (query W got_flag (Net (MaxDatagramSize conn))) (\<lambda>ok.
     go_try (query W got_nat (Net (MaxDatagramSize conn))) (\<lambda>n.
     go_then (say_bool ''datagrams negotiated:'' ok)
     (go_then (if ok then
         go_then (say_bool ''small fits in a datagram:'' (length dvs_small \<le> n))
           (say_bool ''large fits in a datagram:'' (length dvs_large \<le> n))
       else go_ret ())
     (go_try (dvs_send W conn ''small'' dvs_small) (\<lambda>_.
      go_try (dvs_send W conn ''large'' dvs_large) (\<lambda>_.
      go_catch (invoke W (Net (Accept server))) (\<lambda>r.
      case r of
        Inl e \<Rightarrow>
          go_try (query W got_nat (Os Select)) (\<lambda>which.
          if which = 0 then go_try (ctx_error W) (\<lambda>ce. go_fail ce) else go_fail e)
      | Inr sconn \<Rightarrow>
          go_try (dvs_receive W fuel sconn) (\<lambda>_. dvs_receive W fuel sconn))))))))"

abbreviation (input) dvs_bind where
  "dvs_bind \<equiv> bind_loopback"

definition dvs_run :: "call world \<Rightarrow> nat \<Rightarrow> unit io" where
  "dvs_run W fuel =
     go_try (dvs_bind W [WithALPNs [dvs_alpn]]) (\<lambda>server.
     go_defer (shutdown W server)
       (go_try (dvs_bind W []) (\<lambda>client.
        go_defer (shutdown W client)
          (go_try (invoke W (Net (Connect client (AddrOf server) dvs_alpn))) (\<lambda>conn.
           go_defer (invoke W (Net (CloseConn conn 0 []))) (dvs_play W fuel server conn))))))"

section \<open>transport-tuning\<close>

definition tuning_alpn :: string where
  "tuning_alpn = ''go-iroh-examples/transport-tuning/1''"

fun reflect_loop :: "call world \<Rightarrow> nat \<Rightarrow> nat \<Rightarrow> unit io" where
  "reflect_loop W conn 0 = go_ret ()"
| "reflect_loop W conn (Suc n) =
     go_try (invoke_get W got_bytes (Net (ReadDatagram conn))) (\<lambda>p.
     go_try (invoke W (Net (SendDatagram conn p))) (\<lambda>_.
     reflect_loop W conn n))"

definition reflect_datagrams :: "call world \<Rightarrow> nat \<Rightarrow> nat \<Rightarrow> unit io" where
  "reflect_datagrams W server n =
     go_try (invoke W (Net (Accept server))) (\<lambda>conn. reflect_loop W conn n)"

definition datagram_exchange :: "call world \<Rightarrow> nat \<Rightarrow> string \<Rightarrow> string io" where
  "datagram_exchange W conn msg =
     go_try (invoke W (Net (SendDatagram conn (bytes_of msg)))) (\<lambda>_.
     go_try (invoke_get W got_bytes (Net (ReadDatagram conn))) (\<lambda>p.
     go_ret (text_of p)))"

abbreviation (input) tuning_bind where
  "tuning_bind \<equiv> bind_loopback"

definition tuning_run :: "call world \<Rightarrow> unit io" where
  "tuning_run W =
     go_try (tuning_bind W [WithALPNs [tuning_alpn], WithOption ''WithTransportConfig'']) (\<lambda>server.
     go_defer (shutdown W server)
       (go_try (tuning_bind W [WithOption ''WithTransportConfig'']) (\<lambda>client.
        go_defer (shutdown W client)
          (go_try (invoke W (Net (Connect client (AddrOf server) tuning_alpn))) (\<lambda>conn.
           go_defer (close_lib W ''Conn.Close'' conn)
             (go_try (go_wrap ''first exchange'' (datagram_exchange W conn ''first'')) (\<lambda>first.
              go_try (go_wrap ''exchange after 500ms idle'' (datagram_exchange W conn ''second'')) (\<lambda>second.
              go_try (go_wrap ''reflect'' (reflect_datagrams W server 2)) (\<lambda>_.
              go_try (ask W (Lib ''iroh.PathMaxIdleTimeout'' [] [])) (\<lambda>direct.
              go_try (ask W (Lib ''iroh.RelayPathMaxIdleTimeout'' [] [])) (\<lambda>relay.
              println_all [''keepalive: 250ms'', ''max idle: 3s'', first, second,
                ''default direct idle: '' @ direct, ''default relay idle: '' @ relay])))))))))))"

section \<open>stream-netconn\<close>

definition netconn_alpn :: string where
  "netconn_alpn = ''go-iroh-examples/stream-netconn/1''"

text \<open>The server waits for \<^verbatim>\<open>release\<close> before its connection is closed; the program gives it while it waits.\<close>

definition netconn_serve :: "call world \<Rightarrow> nat \<Rightarrow> unit io" where
  "netconn_serve W ep =
     go_try (invoke W (Net (Accept ep))) (\<lambda>conn.
     go_defer (close_lib W ''Conn.Close'' conn)
       (go_try (invoke W (Lib ''Conn.AcceptStreamConn'' [conn] [])) (\<lambda>stream.
        go_defer (invoke W (Net (CloseStream stream)))
          (go_try (set_deadline W stream) (\<lambda>_.
           go_try (go_wrap ''read request'' (read_line W stream)) (\<lambda>line.
           go_try (go_wrap ''write reply'' (write_text W stream (to_upper line))) (\<lambda>_.
           go_try (go_wrap ''read after reply'' (read_all W stream)) (\<lambda>rest.
           println (''peer half-closed after '' @ digits_of (length rest) @ '' more bytes'')))))))))"

abbreviation (input) netconn_bind where
  "netconn_bind \<equiv> bind_loopback"

definition netconn_run :: "call world \<Rightarrow> unit io" where
  "netconn_run W =
     go_try (netconn_bind W [WithALPNs [netconn_alpn]]) (\<lambda>server.
     go_defer (shutdown W server)
       (go_try (netconn_bind W []) (\<lambda>client.
        go_defer (shutdown W client)
          (go_try (invoke W (Net (Connect client (AddrOf server) netconn_alpn))) (\<lambda>conn.
           go_defer (close_lib W ''Conn.Close'' conn)
             (go_try (invoke W (Lib ''Conn.OpenStreamConn'' [conn] [])) (\<lambda>stream.
              go_defer (invoke W (Net (CloseStream stream)))
                (go_try (set_deadline W stream) (\<lambda>_.
                 go_try (go_wrap ''write request'' (write_text W stream (''deadline example'' @ newline))) (\<lambda>_.
                 go_try (go_wrap ''read reply'' (read_line W stream)) (\<lambda>reply.
                 go_then (print_text reply)
                 (go_try (query W got_flag (Lib ''CloseWrite'' [stream] [])) (\<lambda>ok.
                  go_then (say_bool ''half-close supported:'' ok)
                  (go_try (if ok then go_wrap ''close write'' (invoke W (Net (CloseWrite stream))) else go_ret 0) (\<lambda>_.
                   go_wrap ''serve'' (netconn_serve W server))))))))))))))))"

section \<open>stream-listener\<close>

definition http_alpn :: string where
  "http_alpn = ''go-iroh-examples/stream-listener/http/1''"

definition listener_alpn :: string where
  "listener_alpn = ''go-iroh-examples/stream-listener/router/1''"

text \<open>The HTTP handler's answer to \<^verbatim>\<open>?name=\<close>.\<close>

definition greeting :: "string \<Rightarrow> string \<Rightarrow> string" where
  "greeting name proto = ''hello '' @ (if name = [] then ''listener'' else name) @ '' over '' @ proto @ newline"

text \<open>The result of \<^verbatim>\<open>Serve\<close>, where being closed is no error.\<close>

definition http_served :: "call world \<Rightarrow> unit io" where
  "http_served W =
     go_catch (invoke W (Os HttpServe)) (\<lambda>r.
     case r of
       Inl e \<Rightarrow> if e = Err ''http: Server closed'' then go_ret () else go_fail e
     | Inr _ \<Rightarrow> go_ret ())"

definition listener_http :: "call world \<Rightarrow> unit io" where
  "listener_http W =
     go_try (bind_loopback W [WithALPNs [http_alpn]]) (\<lambda>server.
     go_defer (shutdown W server)
       (go_try (invoke W (Lib ''Endpoint.ListenStreams'' [server] [])) (\<lambda>ln.
        go_defer (close_lib W ''StreamListener.Close'' ln)
          (go_defer (invoke W (Os HttpClose))
            (go_try (bind_loopback W []) (\<lambda>client.
             go_defer (shutdown W client)
               (go_try (invoke W (Os (HttpDo ''http://iroh.local/greet?name=listener'' []))) (\<lambda>resp.
                go_catch (invoke_get W got_text (Os (HttpBody resp))) (\<lambda>body.
                go_then (close_lib W ''Body.Close'' resp)
                (go_try (go_lift body) (\<lambda>text.
                 go_then (invoke W (Os HttpClose))
                 (go_try (http_served W) (\<lambda>_.
                  go_then (print_text text)
                  (go_try (ask W (Lib ''StreamListener.Addr'' [ln] [])) (\<lambda>addr.
                   println (''http listener: '' @ addr))))))))))))))))"

definition listener_answer :: "call world \<Rightarrow> nat \<Rightarrow> unit io" where
  "listener_answer W ln =
     go_try (invoke W (Lib ''StreamListener.Accept'' [ln] [])) (\<lambda>c.
     go_defer (close_lib W ''net.Conn.Close'' c)
       (go_try (read_line W c) (\<lambda>line.
        go_try (write_text W c (to_upper line)) (\<lambda>_. go_ret ()))))"

definition listener_router :: "call world \<Rightarrow> unit io" where
  "listener_router W =
     go_try (bind_loopback W []) (\<lambda>server.
     go_defer (shutdown W server)
       (go_try (new_object W (Lib ''iroh.NewStreamListener'' [] [])) (\<lambda>ln.
        go_defer (close_lib W ''StreamListener.Close'' ln)
          (go_try (invoke W (Net (NewRouter server [listener_alpn]))) (\<lambda>router.
           go_defer (invoke W (Net (RouterShutdown router server)))
             (go_try (bind_loopback W []) (\<lambda>client.
              go_defer (shutdown W client)
                (go_try (query W got_text (Net (EndpointID server))) (\<lambda>i.
                 go_try (query W got_text (Net (LocalAddr server))) (\<lambda>local.
                 go_try (invoke W (Net (Connect client (WithIP (NewAddr i) local) listener_alpn))) (\<lambda>c.
                 go_defer (close_lib W ''net.Conn.Close'' c)
                   (go_try (write_text W c (''router listener hello'' @ newline)) (\<lambda>_.
                    go_try (read_line W c) (\<lambda>reply.
                    go_try (listener_answer W ln) (\<lambda>_.
                    go_then (print_text reply)
                    (go_try (ask W (Lib ''StreamListener.Addr'' [ln] [])) (\<lambda>addr.
                     println (''router listener: '' @ addr))))))))))))))))))"

definition listener_run :: "call world \<Rightarrow> unit io" where
  "listener_run W = go_try (listener_http W) (\<lambda>_. listener_router W)"

section \<open>quic-surface\<close>

definition quic_alpn :: string where
  "quic_alpn = ''go-iroh-examples/quic-surface/1''"

definition h3_no_error :: nat where
  "h3_no_error = 0x100"

text \<open>\<open>cause h conn\<close>: why the connection has ended, as \<^verbatim>\<open>context.Cause\<close> tells it.\<close>

definition quic_end :: "call world \<Rightarrow> (io_hist \<Rightarrow> nat \<Rightarrow> gerr) \<Rightarrow> nat \<Rightarrow> unit io" where
  "quic_end W cause raw =
     go_try (query W (\<lambda>_ h _. cause h raw) (Net (WaitClosed raw))) (\<lambda>e.
     case as_app_error e of
       None \<Rightarrow> go_fail (Wrapf ''connection ended without an application code'' e)
     | Some a \<Rightarrow>
       if app_code a \<noteq> h3_no_error
       then go_fail (Err (''peer closed with code 0x'' @ hex_nat (app_code a) @ '', want 0x100''))
       else go_ret ())"

definition quic_serve :: "call world \<Rightarrow> (io_hist \<Rightarrow> nat \<Rightarrow> gerr) \<Rightarrow> nat \<Rightarrow> unit io" where
  "quic_serve W cause ep =
     go_try (invoke W (Net (Accept ep))) (\<lambda>raw.
     go_try (new_object W (Lib ''quicconn.NewConn'' [raw] [])) (\<lambda>conn.
     go_try (go_wrap ''accept bidi'' (invoke W (Lib ''quicconn.AcceptBidi'' [conn] []))) (\<lambda>bidi.
     go_try (go_wrap ''read request'' (read_all W bidi)) (\<lambda>request.
     go_try (go_wrap ''open uni'' (invoke W (Lib ''quicconn.OpenUni'' [conn] []))) (\<lambda>uni.
     go_try (go_wrap ''write uni'' (write_text W uni ''pushed by the server'')) (\<lambda>_.
     go_try (go_wrap ''close uni'' (invoke W (Net (CloseStream uni)))) (\<lambda>_.
     go_try (go_wrap ''write response'' (write_text W bidi (''answered '' @ text_of request))) (\<lambda>_.
     go_try (go_wrap ''close response'' (invoke W (Net (CloseStream bidi)))) (\<lambda>_.
     go_try (go_wrap ''receive datagram'' (invoke_get W got_bytes (Net (ReadDatagram conn)))) (\<lambda>dgram.
     go_try (go_wrap ''send datagram'' (invoke W (Net (SendDatagram conn (bytes_of ''pong for '' @ dgram))))) (\<lambda>_.
     quic_end W cause raw)))))))))))"

abbreviation (input) quic_bind where
  "quic_bind \<equiv> bind_loopback"

definition quic_run :: "call world \<Rightarrow> (io_hist \<Rightarrow> nat \<Rightarrow> gerr) \<Rightarrow> unit io" where
  "quic_run W cause =
     go_try (quic_bind W [WithALPNs [quic_alpn]]) (\<lambda>server.
     go_defer (shutdown W server)
       (go_try (quic_bind W []) (\<lambda>client.
        go_defer (shutdown W client)
          (go_try (go_wrap ''connect'' (invoke W (Net (Connect client (AddrOf server) quic_alpn)))) (\<lambda>raw.
           go_try (new_object W (Lib ''quicconn.NewConn'' [raw] [])) (\<lambda>conn.
           go_try (go_wrap ''open bidi'' (invoke W (Lib ''quicconn.OpenBidi'' [conn] []))) (\<lambda>bidi.
           go_try (go_wrap ''set deadline'' (set_deadline W bidi)) (\<lambda>_.
           go_try (go_wrap ''write request'' (write_text W bidi ''GET /surface'')) (\<lambda>_.
           go_try (go_wrap ''close send side'' (invoke W (Net (CloseStream bidi)))) (\<lambda>_.
           go_try (go_wrap ''read response'' (read_all W bidi)) (\<lambda>response.
           go_then (println (''bidi: '' @ quote (text_of response)))
           (go_try (go_wrap ''accept uni'' (invoke W (Lib ''quicconn.AcceptUni'' [conn] []))) (\<lambda>uni.
            go_try (go_wrap ''read uni'' (read_all W uni)) (\<lambda>pushed.
            go_then (println (''uni: '' @ quote (text_of pushed)))
            (go_try (go_wrap ''send datagram'' (invoke W (Net (SendDatagram conn (bytes_of ''ping''))))) (\<lambda>_.
             go_try (go_wrap ''receive datagram'' (invoke_get W got_bytes (Net (ReadDatagram conn)))) (\<lambda>dgram.
             go_then (println (''datagram: '' @ quote (text_of dgram)))
             (go_try (go_wrap ''close'' (invoke W (Net (CloseConn conn h3_no_error ''done'')))) (\<lambda>_.
              go_try (go_wrap ''serve'' (quic_serve W cause server)) (\<lambda>_.
              println ''closed: application code 0x100''))))))))))))))))))))"

section \<open>close-codes\<close>

definition close_alpn :: string where
  "close_alpn = ''go-iroh-examples/close-codes/1''"

definition close_accept :: "call world \<Rightarrow> nat \<Rightarrow> unit io" where
  "close_accept W server =
     go_try (invoke W (Net (Accept server))) (\<lambda>conn.
     go_try (invoke W (Net (CloseConn conn 42 ''quota exceeded''))) (\<lambda>_. go_ret ()))"

abbreviation (input) close_bind where
  "close_bind \<equiv> bind_loopback"

definition close_run :: "call world \<Rightarrow> (io_hist \<Rightarrow> nat \<Rightarrow> gerr) \<Rightarrow> unit io" where
  "close_run W cause =
     go_try (close_bind W [WithALPNs [close_alpn]]) (\<lambda>server.
     go_defer (shutdown W server)
       (go_try (close_bind W []) (\<lambda>client.
        go_defer (shutdown W client)
          (go_try (invoke W (Net (Connect client (AddrOf server) close_alpn))) (\<lambda>conn.
           go_defer (invoke W (Net (CloseConn conn 0 [])))
             (go_try (query W got_flag (Os Select)) (\<lambda>closed.
              if \<not> closed then go_try (ctx_error W) (\<lambda>e. go_fail e)
              else
                go_try (close_accept W server) (\<lambda>_.
                go_try (query W (\<lambda>_ h _. cause h conn) (Net (WaitClosed conn))) (\<lambda>e.
                case as_app_error e of
                  None \<Rightarrow> go_fail (Err (''close cause: '' @ err_text e))
                | Some a \<Rightarrow>
                  println_all [''remote: '' @ bool_text (app_remote a), ''code: '' @ digits_of (app_code a),
                    ''reason: '' @ app_reason a])))))))))"

section \<open>What is given back\<close>

lemma owns_send_message: "owns opens_endpoint frees_endpoint {} (send_message W conn b) (\<lambda>_. {})"
  unfolding send_message_def by (rule program_rules | simp)+

lemma owns_dvs_receive: "owns opens_endpoint frees_endpoint {} (dvs_receive W fuel conn) (\<lambda>_. {})"
  unfolding dvs_receive_def dvs_datagram_def dvs_stream_def
  by (rule owns_loop) (rule program_rules owns_read_all | simp split: sum.split)+

lemma owns_dvs_run: "owns opens_endpoint frees_endpoint {} (dvs_run W fuel) (\<lambda>_. {})"
proof -
  have play: "owns opens_endpoint frees_endpoint {} (dvs_play W fuel server conn) (\<lambda>_. {})" for server conn
    unfolding dvs_play_def dvs_send_def by (rule owns_dvs_receive owns_send_message program_rules | simp)+
  show ?thesis
    unfolding dvs_run_def
    by (simp only: Diff_cancel | rule owns_try [OF owns_bind] owns_defer [OF drops_shutdown] play program_rules | simp)+
qed

lemma owns_reflect: "owns opens_endpoint frees_endpoint {} (reflect_datagrams W server n) (\<lambda>_. {})"
proof -
  have loop: "owns opens_endpoint frees_endpoint {} (reflect_loop W conn n) (\<lambda>_. {})" for conn
    by (induction n) (simp add: owns_ret, simp only: reflect_loop.simps, (rule program_rules | assumption | simp)+)
  show ?thesis
    unfolding reflect_datagrams_def by (rule loop program_rules | simp)+
qed

lemmas stream_defs = close_lib_def read_line_def write_text_def set_deadline_def print_text_def datagram_exchange_def

lemma owns_tuning_run: "owns opens_endpoint frees_endpoint {} (tuning_run W) (\<lambda>_. {})"
  unfolding tuning_run_def stream_defs
  by (simp only: Diff_cancel | rule owns_try [OF owns_bind] owns_defer [OF drops_shutdown] owns_reflect program_rules | simp)+

lemma owns_netconn_run: "owns opens_endpoint frees_endpoint {} (netconn_run W) (\<lambda>_. {})"
proof -
  have serve: "owns opens_endpoint frees_endpoint {} (netconn_serve W server) (\<lambda>_. {})" for server
    unfolding netconn_serve_def stream_defs by (rule program_rules owns_read_all | simp)+
  show ?thesis
    unfolding netconn_run_def stream_defs
    by (simp only: Diff_cancel | rule owns_try [OF owns_bind] owns_defer [OF drops_shutdown] serve program_rules | simp)+
qed

lemma owns_listener_run: "owns opens_endpoint frees_endpoint {} (listener_run W) (\<lambda>_. {})"
proof -
  have http: "owns opens_endpoint frees_endpoint {} (listener_http W) (\<lambda>_. {})"
    unfolding listener_http_def http_served_def stream_defs
    by (simp only: Diff_cancel | rule owns_try [OF owns_bind] owns_defer [OF drops_shutdown] program_rules | simp)+
  have "owns opens_endpoint frees_endpoint {} (listener_router W) (\<lambda>_. {})"
    unfolding listener_router_def listener_answer_def stream_defs
    by (simp only: Diff_cancel | rule owns_try [OF owns_bind] owns_defer [OF drops_shutdown] program_rules | simp)+
  with http show ?thesis
    unfolding listener_run_def by (rule owns_try)
qed

lemma owns_quic_run: "owns opens_endpoint frees_endpoint {} (quic_run W cause) (\<lambda>_. {})"
proof -
  have serve: "owns opens_endpoint frees_endpoint {} (quic_serve W cause server) (\<lambda>_. {})" for server
    unfolding quic_serve_def quic_end_def stream_defs by (rule program_rules owns_read_all | simp)+
  show ?thesis
    unfolding quic_run_def stream_defs
    by (simp only: Diff_cancel | rule owns_try [OF owns_bind] owns_defer [OF drops_shutdown] serve program_rules owns_read_all | simp)+
qed

lemma owns_close_run: "owns opens_endpoint frees_endpoint {} (close_run W cause) (\<lambda>_. {})"
  unfolding close_run_def close_accept_def
  by (simp only: Diff_cancel | rule owns_try [OF owns_bind] owns_defer [OF drops_shutdown] program_rules | simp)+

section \<open>Property\<close>

lemma as_app_error_App: "as_app_error e = Some a \<Longrightarrow> \<exists>r c m t. a = AppError r c m t"
  by (induction e) auto

lemma quic_end_code:
  "returns (\<lambda>_. \<exists>h raw r m t. as_app_error (cause h raw) = Some (AppError r h3_no_error m t)) (quic_end W cause raw)"
proof (cases "\<exists>h a. as_app_error (cause h raw) = Some a \<and> app_code a = h3_no_error")
  case True
  then obtain h a where a: "as_app_error (cause h raw) = Some a" "app_code a = h3_no_error" by blast
  from as_app_error_App [OF a(1)] obtain r c m t where "a = AppError r c m t" by blast
  with a have "as_app_error (cause h raw) = Some (AppError r h3_no_error m t)" by simp
  then show ?thesis unfolding returns_def by blast
next
  case False
  then show ?thesis
    by (auto simp: returns_def quic_end_def go_simps split: option.splits if_splits)
qed


definition open_world :: "call world" where
  "open_world = \<lparr>fails = \<lambda>_ _. None, got_bytes = \<lambda>_ _. [], got_text = \<lambda>_ _. [], got_texts = \<lambda>_ _. [],
     got_nat = \<lambda>_ _. 0, got_flag = \<lambda>_ _. True\<rparr>"


end
