(* ===== verification/Graceful.thy ===== *)
theory Graceful
  imports StreamPrograms
begin

text \<open>
  \<^verbatim>\<open>cmd/go-iroh-graceful-shutdown/main.go\<close>: a handler that is asked to finish what it has in
  flight. The handler's \<^verbatim>\<open>Accept\<close> and the calls of its \<^verbatim>\<open>Shutdown\<close> meet at three channels; they
  are a step relation, and what is shown of them holds for every interleaving.
\<close>

section \<open>The handler\<close>

text \<open>How \<^verbatim>\<open>Accept\<close> has ended: the stream could not be read, it was released, its context ended.\<close>

datatype outcome = ReadFailed | Drained | Interrupted

datatype accept_phase = Reading | InFlight | Ended outcome

text \<open>A call of \<^verbatim>\<open>Shutdown\<close>: not made yet, at its \<^verbatim>\<open>select\<close>, returned.\<close>

datatype shut_phase = Idle | Waiting | Back

text \<open>
  The channels are closed or not; \<open>gh_releases\<close> counts how often \<^verbatim>\<open>release\<close> has been closed, which
  may happen once. \<open>gh_ctx\<close> and \<open>gh_shut_ctx\<close> say that the context of the connection, or that of
  the shutdown, has ended.
\<close>

record graceful =
  gh_phase :: accept_phase
  gh_started :: bool
  gh_releases :: nat
  gh_done :: bool
  gh_once :: bool
  gh_shuts :: "shut_phase list"
  gh_ctx :: bool
  gh_shut_ctx :: bool

definition new_graceful :: "nat \<Rightarrow> graceful" where
  "new_graceful n =
     \<lparr>gh_phase = Reading, gh_started = False, gh_releases = 0, gh_done = False, gh_once = False,
      gh_shuts = replicate n Idle, gh_ctx = False, gh_shut_ctx = False\<rparr>"

definition accept_ends :: "outcome \<Rightarrow> graceful \<Rightarrow> graceful" where
  "accept_ends r g = g\<lparr>gh_phase := Ended r, gh_done := True\<rparr>"

text \<open>\<^verbatim>\<open>once.Do\<close>: the first call closes \<^verbatim>\<open>release\<close>.\<close>

definition release_once :: "graceful \<Rightarrow> graceful" where
  "release_once g = (if gh_once g then g else g\<lparr>gh_once := True, gh_releases := Suc (gh_releases g)\<rparr>)"

inductive graceful_step :: "graceful \<Rightarrow> graceful \<Rightarrow> bool" where
  read: "gh_phase g = Reading \<Longrightarrow> graceful_step g (g\<lparr>gh_phase := InFlight, gh_started := True\<rparr>)"
| read_fails: "gh_phase g = Reading \<Longrightarrow> graceful_step g (accept_ends ReadFailed g)"
| released: "gh_phase g = InFlight \<Longrightarrow> 0 < gh_releases g \<Longrightarrow> graceful_step g (accept_ends Drained g)"
| interrupted: "gh_phase g = InFlight \<Longrightarrow> gh_ctx g \<Longrightarrow> graceful_step g (accept_ends Interrupted g)"
| shutdown: "i < length (gh_shuts g) \<Longrightarrow> gh_shuts g ! i = Idle \<Longrightarrow>
    graceful_step g (release_once (g\<lparr>gh_shuts := (gh_shuts g)[i := Waiting]\<rparr>))"
| returns: "i < length (gh_shuts g) \<Longrightarrow> gh_shuts g ! i = Waiting \<Longrightarrow> gh_done g \<or> gh_shut_ctx g \<Longrightarrow>
    graceful_step g (g\<lparr>gh_shuts := (gh_shuts g)[i := Back]\<rparr>)"

text \<open>The contexts may end between any two steps.\<close>

inductive graceful_run_to :: "nat \<Rightarrow> graceful \<Rightarrow> bool" for n where
  start: "graceful_run_to n (new_graceful n)"
| step: "graceful_run_to n g \<Longrightarrow> graceful_step g g' \<Longrightarrow> graceful_run_to n g'"
| ctx_ends: "graceful_run_to n g \<Longrightarrow> graceful_run_to n (g\<lparr>gh_ctx := True\<rparr>)"
| shut_ctx_ends: "graceful_run_to n g \<Longrightarrow> graceful_run_to n (g\<lparr>gh_shut_ctx := True\<rparr>)"

inductive_cases graceful_stepE: "graceful_step g g'"

definition graceful_inv :: "nat \<Rightarrow> graceful \<Rightarrow> bool" where
  "graceful_inv n g \<longleftrightarrow>
     length (gh_shuts g) = n \<and>
     (gh_done g \<longleftrightarrow> (\<exists>r. gh_phase g = Ended r)) \<and>
     gh_releases g = (if gh_once g then 1 else 0) \<and>
     (gh_once g \<longleftrightarrow> (\<exists>s \<in> set (gh_shuts g). s \<noteq> Idle)) \<and>
     (gh_started g \<longleftrightarrow> gh_phase g \<noteq> Reading \<and> gh_phase g \<noteq> Ended ReadFailed) \<and>
     (gh_phase g = Ended Interrupted \<longrightarrow> gh_ctx g) \<and>
     (gh_phase g = Ended Drained \<longrightarrow> gh_once g) \<and>
     (Back \<in> set (gh_shuts g) \<longrightarrow> gh_done g \<or> gh_shut_ctx g)"

text \<open>How far the handler and the calls are from their end.\<close>

fun accept_left :: "accept_phase \<Rightarrow> nat" where
  "accept_left Reading = 2"
| "accept_left InFlight = 1"
| "accept_left (Ended r) = 0"

fun shut_left :: "shut_phase \<Rightarrow> nat" where
  "shut_left Idle = 2"
| "shut_left Waiting = 1"
| "shut_left Back = 0"

definition graceful_left :: "graceful \<Rightarrow> nat" where
  "graceful_left g = accept_left (gh_phase g) + sum_list (map shut_left (gh_shuts g))"

section \<open>Its runs\<close>

lemma set_update_Idle: "i < length xs \<Longrightarrow> y \<noteq> Idle \<Longrightarrow> \<exists>s \<in> set (xs[i := y]). s \<noteq> Idle"
  using set_update_memI by metis

lemma Back_update: "Back \<in> set (xs[i := Waiting]) \<Longrightarrow> Back \<in> set xs"
  using set_update_subset_insert [of xs i Waiting] by auto

lemma graceful_inv_step: "graceful_step g g' \<Longrightarrow> graceful_inv n g \<Longrightarrow> graceful_inv n g'"
proof (induction rule: graceful_step.induct)
  case (shutdown i g)
  then show ?case
    using set_update_Idle [of i "gh_shuts g" Waiting]
    by (auto simp: graceful_inv_def release_once_def dest: Back_update)
next
  case (returns i g)
  then have "Waiting \<in> set (gh_shuts g)" by (metis nth_mem)
  with returns show ?case
    using set_update_Idle [of i "gh_shuts g" Back] by (auto simp: graceful_inv_def)
qed (auto simp: graceful_inv_def accept_ends_def split: if_splits)

lemma graceful_inv_run: "graceful_run_to n g \<Longrightarrow> graceful_inv n g"
proof (induction rule: graceful_run_to.induct)
  case (step g g')
  then show ?case by (blast intro: graceful_inv_step)
qed (auto simp: graceful_inv_def new_graceful_def)

lemma shut_left_update:
  assumes "i < length xs" "shut_left y < shut_left (xs ! i)"
  shows "sum_list (map shut_left (xs[i := y])) < sum_list (map shut_left xs)"
proof -
  have xs: "xs = take i xs @ xs ! i # drop (Suc i) xs" and ys: "xs[i := y] = take i xs @ y # drop (Suc i) xs"
    using assms(1) by (simp_all add: id_take_nth_drop upd_conv_take_nth_drop)
  show ?thesis
    unfolding ys by (subst (2) xs) (simp add: assms(2))
qed

lemma graceful_left_step: "graceful_step g g' \<Longrightarrow> graceful_left g' < graceful_left g"
proof (induction rule: graceful_step.induct)
  case (shutdown i g)
  then show ?case
    using shut_left_update [of i "gh_shuts g" Waiting] by (simp add: graceful_left_def release_once_def)
next
  case (returns i g)
  then show ?case
    using shut_left_update [of i "gh_shuts g" Back] by (simp add: graceful_left_def)
qed (simp_all add: graceful_left_def accept_ends_def)

lemma graceful_stuck:
  assumes "graceful_inv n g" "0 < n" "\<And>g'. \<not> graceful_step g g'"
  shows "(\<exists>r. gh_phase g = Ended r) \<and> set (gh_shuts g) = {Back}"
proof -
  have reading: "gh_phase g \<noteq> Reading"
    using assms(3) by (blast intro: graceful_step.read)
  have called: "gh_shuts g ! i \<noteq> Idle" if "i < n" for i
  proof
    assume "gh_shuts g ! i = Idle"
    with assms(1) that have "graceful_step g (release_once (g\<lparr>gh_shuts := (gh_shuts g)[i := Waiting]\<rparr>))"
      by (intro graceful_step.shutdown) (simp_all add: graceful_inv_def)
    with assms(3) show False by blast
  qed
  have n: "length (gh_shuts g) = n" and once: "gh_once g \<longleftrightarrow> (\<exists>s \<in> set (gh_shuts g). s \<noteq> Idle)"
    and rel: "gh_releases g = (if gh_once g then 1 else 0)"
    using assms(1) by (simp_all only: graceful_inv_def)
  have "gh_shuts g ! 0 \<in> set (gh_shuts g)"
    using n assms(2) by simp
  with called [OF assms(2)] have "gh_once g"
    unfolding once by blast
  then have "0 < gh_releases g"
    by (simp add: rel)
  then have phase: "\<exists>r. gh_phase g = Ended r"
    using reading assms(3) by (cases "gh_phase g") (blast intro: graceful_step.released)+
  then have is_done: "gh_done g" using assms(1) by (simp add: graceful_inv_def)
  have "gh_shuts g ! i \<noteq> Waiting" if "i < n" for i
  proof
    assume "gh_shuts g ! i = Waiting"
    with assms(1) that is_done have "graceful_step g (g\<lparr>gh_shuts := (gh_shuts g)[i := Back]\<rparr>)"
      by (intro graceful_step.returns) (simp_all add: graceful_inv_def)
    with assms(3) show False by blast
  qed
  with called have "gh_shuts g ! i = Back" if "i < n" for i
    using that by (cases "gh_shuts g ! i") auto
  then have "set (gh_shuts g) \<subseteq> {Back}"
    using assms(1) by (auto simp: graceful_inv_def in_set_conv_nth)
  moreover have "gh_shuts g \<noteq> []"
    using assms(1,2) by (auto simp: graceful_inv_def)
  ultimately show ?thesis
    using phase by (cases "gh_shuts g") auto
qed

text \<open>C33. The shutdown drains: however \<^verbatim>\<open>Accept\<close> and any number of calls of \<^verbatim>\<open>Shutdown\<close> interleave, \<^verbatim>\<open>release\<close> is
  closed at most once; a call has returned only if \<^verbatim>\<open>Accept\<close> is over or the shutdown's context
  ended; a request that was in flight has ended by being released unless its own context
  ended; every step brings the end nearer; and where nothing can go on after at least one call
  of \<^verbatim>\<open>Shutdown\<close>, \<^verbatim>\<open>Accept\<close> and all the calls have returned.\<close>

theorem shutdown_drains:
  assumes "graceful_run_to n g"
  shows "gh_releases g \<le> 1 \<and>
    (Back \<in> set (gh_shuts g) \<longrightarrow> (\<exists>r. gh_phase g = Ended r) \<or> gh_shut_ctx g) \<and>
    (gh_started g \<and> gh_done g \<and> \<not> gh_ctx g \<longrightarrow> gh_phase g = Ended Drained) \<and>
    (\<forall>g'. graceful_step g g' \<longrightarrow> graceful_left g' < graceful_left g) \<and>
    (0 < n \<and> (\<forall>g'. \<not> graceful_step g g') \<longrightarrow> (\<exists>r. gh_phase g = Ended r) \<and> set (gh_shuts g) = {Back})"
proof (intro conjI)
  note inv = graceful_inv_run [OF assms]
  show "gh_releases g \<le> 1" "Back \<in> set (gh_shuts g) \<longrightarrow> (\<exists>r. gh_phase g = Ended r) \<or> gh_shut_ctx g"
    using inv by (auto simp: graceful_inv_def)
  show "gh_started g \<and> gh_done g \<and> \<not> gh_ctx g \<longrightarrow> gh_phase g = Ended Drained"
  proof
    assume g: "gh_started g \<and> gh_done g \<and> \<not> gh_ctx g"
    with inv obtain r where "gh_phase g = Ended r" by (auto simp: graceful_inv_def)
    with g inv show "gh_phase g = Ended Drained" by (cases r) (auto simp: graceful_inv_def)
  qed
  show "\<forall>g'. graceful_step g g' \<longrightarrow> graceful_left g' < graceful_left g"
    using graceful_left_step by blast
  show "0 < n \<and> (\<forall>g'. \<not> graceful_step g g') \<longrightarrow> (\<exists>r. gh_phase g = Ended r) \<and> set (gh_shuts g) = {Back}"
    using graceful_stuck [OF inv] by blast
qed

definition drained_state :: graceful where
  "drained_state =
     \<lparr>gh_phase = Ended Drained, gh_started = True, gh_releases = 1, gh_done = True, gh_once = True,
      gh_shuts = [Back], gh_ctx = False, gh_shut_ctx = False\<rparr>"

lemma drained_reached: "graceful_run_to 1 drained_state"
proof -
  let ?g1 = "(new_graceful 1)\<lparr>gh_phase := InFlight, gh_started := True\<rparr>"
  let ?g2 = "release_once (?g1\<lparr>gh_shuts := (gh_shuts ?g1)[0 := Waiting]\<rparr>)"
  let ?g3 = "accept_ends Drained ?g2"
  have "graceful_run_to 1 ?g1"
    by (rule graceful_run_to.step [OF graceful_run_to.start graceful_step.read]) (simp add: new_graceful_def)
  then have "graceful_run_to 1 ?g2"
    by (rule graceful_run_to.step [OF _ graceful_step.shutdown]) (simp_all add: new_graceful_def)
  then have "graceful_run_to 1 ?g3"
    by (rule graceful_run_to.step [OF _ graceful_step.released]) (simp_all add: new_graceful_def release_once_def)
  then have "graceful_run_to 1 (?g3\<lparr>gh_shuts := (gh_shuts ?g3)[0 := Back]\<rparr>)"
    by (rule graceful_run_to.step [OF _ graceful_step.returns]) (simp_all add: new_graceful_def release_once_def accept_ends_def)
  then show ?thesis
    by (simp add: drained_state_def new_graceful_def release_once_def accept_ends_def)
qed

theorem shutdown_drains_witness:
  "graceful_run_to 1 drained_state \<and> gh_releases drained_state \<le> 1 \<and> gh_phase drained_state = Ended Drained"
  using shutdown_drains [OF drained_reached] drained_reached by (simp add: drained_state_def)

section \<open>The program\<close>

definition graceful_alpn :: string where
  "graceful_alpn = ''go-iroh-examples/graceful-shutdown/1''"

text \<open>\<^verbatim>\<open>Accept\<close> as calls; the \<^verbatim>\<open>select\<close> takes the release or the end of the context.\<close>

definition graceful_accept :: "call world \<Rightarrow> nat \<Rightarrow> unit io" where
  "graceful_accept W conn =
     go_try (invoke W (Net (AcceptStream conn))) (\<lambda>s.
     go_try (read_all W s) (\<lambda>_.
     go_try (query W got_flag (Os Select)) (\<lambda>released.
     if released then go_try (invoke W (Net (CloseStream s))) (\<lambda>_. go_ret ())
     else go_try (ctx_error W) (\<lambda>e. go_fail e))))"

definition wait_started :: "call world \<Rightarrow> unit io" where
  "wait_started W =
     go_try (query W got_flag (Os Select)) (\<lambda>started.
     if started then go_ret () else go_try (ctx_error W) (\<lambda>e. go_fail e))"

abbreviation (input) graceful_bind where
  "graceful_bind \<equiv> bind_loopback"

definition graceful_run :: "call world \<Rightarrow> unit io" where
  "graceful_run W =
     go_try (graceful_bind W []) (\<lambda>server.
     go_try (invoke W (Net (NewRouter server [graceful_alpn]))) (\<lambda>router.
     go_try (graceful_bind W []) (\<lambda>client.
     go_defer (shutdown W client)
       (go_try (invoke W (Net (Connect client (AddrOf server) graceful_alpn))) (\<lambda>conn.
        go_defer (invoke W (Net (CloseConn conn 0 [])))
          (go_try (invoke W (Net (OpenStream conn))) (\<lambda>stream.
           go_try (write_text W stream ''drain this request'') (\<lambda>_.
           go_try (invoke W (Net (CloseWrite stream))) (\<lambda>_.
           go_try (wait_started W) (\<lambda>_.
           go_then (println ''handler: request in flight'')
           (go_then (invoke W (Os Cancel))
           (go_then (invoke W (Os WaitDone))
           (go_then (println ''signal: shutdown requested'')
           (go_try (invoke W (Net (RouterShutdown router server))) (\<lambda>_.
            go_then (println ''shutdown: router drained'')
            (go_try (shutdown W server) (\<lambda>_.
             println ''shutdown: endpoint closed'')))))))))))))))))"

text \<open>Nothing defers the shutdown of the server: where the dial fails, the endpoint stays bound.\<close>

lemma graceful_leaves_server:
  "\<exists>W. endpoints_open (snd (graceful_run W [])) = {0}"
proof
  let ?W = "\<lparr>fails = \<lambda>h c. case c of Net (Connect n a p) \<Rightarrow> Some (Err ''unreachable'') | _ \<Rightarrow> None, got_bytes = \<lambda>_ _. [],
    got_text = \<lambda>_ _. [], got_texts = \<lambda>_ _. [], got_nat = \<lambda>_ _. 0, got_flag = \<lambda>_ _. False\<rparr> :: call world"
  show "endpoints_open (snd (graceful_run ?W [])) = {0}"
    by (simp add: graceful_run_def bind_loopback_def shutdown_def go_simps endpoints_open_def)
qed

end
