(* ===== verification/BlobFetch.thy ===== *)
theory BlobFetch
  imports EchoPrograms
begin

text \<open>
  A blob fetched whole, \<^verbatim>\<open>cmd/go-iroh-blobs-transfer/main.go\<close>, and in two ranges of chunks,
  \<^verbatim>\<open>cmd/go-iroh-blobs-ranges/main.go\<close>. The hash tree and the wire protocol are the library's; which
  chunks are asked for, and that nothing is reported unless the pieces make up the payload, are
  the programs'.
\<close>

section \<open>blobs-transfer\<close>

text \<open>\<^verbatim>\<open>NewMemStore\<close> and \<^verbatim>\<open>NewHash\<close> on the payload, and \<^verbatim>\<open>Hash.Short\<close>.\<close>

definition mem_store :: "call world \<Rightarrow> bytes \<Rightarrow> nat io" where
  "mem_store W payload = invoke W (Lib ''blobs.NewMemStore'' [] [text_of payload])"

definition new_hash :: "call world \<Rightarrow> bytes \<Rightarrow> string io" where
  "new_hash W payload = ask W (Lib ''blobs.NewHash'' [] [text_of payload])"

definition hash_short :: "call world \<Rightarrow> string \<Rightarrow> string io" where
  "hash_short W hash = ask W (Lib ''Hash.Short'' [] [hash])"

definition bt_serve :: "call world \<Rightarrow> nat \<Rightarrow> nat \<Rightarrow> unit io" where
  "bt_serve W ep store =
     go_try (invoke W (Net (Accept ep))) (\<lambda>conn.
     go_try (invoke W (Net (AcceptStream conn))) (\<lambda>s.
     go_try (invoke W (Blob (ServeBlob s store))) (\<lambda>_. go_ret ())))"

definition bt_payload :: "call world \<Rightarrow> string \<Rightarrow> bytes io" where
  "bt_payload W file =
     (if file = [] then go_ret (bytes_of (''sendme-style file contents'' @ [CHR 0x0A]))
      else invoke_get W got_bytes (Os (ReadFile file)))"

text \<open>The server's goroutine answers while the client waits for the blob.\<close>

definition bt_fetch :: "call world \<Rightarrow> nat \<Rightarrow> nat \<Rightarrow> nat \<Rightarrow> string \<Rightarrow> bytes io" where
  "bt_fetch W server client store hash =
     go_try (go_wrap ''connect to provider'' (invoke W (Net (Connect client (AddrOf server) ''blobs.ALPN'')))) (\<lambda>conn.
     go_defer (invoke W (Net (CloseConn conn 0 [])))
       (go_try (invoke W (Net (OpenStream conn))) (\<lambda>s.
        go_catch (bt_serve W server store) (\<lambda>served.
        go_try (hash_short W hash) (\<lambda>short.
        go_try (go_wrap (''get blob '' @ short) (invoke_get W got_bytes (Lib ''blobs.GetBlobBytes'' [s] [hash]))) (\<lambda>got.
        go_try (go_wrap ''serve blob'' (go_lift served)) (\<lambda>_.
        go_ret got)))))))"

abbreviation (input) bt_bind where
  "bt_bind \<equiv> bind_loopback"

definition bt_transfer :: "call world \<Rightarrow> string \<Rightarrow> unit io" where
  "bt_transfer W file =
     go_try (bt_payload W file) (\<lambda>payload.
     go_try (mem_store W payload) (\<lambda>store.
     go_try (new_hash W payload) (\<lambda>hash.
     go_try (bt_bind W [WithALPNs [''blobs.ALPN'']]) (\<lambda>server.
     go_defer (shutdown W server)
       (go_try (bt_bind W []) (\<lambda>client.
        go_defer (shutdown W client)
          (go_try (bt_fetch W server client store hash) (\<lambda>got.
           if got \<noteq> payload then go_fail (Err ''fetched blob does not match the served payload'')
           else
             go_try (hash_short W hash) (\<lambda>short.
             println_all [''bytes: '' @ digits_of (length got), ''blake3: '' @ short])))))))))"

abbreviation (input) bt_env where
  "bt_env \<equiv> pe_env"

definition bt_run :: "call world \<Rightarrow> string list \<Rightarrow> unit io" where
  "bt_run W args =
     go_try (bt_env W ''IROH_EXAMPLE_FILE'' []) (\<lambda>dflt.
     go_try (go_lift (parse_flags [(''file'', FString)] [] args)) (\<lambda>(vals, _).
     bt_transfer W (flag_value vals ''file'' dflt)))"

section \<open>blobs-ranges\<close>

definition br_payload :: bytes where
  "br_payload = concat (replicate 2048 (bytes_of (''verified resumable blob transfer'' @ [CHR 0x0A])))"

text \<open>\<open>chunk\<close> is the library's \<^verbatim>\<open>ChunkSize\<close>; the sum wraps at 64 bits.\<close>

definition chunk_count :: "64 word \<Rightarrow> 64 word \<Rightarrow> 64 word" where
  "chunk_count chunk len = (len + chunk - 1) div chunk"

text \<open>
  One connection of \<^verbatim>\<open>serveBlobs\<close>. \<open>errc\<close> is the channel of one place; an error that finds it
  full is dropped.
\<close>

definition serve_one_blob :: "call world \<Rightarrow> nat \<Rightarrow> nat \<Rightarrow> gerr option \<Rightarrow> gerr option io" where
  "serve_one_blob W ep store errc =
     go_catch (invoke W (Net (Accept ep))) (\<lambda>r.
     case r of
       Inl _ \<Rightarrow> go_ret errc
     | Inr conn \<Rightarrow>
       go_catch (invoke W (Net (AcceptStream conn))) (\<lambda>r.
       case r of
         Inl _ \<Rightarrow> go_then (invoke W (Lib ''Conn.Close'' [conn] [])) (go_ret errc)
       | Inr s \<Rightarrow>
         go_catch (invoke W (Blob (ServeBlob s store))) (\<lambda>r.
         go_ret (case r of
             Inl e \<Rightarrow> (case errc of None \<Rightarrow> Some e | Some e' \<Rightarrow> Some e')
           | Inr _ \<Rightarrow> errc))))"

text \<open>
  \<^verbatim>\<open>getRange\<close>, with the server's goroutine in its place. \<open>piece h s (a, b)\<close> is what
  \<^verbatim>\<open>GetBlobRangeBytes\<close> gives for the chunks from \<open>a\<close> up to \<open>b\<close> on stream \<open>s\<close>. The channel
  comes back with the result, whichever it is.
\<close>

type_synonym blob_pieces = "io_hist \<Rightarrow> nat \<Rightarrow> 64 word \<times> 64 word \<Rightarrow> bytes"

definition get_range ::
  "call world \<Rightarrow> blob_pieces \<Rightarrow> nat \<Rightarrow> nat \<Rightarrow> nat \<Rightarrow> string \<Rightarrow> gerr option \<Rightarrow> 64 word \<times> 64 word \<Rightarrow> ((gerr + bytes) \<times> gerr option) io" where
  "get_range W piece server client store hash errc ranges =
     go_catch (go_wrap ''connect provider'' (invoke W (Net (Connect client (AddrOf server) ''blobs.ALPN'')))) (\<lambda>r.
     case r of
       Inl e \<Rightarrow> go_ret (Inl e, errc)
     | Inr conn \<Rightarrow>
       go_defer (invoke W (Net (CloseConn conn 0 [])))
         (go_catch (go_wrap ''open blob stream'' (invoke W (Net (OpenStream conn)))) (\<lambda>r.
          case r of
            Inl e \<Rightarrow> go_ret (Inl e, errc)
          | Inr s \<Rightarrow>
            go_try (serve_one_blob W server store errc) (\<lambda>errc'.
            go_catch (go_wrap ''get range''
              (invoke_get W (\<lambda>_ h _. piece h s ranges) (Lib ''blobs.GetBlobRangeBytes'' [s] [hash]))) (\<lambda>r.
            go_ret (r, errc'))))))"

text \<open>
  \<^verbatim>\<open>preferServerErr\<close>: whether the goroutine has sent by the time the client looks is the
  world's.
\<close>

definition prefer_server_err :: "call world \<Rightarrow> gerr option \<Rightarrow> gerr \<Rightarrow> 'a io" where
  "prefer_server_err W errc e =
     go_try (query W got_flag (Os Select)) (\<lambda>sent.
     case errc of
       None \<Rightarrow> go_fail e
     | Some se \<Rightarrow> go_fail (if sent then Wrapf ''serve blob'' se else e))"

definition or_server_err :: "call world \<Rightarrow> (gerr + bytes) \<times> gerr option \<Rightarrow> (bytes \<Rightarrow> gerr option \<Rightarrow> 'a io) \<Rightarrow> 'a io" where
  "or_server_err W r k =
     (case r of
        (Inl e, errc) \<Rightarrow> prefer_server_err W errc e
      | (Inr b, errc) \<Rightarrow> k b errc)"

definition br_size :: "64 word" where
  "br_size = word_of_nat (length br_payload)"

definition br_fetch :: "call world \<Rightarrow> blob_pieces \<Rightarrow> 64 word \<Rightarrow> nat \<Rightarrow> nat \<Rightarrow> nat \<Rightarrow> string \<Rightarrow> unit io" where
  "br_fetch W piece chunk server client store hash =
     go_try (get_range W piece server client store hash None (0, 2)) (\<lambda>r.
     or_server_err W r (\<lambda>front errc.
     go_try (get_range W piece server client store hash errc (2, chunk_count chunk br_size)) (\<lambda>r.
     or_server_err W r (\<lambda>rest _.
     if front @ rest \<noteq> br_payload then go_fail (Err ''resumed blob does not match the served payload'')
     else
       go_try (hash_short W hash) (\<lambda>short.
       println_all [''bytes: '' @ digits_of (length (front @ rest)), ''blake3: '' @ short,
         ''ranges: prefix + resumed suffix''])))))"

abbreviation (input) br_bind where
  "br_bind \<equiv> bind_loopback"

definition br_run :: "call world \<Rightarrow> blob_pieces \<Rightarrow> 64 word \<Rightarrow> unit io" where
  "br_run W piece chunk =
     go_try (mem_store W br_payload) (\<lambda>store.
     go_try (new_hash W br_payload) (\<lambda>hash.
     go_try (br_bind W [WithALPNs [''blobs.ALPN'']]) (\<lambda>server.
     go_defer (shutdown W server)
       (go_try (br_bind W []) (\<lambda>client.
        go_defer (shutdown W client) (br_fetch W piece chunk server client store hash))))))"

section \<open>What is given back\<close>

lemmas blob_defs = mem_store_def new_hash_def hash_short_def

lemma owns_bt_run: "owns opens_endpoint frees_endpoint {} (bt_run W args) (\<lambda>_. {})"
  unfolding bt_run_def bt_transfer_def bt_fetch_def bt_serve_def bt_payload_def blob_defs pe_env_def
  by (simp only: Diff_cancel | rule owns_try [OF owns_bind] owns_defer [OF drops_shutdown] program_rules | simp)+

lemma owns_get_range: "owns opens_endpoint frees_endpoint {} (get_range W piece server client store hash errc ranges) (\<lambda>_. {})"
  unfolding get_range_def serve_one_blob_def by (rule program_rules | simp)+

lemma owns_or_server_err:
  assumes "\<And>b e. owns opens_endpoint frees_endpoint {} (k b e) own"
  shows "owns opens_endpoint frees_endpoint {} (or_server_err W r k) own"
  unfolding or_server_err_def prefer_server_err_def by (rule program_rules assms | simp)+

lemma owns_br_run: "owns opens_endpoint frees_endpoint {} (br_run W piece chunk) (\<lambda>_. {})"
proof -
  have fetch: "owns opens_endpoint frees_endpoint {} (br_fetch W piece chunk server client store hash) (\<lambda>_. {})" for server client store hash
    unfolding br_fetch_def blob_defs by (rule owns_get_range owns_or_server_err program_rules | simp)+
  show ?thesis
    unfolding br_run_def blob_defs
    by (simp only: Diff_cancel | rule owns_try [OF owns_bind] owns_defer [OF drops_shutdown] fetch program_rules | simp)+
qed

section \<open>The chunks cover the payload\<close>

lemma chunk_count_covers:
  assumes "0 < unat chunk" and "unat len + unat chunk \<le> 2 ^ 64"
  shows "unat (chunk_count chunk len) = (unat len + unat chunk - 1) div unat chunk"
    and "unat len \<le> unat (chunk_count chunk len) * unat chunk"
    and "unat (chunk_count chunk len) * unat chunk < unat len + unat chunk"
proof -
  let ?C = "unat chunk" and ?n = "unat len"
  have less: "unat (chunk - 1) = ?C - 1"
    using assms(1) by (metis One_nat_def unat_minus_one unat_gt_0)
  with assms have "unat len + unat (chunk - 1) < 2 ^ 64" by linarith
  then have "unat (len + (chunk - 1)) = ?n + unat (chunk - 1)"
    by (subst unat_add_lem [symmetric]) simp
  with less assms(1) have "unat (len + chunk - 1) = ?n + ?C - 1"
    by (simp add: add_diff_eq)
  then show count: "unat (chunk_count chunk len) = (?n + ?C - 1) div ?C"
    by (simp add: chunk_count_def unat_div)
  have "(?n + ?C - 1) div ?C * ?C + (?n + ?C - 1) mod ?C = ?n + ?C - 1"
    by (rule div_mult_mod_eq)
  moreover have "(?n + ?C - 1) mod ?C < ?C"
    using assms(1) by simp
  ultimately show "?n \<le> unat (chunk_count chunk len) * ?C" and "unat (chunk_count chunk len) * ?C < ?n + ?C"
    using assms(1) unfolding count by linarith+
qed

lemma length_br_payload: "length br_payload = 67584"
  by (simp add: br_payload_def length_concat sum_list_replicate)

text \<open>The bytes of the chunks from \<open>a\<close> up to \<open>b\<close>, and the two requests of the program.\<close>

definition chunk_bytes :: "64 word \<Rightarrow> bytes \<Rightarrow> 64 word \<times> 64 word \<Rightarrow> bytes" where
  "chunk_bytes chunk p = (\<lambda>(a, b). take ((unat b - unat a) * unat chunk) (drop (unat a * unat chunk) p))"

lemma two_ranges_cover:
  assumes "0 < unat chunk" and "length p + unat chunk \<le> 2 ^ 64" and "2 * unat chunk \<le> length p"
  shows "chunk_bytes chunk p (0, 2) @ chunk_bytes chunk p (2, chunk_count chunk (word_of_nat (length p))) = p"
proof -
  have n: "unat (word_of_nat (length p) :: 64 word) = length p"
    using assms(1,2) by (simp add: unat_of_nat)
  from chunk_count_covers (2) [of chunk "word_of_nat (length p)"] assms
  have "length p \<le> unat (chunk_count chunk (word_of_nat (length p))) * unat chunk"
    by (simp only: n)
  then have "length p - 2 * unat chunk \<le> (unat (chunk_count chunk (word_of_nat (length p))) - 2) * unat chunk"
    by (simp add: diff_mult_distrib)
  then show ?thesis
    using assms(3) by (simp add: chunk_bytes_def)
qed

section \<open>Property\<close>

lemma get_range_gives:
  "returns (\<lambda>(r, _). \<forall>b. r = Inr b \<longrightarrow> (\<exists>h s. b = piece h s ranges)) (get_range W piece server client store hash errc ranges)"
proof -
  let ?Q = "\<lambda>(r, _). \<forall>b. r = Inr b \<longrightarrow> (\<exists>h s. b = piece h s ranges)"
  have answered: "returns ?Q (go_catch (go_wrap p (invoke_get W (\<lambda>_ h _. piece h s ranges) c)) (\<lambda>r. go_ret (r, errc')))" for p s c errc'
    by (auto simp: returns_def go_simps split: option.splits)
  show ?thesis
    unfolding get_range_def
    by (rule answered returns_catch returns_cases returns_try returns_defer | simp add: returns_def go_ret_def)+
qed

lemma quiet_get_range: "quiet (get_range W piece server client store hash errc ranges)"
  unfolding get_range_def serve_one_blob_def by (rule quiet_rules | simp)+

definition pieces_fit :: "blob_pieces \<Rightarrow> 64 word \<Rightarrow> bool" where
  "pieces_fit piece chunk \<longleftrightarrow>
     (\<exists>h s h' s'. piece h s (0, 2) @ piece h' s' (2, chunk_count chunk br_size) = br_payload)"

lemma br_fetch_sound:
  "says (\<lambda>ls. ls = [] \<or> pieces_fit piece chunk) (br_fetch W piece chunk server client store hash)"
  "returns (\<lambda>_. pieces_fit piece chunk) (br_fetch W piece chunk server client store hash)"
proof -
  note gives = get_range_gives [of piece _ W server client store hash]
  have fit: "pieces_fit piece chunk"
    if "\<exists>h s. a = piece h s (0, 2)" "\<exists>h s. b = piece h s (2, chunk_count chunk br_size)" "a @ b = br_payload" for a b
    using that unfolding pieces_fit_def by metis
  show "says (\<lambda>ls. ls = [] \<or> pieces_fit piece chunk) (br_fetch W piece chunk server client store hash)"
    unfolding br_fetch_def or_server_err_def prefer_server_err_def hash_short_def ask_def
    by (rule says_try_returns [OF quiet_get_range _ gives] says_query says_println_all says_cases
        | simp add: says_silent quiet_basic fit)+
  show "returns (\<lambda>_. pieces_fit piece chunk) (br_fetch W piece chunk server client store hash)"
    unfolding br_fetch_def or_server_err_def prefer_server_err_def
    by (rule returns_try_returns [OF gives] returns_cases returns_fail returns_try | simp add: returns_fail returns_any fit)+
qed

lemma quiet_blob_calls:
  "quiet (mem_store W p)" "quiet (new_hash W p)" "quiet (bind_loopback W opts)" "quiet (shutdown W ep)"
  by (simp_all add: blob_defs ask_def bind_loopback_def shutdown_def quiet_basic)

lemma br_run_sound:
  "says (\<lambda>ls. ls = [] \<or> pieces_fit piece chunk) (br_run W piece chunk)"
  "returns (\<lambda>_. pieces_fit piece chunk) (br_run W piece chunk)"
  unfolding br_run_def
  by (rule says_try says_defer br_fetch_sound quiet_blob_calls returns_try returns_defer | simp)+

lemma br_run_prints:
  assumes "\<And>h c. fails W h c = None" and "\<And>h s. piece h s = chunk_bytes chunk br_payload"
    and "0 < unat chunk" "2 * unat chunk \<le> length br_payload"
  shows "\<exists>x. prints (br_run W piece chunk) [''bytes: '' @ digits_of 67584, ''blake3: '' @ x, ''ranges: prefix + resumed suffix'']"
proof -
  have "chunk_bytes chunk br_payload (0, 2) @ chunk_bytes chunk br_payload (2, chunk_count chunk br_size) = br_payload"
    using assms(3,4) unfolding br_size_def by (intro two_ranges_cover) (simp_all add: length_br_payload)
  then show ?thesis
    by (simp add: prints_def br_run_def br_fetch_def get_range_def serve_one_blob_def or_server_err_def prefer_server_err_def
        blob_defs ask_def bind_loopback_def shutdown_def go_simps assms(1,2) length_br_payload)
qed



end
