(* ===== verification/Lookups.thy ===== *)
theory Lookups
  imports EchoPrograms
begin

unbundle bit_operations_syntax

text \<open>
  Publishing an address and finding it again: \<^verbatim>\<open>address-filtering\<close>, \<^verbatim>\<open>pkarr-publish-resolve\<close>,
  \<^verbatim>\<open>dns-resolve\<close>, \<^verbatim>\<open>pkarr-packet\<close>, \<^verbatim>\<open>addresses\<close> and \<^verbatim>\<open>keys\<close>, each \<^verbatim>\<open>cmd/go-iroh-<name>/main.go\<close>.
  Publishers, resolvers and packets are the library's; the filter of address-filtering, the
  counting, the waiting and the checks are the programs'.
\<close>

section \<open>Test servers and publishers as owned objects\<close>

text \<open>What these programs start besides endpoints: an HTTP test server, and a publisher.\<close>

fun opens_service :: "call \<Rightarrow> nat \<Rightarrow> nat set" where
  "opens_service (Lib f xs ss) n =
     (if f \<in> set [''httptest.NewServer'', ''iroh.NewPkarrPublisher'', ''iroh.N0PkarrPublisher''] then {n} else {})"
| "opens_service c n = {}"

fun frees_service :: "call \<Rightarrow> nat set" where
  "frees_service (Lib f xs ss) = (if f \<in> set [''httptest.Server.Close'', ''PkarrPublisher.Close''] then set xs else {})"
| "frees_service c = {}"

definition services_running :: "io_hist \<Rightarrow> nat set" where
  "services_running h = leaked opens_service frees_service h"

interpretation publisher: discipline opens_service frees_service
  "\<lambda>(srv, key). Lib ''iroh.NewPkarrPublisher'' srv [key]" "\<lambda>_ n. Lib ''PkarrPublisher.Close'' [n] []"
  by unfold_locales auto

interpretation n0_publisher: discipline opens_service frees_service
  "\<lambda>key. Lib ''iroh.N0PkarrPublisher'' [] [key]" "\<lambda>_ n. Lib ''PkarrPublisher.Close'' [n] []"
  by unfold_locales auto

interpretation test_server: discipline opens_service frees_service
  "\<lambda>handler. Lib ''httptest.NewServer'' [] [handler]" "\<lambda>_ n. Lib ''httptest.Server.Close'' [n] []"
  by unfold_locales auto

text \<open>\<^verbatim>\<open>httptest.NewServer\<close> with its deferred \<^verbatim>\<open>Close\<close>; it does not fail.\<close>

definition with_server :: "call world \<Rightarrow> string \<Rightarrow> (nat \<Rightarrow> 'a io) \<Rightarrow> 'a io" where
  "with_server W handler body =
     go_try (new_object W (Lib ''httptest.NewServer'' [] [handler])) (\<lambda>srv.
     go_defer (invoke W (Lib ''httptest.Server.Close'' [srv] [])) (body srv))"

definition with_publisher :: "call world \<Rightarrow> nat \<Rightarrow> string \<Rightarrow> (nat \<Rightarrow> 'a io) \<Rightarrow> 'a io" where
  "with_publisher W srv sk body =
     go_try (invoke W (Lib ''iroh.NewPkarrPublisher'' [srv] [sk])) (\<lambda>pub.
     go_defer (invoke W (Lib ''PkarrPublisher.Close'' [pub] [])) (body pub))"

section \<open>address-filtering\<close>

datatype transport_addr =
    is_relay: RelayAddr string
  | is_ip: IPAddr string
  | is_custom: CustomAddr nat bytes

type_synonym addr_filter = "transport_addr list \<Rightarrow> transport_addr list"

fun relay_and_custom :: addr_filter where
  "relay_and_custom [] = []"
| "relay_and_custom (RelayAddr u # as) = RelayAddr u # relay_and_custom as"
| "relay_and_custom (IPAddr a # as) = relay_and_custom as"
| "relay_and_custom (CustomAddr i b # as) = CustomAddr i b # relay_and_custom as"

text \<open>\<^verbatim>\<open>countAddrs\<close>: relay, IP and custom addresses.\<close>

fun count_from :: "nat \<times> nat \<times> nat \<Rightarrow> transport_addr list \<Rightarrow> nat \<times> nat \<times> nat" where
  "count_from n [] = n"
| "count_from (r, i, c) (RelayAddr u # as) = count_from (r + 1, i, c) as"
| "count_from (r, i, c) (IPAddr a # as) = count_from (r, i + 1, c) as"
| "count_from (r, i, c) (CustomAddr j b # as) = count_from (r, i, c + 1) as"

definition count_addrs :: "transport_addr list \<Rightarrow> nat \<times> nat \<times> nat" where
  "count_addrs as = count_from (0, 0, 0) as"

text \<open>
  What the library adds: its two filters, the first answer of a resolver for data that was
  published through a filter (none yet, an error, or addresses), and the data it hands to a
  publisher registered beside a filter.
\<close>

record pkarr_lib =
  af_relay_only :: addr_filter
  af_ip_only :: addr_filter
  af_answer :: "io_hist \<Rightarrow> addr_filter \<Rightarrow> transport_addr list \<Rightarrow> (gerr + transport_addr list) option"
  af_handed :: "io_hist \<Rightarrow> addr_filter \<Rightarrow> transport_addr list \<Rightarrow> transport_addr list list"

text \<open>\<^verbatim>\<open>waitResolve\<close>: the state of the loop is the last error; a tick or the end of the context follows a round.\<close>

definition wait_resolve ::
  "call world \<Rightarrow> nat \<Rightarrow> (io_hist \<Rightarrow> (gerr + transport_addr list) option) \<Rightarrow> nat \<Rightarrow> string \<Rightarrow> transport_addr list io" where
  "wait_resolve W fuel ans res i =
     go_loop fuel (\<lambda>last.
       go_try (query W (\<lambda>_ h _. ans h) (Lib ''PkarrResolver.Resolve'' [res] [i])) (\<lambda>a.
       case a of
         Some (Inr info) \<Rightarrow> go_ret (Inl info)
       | _ \<Rightarrow>
         let last' = (case a of Some (Inl e) \<Rightarrow> Some e | _ \<Rightarrow> last) in
         go_try (query W got_flag (Os Select)) (\<lambda>done.
         if \<not> done then go_ret (Inr last')
         else case last' of
             Some e \<Rightarrow> go_fail (Wrapf (''resolve '' @ i) e)
           | None \<Rightarrow> go_try (ctx_error W) (\<lambda>e. go_fail (Wrapf (''resolve '' @ i) e))))) None"

definition af_publish ::
  "call world \<Rightarrow> pkarr_lib \<Rightarrow> nat \<Rightarrow> nat \<Rightarrow> transport_addr list \<Rightarrow> addr_filter \<Rightarrow> (nat \<times> nat \<times> nat) io" where
  "af_publish W L fuel srv data filt =
     go_try (invoke_get W got_text (Os GenerateKey)) (\<lambda>sk.
     with_publisher W srv sk (\<lambda>pub.
     go_try (new_object W (Lib ''PkarrPublisher.Publish'' [pub] [])) (\<lambda>_.
     go_try (invoke W (Lib ''iroh.NewPkarrResolver'' [srv] [])) (\<lambda>res.
     go_try (query W got_text (Os (PublicID sk))) (\<lambda>i.
     go_try (wait_resolve W fuel (\<lambda>h. af_answer L h filt data) res i) (\<lambda>addrs.
     go_ret (count_addrs addrs)))))))"

record addr_recorder =
  rec_data :: "transport_addr list"

definition recorder_publish :: "transport_addr list \<Rightarrow> addr_recorder \<Rightarrow> addr_recorder" where
  "recorder_publish data r = r\<lparr>rec_data := data\<rparr>"

definition af_data :: "string \<Rightarrow> transport_addr list" where
  "af_data url = [RelayAddr url, IPAddr ''127.0.0.1:4433'', CustomAddr 42 (bytes_of ''memory-link'')]"

definition af_filters :: "pkarr_lib \<Rightarrow> (string \<times> addr_filter) list" where
  "af_filters L = [(''relay only'', af_relay_only L), (''ip only'', af_ip_only L), (''relay plus custom'', relay_and_custom)]"

definition counts_line :: "string \<Rightarrow> nat \<times> nat \<times> nat \<Rightarrow> string" where
  "counts_line name = (\<lambda>(r, i, c).
     name @ '': relay='' @ digits_of r @ '' ip='' @ digits_of i @ '' custom='' @ digits_of c)"

definition af_show :: "call world \<Rightarrow> pkarr_lib \<Rightarrow> nat \<Rightarrow> nat \<Rightarrow> transport_addr list \<Rightarrow> string \<times> addr_filter \<Rightarrow> unit io" where
  "af_show W L fuel srv data = (\<lambda>(name, filt).
     go_try (go_wrap name (af_publish W L fuel srv data filt)) (\<lambda>counts.
     println (counts_line name counts)))"

definition af_services :: "call world \<Rightarrow> pkarr_lib \<Rightarrow> transport_addr list \<Rightarrow> unit io" where
  "af_services W L data =
     go_try (new_object W (Lib ''AddressLookupServices.SetAddrFilter'' [] [])) (\<lambda>_.
     go_try (new_object W (Lib ''AddressLookupServices.AddPublisher'' [] [])) (\<lambda>_.
     go_try (query W (\<lambda>_ h _. fold recorder_publish (af_handed L h (af_ip_only L) data) \<lparr>rec_data = []\<rparr>)
       (Lib ''AddressLookupServices.Publish'' [] [])) (\<lambda>r.
     case count_addrs (rec_data r) of (_, ip, custom) \<Rightarrow>
       println (''lookup services filter: ip='' @ digits_of ip @ '' custom='' @ digits_of custom))))"

definition af_run :: "call world \<Rightarrow> pkarr_lib \<Rightarrow> nat \<Rightarrow> unit io" where
  "af_run W L fuel =
     with_server W ''dnsserver'' (\<lambda>srv.
     go_try (invoke_get W got_text (Os (ParseText ''RelayURL'' ''https://relay.example.com''))) (\<lambda>url.
     go_try (go_each (af_show W L fuel srv (af_data url)) (af_filters L)) (\<lambda>_.
     af_services W L (af_data url))))"

section \<open>pkarr-publish-resolve\<close>

text \<open>The first item of a resolution that is no error, or the last error (or the one before, if there is none).\<close>

fun first_item :: "(gerr + 'a) list \<Rightarrow> gerr option \<Rightarrow> gerr option + 'a" where
  "first_item [] before = Inl before"
| "first_item (Inl e # xs) before = first_item xs (Some e)"
| "first_item (Inr x # xs) before = Inr x"

text \<open>An item: the endpoint's id and its direct paths; \<open>items h\<close> is what a resolution yields.\<close>

definition pp_lookup :: "call world \<Rightarrow> nat \<Rightarrow> (io_hist \<Rightarrow> (gerr + string \<times> string list) list) \<Rightarrow> nat \<Rightarrow> string \<Rightarrow> unit io" where
  "pp_lookup W fuel items res i =
     go_loop fuel (\<lambda>last.
       go_try (query W got_flag (Os CtxErr)) (\<lambda>ended.
       if ended then
         (case last of
            Some e \<Rightarrow> go_fail (Wrapf ''resolve published endpoint'' e)
          | None \<Rightarrow> go_fail (Err ''pkarr resolve timed out''))
       else
         go_try (query W (\<lambda>_ h _. items h) (Lib ''PkarrResolver.Resolve'' [res] [i])) (\<lambda>found.
         case first_item found last of
           Inr (z32, paths) \<Rightarrow>
             go_then (println (''published endpoint: '' @ z32))
             (go_then (println (''resolved direct paths: '' @ show_slice paths))
             (go_ret (Inl ())))
         | Inl last' \<Rightarrow> go_then (new_object W (Lib ''time.Sleep'' [] [''1s''])) (go_ret (Inr last'))))) None"

definition published_addr :: string where
  "published_addr = ''203.0.113.10:4433''"

definition pp_resolve :: "call world \<Rightarrow> nat \<Rightarrow> (io_hist \<Rightarrow> (gerr + string \<times> string list) list) \<Rightarrow> unit io" where
  "pp_resolve W fuel items =
     go_try (invoke_get W got_text (Os GenerateKey)) (\<lambda>sk.
     go_try (invoke W (Lib ''iroh.N0PkarrPublisher'' [] [sk])) (\<lambda>pub.
     go_defer (invoke W (Lib ''PkarrPublisher.Close'' [pub] []))
       (go_try (query W got_text (Os (PublicID sk))) (\<lambda>i.
        go_try (new_object W (Lib ''PkarrPublisher.Publish'' [pub] [i, published_addr])) (\<lambda>_.
        go_try (invoke W (Lib ''iroh.N0PkarrResolver'' [] [])) (\<lambda>res.
        pp_lookup W fuel items res i))))))"

abbreviation (input) pp_env_bool where
  "pp_env_bool \<equiv> env_bool"

text \<open>\<^verbatim>\<open>-live\<close> of the live examples: the flag, or the environment.\<close>

definition with_live :: "call world \<Rightarrow> string \<Rightarrow> string list \<Rightarrow> (bool \<Rightarrow> unit io) \<Rightarrow> unit io" where
  "with_live W name args k =
     go_try (pp_env_bool W name False) (\<lambda>dflt.
     go_try (go_lift (parse_flags [(''live'', FBool)] [] args)) (\<lambda>(vals, _).
     k (the (parse_bool (flag_value vals ''live'' (bool_text dflt))))))"

definition pp_run :: "call world \<Rightarrow> nat \<Rightarrow> (io_hist \<Rightarrow> (gerr + string \<times> string list) list) \<Rightarrow> string list \<Rightarrow> unit io" where
  "pp_run W fuel items args =
     with_live W ''GO_IROH_LIVE_PKARR'' args (\<lambda>live.
     if \<not> live then println ''pass -live or set GO_IROH_LIVE_PKARR=1 to publish to and resolve from the public pkarr relay''
     else pp_resolve W fuel items)"

section \<open>dns-resolve\<close>

record dns_item =
  di_provenance :: string
  di_z32 :: string
  di_ips :: "string list"
  di_relays :: "string list"

text \<open>Only the first item of the lookup counts.\<close>

definition dr_report :: "string \<Rightarrow> (gerr + dns_item) list \<Rightarrow> unit io" where
  "dr_report i items =
     (case items of
        [] \<Rightarrow> println ''no DNS endpoint records found''
      | Inl e # _ \<Rightarrow> go_fail (Wrapf (''resolve endpoint '' @ i) e)
      | Inr item # _ \<Rightarrow>
          println_all [''provenance: '' @ di_provenance item, ''endpoint: '' @ di_z32 item,
            ''direct paths: '' @ show_slice (di_ips item), ''relay paths: '' @ show_slice (di_relays item)])"

abbreviation (input) dr_env where
  "dr_env \<equiv> pe_env"

abbreviation (input) dr_parse_endpoint_id where
  "dr_parse_endpoint_id \<equiv> parse_endpoint_id"

text \<open>\<open>origin\<close> is the library's default origin.\<close>

definition dr_run :: "call world \<Rightarrow> (io_hist \<Rightarrow> (gerr + dns_item) list) \<Rightarrow> string \<Rightarrow> string list \<Rightarrow> unit io" where
  "dr_run W items origin args =
     go_try (dr_env W ''IROH_EXAMPLE_ENDPOINT_ID'' []) (\<lambda>raw_dflt.
     go_try (dr_env W ''IROH_EXAMPLE_DNS_ORIGIN'' origin) (\<lambda>origin_dflt.
     go_try (go_lift (parse_flags [(''endpoint-id'', FString), (''dns-origin'', FString)] [] args)) (\<lambda>(vals, _).
     let raw = flag_value vals ''endpoint-id'' raw_dflt in
     if raw = [] then println ''pass -endpoint-id or set IROH_EXAMPLE_ENDPOINT_ID to a published endpoint id''
     else
       go_try (go_wrap ''parse endpoint id'' (dr_parse_endpoint_id W raw)) (\<lambda>i.
       go_try (new_object W (Lib ''iroh.NewDNSAddressLookup'' [] [flag_value vals ''dns-origin'' origin_dflt])) (\<lambda>lookup.
       go_try (query W (\<lambda>_ h _. items h) (Lib ''DNSAddressLookup.Resolve'' [lookup] [i])) (\<lambda>found.
       dr_report i found))))))"

section \<open>pkarr-packet\<close>

text \<open>\<^verbatim>\<open>tampered[len(tampered)-1] ^= 0x01\<close>. A packet is never empty; Go would panic on one that is.\<close>

definition flip_last :: "bytes \<Rightarrow> bytes" where
  "flip_last b = b[length b - 1 := (b ! (length b - 1)) XOR 1]"

definition err_signature :: gerr where
  "err_signature = Err ''pkarr: invalid signature''"

definition from_txt :: "call world \<Rightarrow> string \<Rightarrow> string list \<Rightarrow> nat io" where
  "from_txt W sk values = invoke W (Lib ''pkarr.FromTxtStrings'' [] (sk # ''_iroh'' # values))"

definition packet_bytes :: "call world \<Rightarrow> nat \<Rightarrow> bytes io" where
  "packet_bytes W packet = query W got_bytes (Lib ''Packet.Bytes'' [packet] [])"

definition from_bytes :: "call world \<Rightarrow> bytes \<Rightarrow> nat io" where
  "from_bytes W b = invoke W (Lib ''pkarr.FromBytes'' [] [text_of b])"

text \<open>The check that the packet parses back to its own bytes and key.\<close>

definition pk_roundtrip :: "call world \<Rightarrow> string \<Rightarrow> bytes \<Rightarrow> unit io" where
  "pk_roundtrip W public wire =
     go_try (go_wrap ''parse packet'' (from_bytes W wire)) (\<lambda>got.
     go_try (packet_bytes W got) (\<lambda>b.
     if b \<noteq> wire then go_fail (Err ''packet does not round-trip through its own bytes'')
     else
       go_try (query W got_flag (Lib ''PublicKey.Equal'' [got] [public])) (\<lambda>same.
       if \<not> same then go_fail (Err ''parsed packet names a different key'')
       else
         go_try (query W got_texts (Lib ''Packet.AllTxtRecords'' [got] [])) (\<lambda>recs.
         println (''verified: '' @ digits_of (length recs) @ '' TXT records'')))))"

text \<open>The tampered packet has to be refused for its signature, and still be readable unchecked.\<close>

definition pk_tamper :: "call world \<Rightarrow> bytes \<Rightarrow> unit io" where
  "pk_tamper W wire =
     go_catch (from_bytes W (flip_last wire)) (\<lambda>r.
     if (case r of Inr _ \<Rightarrow> True | Inl e \<Rightarrow> \<not> err_is err_signature e)
     then go_fail (Err (''tampered packet: got '' @ (case r of Inr _ \<Rightarrow> ''<nil>'' | Inl e \<Rightarrow> err_text e) @
       '', want '' @ err_text err_signature))
     else
       go_try (go_wrap ''unchecked parse of a tampered packet''
         (invoke W (Lib ''pkarr.FromBytesUnchecked'' [] [text_of (flip_last wire)]))) (\<lambda>_.
       println ''tampered: signature rejected, unchecked parse still reads it''))"

definition pk_relay :: "call world \<Rightarrow> nat \<Rightarrow> string \<Rightarrow> bytes \<Rightarrow> unit io" where
  "pk_relay W packet public wire =
     go_try (query W got_bytes (Lib ''Packet.RelayPayload'' [packet] [])) (\<lambda>payload.
     go_try (go_wrap ''parse relay payload'' (invoke W (Lib ''pkarr.FromRelayPayload'' [] [public, text_of payload]))) (\<lambda>relayed.
     go_try (packet_bytes W relayed) (\<lambda>b.
     if b \<noteq> wire then go_fail (Err ''relay payload does not reconstruct the packet'')
     else println (''relay payload: '' @ digits_of (length payload) @ '' bytes, reconstructs the packet''))))"

definition pk_newer :: "call world \<Rightarrow> string \<Rightarrow> nat \<Rightarrow> unit io" where
  "pk_newer W sk packet =
     go_try (go_wrap ''sign second packet'' (from_txt W sk [''relay=https://other.example/''])) (\<lambda>newer.
     go_try (query W got_flag (Lib ''Packet.MoreRecentThan'' [newer, packet] [])) (\<lambda>later.
     if \<not> later then go_fail (Err ''the second packet is not more recent than the first'')
     else println ''supersedes: the later packet wins''))"

definition pk_seed :: bytes where
  "pk_seed =
     [0x9d, 0x61, 0xb1, 0x9d, 0xef, 0xfd, 0x5a, 0x60,
      0xba, 0x84, 0x4a, 0xf4, 0x92, 0xec, 0x2c, 0xc4,
      0x44, 0x49, 0xc5, 0x69, 0x7b, 0x32, 0x69, 0x19,
      0x70, 0x3b, 0xac, 0x03, 0x1c, 0xae, 0x7f, 0x60]"

definition pk_run :: "call world \<Rightarrow> unit io" where
  "pk_run W =
     go_try (ask W (Lib ''key.NewSecretKey'' [] [text_of pk_seed])) (\<lambda>sk.
     go_try (go_wrap ''sign packet'' (from_txt W sk [''relay=https://relay.example/'', ''addrpath=1''])) (\<lambda>packet.
     go_try (packet_bytes W packet) (\<lambda>wire.
     go_try (ask W (Lib ''PublicKey.Short'' [packet] [])) (\<lambda>short.
     go_then (println (''key: '' @ short))
     (go_then (println (''signed: '' @ digits_of (length wire) @ '' bytes''))
     (go_try (query W got_texts (Lib ''Packet.TxtRecords'' [packet] [''_iroh''])) (\<lambda>recs.
      go_then (println (''records: '' @ show_slice recs))
      (go_try (query W got_text (Os (PublicID sk))) (\<lambda>public.
       go_try (pk_roundtrip W public wire) (\<lambda>_.
       go_try (pk_tamper W wire) (\<lambda>_.
       go_try (pk_relay W packet public wire) (\<lambda>_.
       pk_newer W sk packet)))))))))))) "

section \<open>addresses and keys\<close>

definition addresses_run :: "call world \<Rightarrow> unit io" where
  "addresses_run W =
     go_try (invoke_get W got_text (Os GenerateKey)) (\<lambda>sk.
     go_try (go_wrap ''parse relay url'' (invoke_get W got_text (Os (ParseText ''RelayURL'' ''https://relay.example.com'')))) (\<lambda>url.
     go_try (query W got_text (Os (PublicID sk))) (\<lambda>i.
     let addr = WithRelayURL (WithIP (NewAddr i) ''[::1]:4433'') url in
     go_try (query W got_text (Net (ShortID addr))) (\<lambda>short.
     go_then (println (''endpoint: '' @ short))
     (go_try (query W got_texts (Net (IPAddrs addr))) (\<lambda>ips.
      go_then (println (''direct paths: '' @ digits_of (length ips)))
      (go_try (query W got_texts (Net (RelayURLs addr))) (\<lambda>urls.
       go_then (println (''relay paths: '' @ digits_of (length urls)))
       (go_try (query W got_texts (Lib ''EndpointAddr.Addrs'' [] [i])) println_all)))))))))"

definition keys_seed :: bytes where
  "keys_seed = [1, 2, 3] @ replicate 29 0"

definition keys_run :: "call world \<Rightarrow> unit io" where
  "keys_run W =
     go_try (ask W (Lib ''key.NewSecretKey'' [] [text_of keys_seed])) (\<lambda>secret.
     go_try (query W got_text (Os (PublicID secret))) (\<lambda>pub.
     go_try (query W got_bytes (Lib ''SecretKey.Sign'' [] [secret, ''hello go-iroh''])) (\<lambda>sig.
     go_try (ask W (Lib ''EndpointID.Short'' [] [pub])) (\<lambda>short.
     go_then (println (''endpoint id: '' @ short))
     (go_try (ask W (Lib ''EndpointID.Z32'' [] [pub])) (\<lambda>z32.
      go_then (println (''z32: '' @ z32))
      (go_catch (invoke W (Lib ''PublicKey.Verify'' [] [pub, ''hello go-iroh'', text_of sig])) (\<lambda>r.
       say_bool ''signature valid:'' (case r of Inr _ \<Rightarrow> True | Inl _ \<Rightarrow> False)))))))))"

section \<open>What is given back\<close>

lemma owns_with_server:
  assumes "\<And>s. owns opens_service frees_service {} (body s) own"
  shows "owns opens_service frees_service {} (with_server W handler body) own"
proof -
  have new: "owns opens_service frees_service {} (new_object W (Lib ''httptest.NewServer'' [] [handler])) (\<lambda>n. {n})"
    by (auto simp: owns_def new_object_def query_def)
  show ?thesis
    unfolding with_server_def
  proof (rule owns_try [OF new])
    show "owns opens_service frees_service {n} (go_defer (invoke W (Lib ''httptest.Server.Close'' [n] [])) (body n)) own" for n
      by (rule owns_defer [OF drops_invoke]) (simp_all add: assms)
  qed
qed

lemma owns_with_publisher:
  assumes "\<And>s. owns opens_service frees_service {} (body s) own"
  shows "owns opens_service frees_service {} (with_publisher W srv sk body) own"
  unfolding with_publisher_def using publisher.owns_bracket [OF assms, of W "([srv], sk)" W] by simp

lemma owns_wait_resolve:
  assumes "\<And>c n. opens (Os c) n = {}" and "\<And>xs ss n. opens (Lib ''PkarrResolver.Resolve'' xs ss) n = {}"
  shows "owns opens frees {} (wait_resolve W fuel ans res i) (\<lambda>_. {})"
  unfolding wait_resolve_def ctx_error_def
  by (rule owns_loop) (rule owns_quiet_try owns_query owns_cases owns_ret owns_fail assms owns_let | simp)+

lemmas service_rules = owns_with_server owns_with_publisher owns_wait_resolve owns_quiet_try owns_quiet_catch owns_wrap
  quiet_then owns_defer [where F = "{}"] owns_println owns_println_all owns_new_object owns_ask owns_ctx_error owns_query owns_invoke
  owns_invoke_get owns_cases owns_ret owns_lift owns_fail owns_each

lemma owns_af_run: "owns opens_service frees_service {} (af_run W L fuel) (\<lambda>_. {})"
proof -
  have shown: "owns opens_service frees_service {} (af_show W L fuel srv data x) (\<lambda>_. {})" for srv data x
    unfolding af_show_def af_publish_def by (rule service_rules | simp add: case_prod_beta)+
  show ?thesis
    unfolding af_run_def af_services_def by (rule service_rules shown | simp)+
qed

lemma owns_pp_run: "owns opens_service frees_service {} (pp_run W fuel items args) (\<lambda>_. {})"
proof -
  have loop: "owns opens_service frees_service {} (pp_lookup W fuel items res i) (\<lambda>_. {})" for res i
    unfolding pp_lookup_def by (rule owns_loop) (rule service_rules | simp)+
  have body: "owns opens_service frees_service {}
      (go_try (query W got_text (Os (PublicID sk))) (\<lambda>i.
        go_try (new_object W (Lib ''PkarrPublisher.Publish'' [pub] [i, published_addr])) (\<lambda>_.
        go_try (invoke W (Lib ''iroh.N0PkarrResolver'' [] [])) (\<lambda>res.
        pp_lookup W fuel items res i)))) (\<lambda>_. {})" for sk pub
    by (rule loop service_rules | simp)+
  have resolve: "owns opens_service frees_service {} (pp_resolve W fuel items) (\<lambda>_. {})"
    unfolding pp_resolve_def
    by (rule owns_quiet_try [OF owns_invoke_get] n0_publisher.owns_bracket body | simp)+
  show ?thesis
    unfolding pp_run_def with_live_def env_bool_def pe_env_def by (rule resolve service_rules | simp)+
qed

section \<open>Counting and filtering\<close>

lemma relay_and_custom_filter: "relay_and_custom as = filter (\<lambda>a. \<not> is_ip a) as"
  by (induction as rule: relay_and_custom.induct) auto

lemma count_from_counts:
  "count_from (r, i, c) as =
     (r + length (filter is_relay as), i + length (filter is_ip as), c + length (filter is_custom as))"
  by (induction "(r, i, c)" as arbitrary: r i c rule: count_from.induct) auto

lemma count_addrs_counts:
  "count_addrs as = (length (filter is_relay as), length (filter is_ip as), length (filter is_custom as))"
  by (simp add: count_addrs_def count_from_counts)

lemma flip_last_changes:
  assumes "b \<noteq> []"
  shows "length (flip_last b) = length b" and "butlast (flip_last b) = butlast b"
    and "flip_last b \<noteq> b" and "flip_last (flip_last b) = b"
proof -
  have "x XOR 1 \<noteq> x" for x :: byte
  proof
    assume "x XOR 1 = x"
    then have "x XOR (x XOR 1) = x XOR x" by (rule arg_cong)
    then show False by (simp add: xor.assoc [symmetric])
  qed
  from this [of "b ! (length b - 1)"] assms show "flip_last b \<noteq> b"
    by (simp add: flip_last_def list_update_same_conv)
  show "length (flip_last b) = length b" by (simp add: flip_last_def)
  show "butlast (flip_last b) = butlast b" by (simp add: flip_last_def butlast_list_update)
  show "flip_last (flip_last b) = b"
    using assms by (simp add: flip_last_def xor.assoc)
qed

section \<open>Property\<close>

text \<open>What the documentation of the library says of its filters and of resolving what was published.\<close>

definition honest_pkarr :: "pkarr_lib \<Rightarrow> bool" where
  "honest_pkarr L \<longleftrightarrow>
     af_relay_only L = filter is_relay \<and> af_ip_only L = filter is_ip \<and>
     (\<forall>h f d as. af_answer L h f d = Some (Inr as) \<longrightarrow> as = f d) \<and> (\<forall>h f d. af_handed L h f d = [f d])"

definition filter_lines :: "string list" where
  "filter_lines =
     [''relay only: relay=1 ip=0 custom=0'', ''ip only: relay=0 ip=1 custom=0'',
      ''relay plus custom: relay=1 ip=0 custom=1'', ''lookup services filter: ip=1 custom=0'']"

lemma wait_resolve_answers:
  "returns (\<lambda>as. \<exists>h. ans h = Some (Inr as)) (wait_resolve W fuel ans res i)"
proof -
  let ?Q = "\<lambda>as. \<exists>h. ans h = Some (Inr as)"
  have round: "returns (\<lambda>r. case r of Inl as \<Rightarrow> ?Q as | Inr _ \<Rightarrow> True)
     (go_try (query W (\<lambda>_ h _. ans h) (Lib ''PkarrResolver.Resolve'' [res] [i])) (\<lambda>a.
       case a of
         Some (Inr info) \<Rightarrow> go_ret (Inl info)
       | _ \<Rightarrow>
         let last' = (case a of Some (Inl e) \<Rightarrow> Some e | _ \<Rightarrow> prev) in
         go_try (query W got_flag (Os Select)) (\<lambda>done.
         if \<not> done then go_ret (Inr last')
         else case last' of
             Some e \<Rightarrow> go_fail (Wrapf (''resolve '' @ i) e)
           | None \<Rightarrow> go_try (ctx_error W) (\<lambda>e. go_fail (Wrapf (''resolve '' @ i) e)))))" for prev
    by (auto simp: returns_def go_simps ctx_error_def Let_def split: option.splits sum.splits if_splits)
  show ?thesis
    unfolding wait_resolve_def by (rule returns_loop [OF round])
qed

lemma quiet_wait_resolve: "quiet (wait_resolve W fuel ans res i)"
  unfolding wait_resolve_def by (rule quiet_loop) (rule quiet_rules | simp add: ctx_error_def Let_def quiet_basic)+

lemma quiet_af_publish: "quiet (af_publish W L fuel srv data filt)"
  unfolding af_publish_def with_publisher_def
  by (rule quiet_wait_resolve quiet_rules | simp add: new_object_def quiet_basic)+

lemma af_publish_counts:
  assumes "honest_pkarr L"
  shows "returns (\<lambda>n. n = count_addrs (filt data)) (af_publish W L fuel srv data filt)"
proof -
  have "as = filt data" if "\<exists>h. af_answer L h filt data = Some (Inr as)" for as
    using that assms by (auto simp: honest_pkarr_def)
  then show ?thesis
    unfolding af_publish_def with_publisher_def
    by (intro returns_try returns_defer returns_try_returns [OF wait_resolve_answers])
      (auto simp: returns_def go_ret_def)
qed

lemma af_show_tells:
  assumes "honest_pkarr L"
  shows "tells (\<lambda>_ ls. ls = [counts_line name (count_addrs (filt data))]) (af_show W L fuel srv data (name, filt))"
  unfolding af_show_def
  by (simp, rule tells_try [OF tells_wrap [OF tells_returns [OF quiet_af_publish af_publish_counts [OF assms]]]])
    (auto intro: tells_println)

lemma small_digits: "digits_of 0 = ''0''" "digits_of 1 = ''1''" "digits_of (Suc 0) = ''1''"
  by code_simp+

lemma af_run_tells:
  assumes "honest_pkarr L"
  shows "tells (\<lambda>_ ls. ls = filter_lines) (af_run W L fuel)"
proof -
  have filters: "af_relay_only L (af_data u) = [RelayAddr u]" "af_ip_only L (af_data u) = [IPAddr ''127.0.0.1:4433'']"
    "af_handed L h f d = [f d]" for u h f d
    using assms by (simp_all add: honest_pkarr_def af_data_def)
  have services: "tells (\<lambda>_ ls. ls = [''lookup services filter: ip=1 custom=0'']) (af_services W L (af_data u))" for u
    by (auto simp: af_services_def tells_def go_simps new_object_def filters recorder_publish_def count_addrs_def small_digits)
  have each: "tells (\<lambda>_ ls. ls = take 3 filter_lines) (go_each (af_show W L fuel srv (af_data u)) (af_filters L))" for srv u
  proof -
    have lines: "counts_line ''relay only'' (count_addrs (af_relay_only L (af_data u))) = ''relay only: relay=1 ip=0 custom=0''"
      "counts_line ''ip only'' (count_addrs (af_ip_only L (af_data u))) = ''ip only: relay=0 ip=1 custom=0''"
      by (simp_all add: filters count_addrs_def counts_line_def small_digits)
    have own_line: "counts_line ''relay plus custom'' (count_addrs (relay_and_custom (af_data u))) = ''relay plus custom: relay=1 ip=0 custom=1''"
      by (simp add: af_data_def count_addrs_def counts_line_def small_digits)
    show ?thesis
      unfolding af_filters_def go_each.simps
      by (rule tells_try [OF af_show_tells [OF assms]] tells_basic
          | simp add: lines own_line filter_lines_def)+
  qed
  show ?thesis
    unfolding af_run_def with_server_def
    by (intro tells_try_quiet tells_defer tells_try [OF each])
      (auto simp: new_object_def quiet_basic filter_lines_def intro: services)
qed

text \<open>Where no call fails and an answer is there, the program returns.\<close>

lemma succeeds_calls:
  assumes "\<And>h c. fails W h c = None"
  shows "succeeds (invoke W c)" "succeeds (invoke_get W get c)" "succeeds m \<Longrightarrow> succeeds (go_defer d m)" "succeeds n \<Longrightarrow> succeeds (go_wrap p n)"
proof -
  show "succeeds (invoke W c)" and "succeeds (invoke_get W get c)"
    using assms by (simp_all add: succeeds_def go_simps)
  show "succeeds (go_defer d m)" if m: "succeeds m"
    unfolding succeeds_def
  proof
    fix h
    from m obtain x h' where "m h = (Inr x, h')" unfolding succeeds_def by blast
    then show "\<exists>x h'. go_defer d m h = (Inr x, h')" by (simp add: go_defer_def)
  qed
  show "succeeds (go_wrap p n)" if n: "succeeds n"
    unfolding succeeds_def
  proof
    fix h
    from n obtain x h' where "n h = (Inr x, h')" unfolding succeeds_def by blast
    then show "\<exists>x h'. go_wrap p n h = (Inr x, h')" by (simp add: go_wrap_def)
  qed
qed

lemma af_run_succeeds:
  assumes "\<And>h c. fails W h c = None" and "\<And>h f d. af_answer L h f d = Some (Inr (f d))" and "0 < fuel"
  shows "succeeds (af_run W L fuel)"
proof -
  obtain n where n: "fuel = Suc n" using assms(3) by (cases fuel) auto
  have wait: "succeeds (wait_resolve W fuel (\<lambda>h. af_answer L h f d) res i)" for f d res i
    by (simp add: n wait_resolve_def succeeds_def go_simps assms(2))
  note rules = succeeds_calls [OF assms(1)] succeeds_rules wait
  have publish: "succeeds (af_publish W L fuel srv d f)" for srv d f
    unfolding af_publish_def with_publisher_def new_object_def by (intro rules)
  have shown: "succeeds (af_show W L fuel srv d x)" for srv d x
    unfolding af_show_def case_prod_beta by (intro rules publish)
  have services: "succeeds (af_services W L d)" for d
    unfolding af_services_def new_object_def case_prod_beta by (intro rules)
  show ?thesis
    unfolding af_run_def with_server_def new_object_def af_filters_def go_each.simps
    by (intro rules shown services)
qed

text \<open>The filters keep what they name: the repository's \<^verbatim>\<open>relayAndCustom\<close> drops exactly the IP addresses,
  in order, and \<^verbatim>\<open>countAddrs\<close> counts every address once, by its kind. With a library whose filters
  and resolver do what their documentation says, whenever address-filtering returns without an
  error it has printed, for one address of each kind, exactly the counts each filter leaves,
  however often it had to ask and whatever else the network did; and where no call fails and the
  first answer is there, it does return.\<close>

lemma filters_keep_their_kind:
  assumes "honest_pkarr L"
  shows "relay_and_custom as = filter (\<lambda>a. \<not> is_ip a) as \<and>
    count_addrs as = (length (filter is_relay as), length (filter is_ip as), length (filter is_custom as)) \<and>
    (fst (af_run W L fuel []) = Inr () \<longrightarrow> stdout_of (snd (af_run W L fuel [])) = filter_lines) \<and>
    (0 < fuel \<and> (\<forall>h c. fails W h c = None) \<and> (\<forall>h f d. af_answer L h f d = Some (Inr (f d))) \<longrightarrow>
      fst (af_run W L fuel []) = Inr ())"
proof (intro conjI impI)
  assume "0 < fuel \<and> (\<forall>h c. fails W h c = None) \<and> (\<forall>h f d. af_answer L h f d = Some (Inr (f d)))"
  then have "succeeds (af_run W L fuel)"
    by (intro af_run_succeeds) auto
  then show "fst (af_run W L fuel []) = Inr ()"
    unfolding succeeds_def by (metis fst_conv old.unit.exhaust)
qed (auto simp: relay_and_custom_filter count_addrs_counts dest: tells_run [OF af_run_tells [OF assms]])

definition pkarr_example :: pkarr_lib where
  "pkarr_example = \<lparr>af_relay_only = filter is_relay, af_ip_only = filter is_ip,
     af_answer = \<lambda>_ f d. Some (Inr (f d)), af_handed = \<lambda>_ f d. [f d]\<rparr>"

lemma filters_keep_their_kind_witness:
  "fst (af_run carrying pkarr_example 1 []) = Inr () \<and>
   stdout_of (snd (af_run carrying pkarr_example 1 [])) = filter_lines \<and>
   relay_and_custom [IPAddr ''a'', CustomAddr 1 [], RelayAddr ''r''] = [CustomAddr 1 [], RelayAddr ''r'']"
proof -
  have "honest_pkarr pkarr_example" by (simp add: honest_pkarr_def pkarr_example_def)
  note this = filters_keep_their_kind [OF this, of _ carrying 1]
  from this [of "[IPAddr ''a'', CustomAddr 1 [], RelayAddr ''r'']"] show ?thesis
    by (auto simp: carrying_def pkarr_example_def)
qed

end
