(* ===== verification/Durations.thy ===== *)
theory Durations
  imports GoStrings
begin

text \<open>
  Go's \<^verbatim>\<open>time.Duration\<close> as the programs use it: a signed 64-bit number of nanoseconds, rounded to a
  multiple with \<^verbatim>\<open>Round\<close> and written with \<^verbatim>\<open>String\<close>. Used by \<^verbatim>\<open>cmd/go-iroh-relay-limits\<close> (\<^verbatim>\<open>round\<close>),
  \<^verbatim>\<open>cmd/go-iroh-doctor\<close> (the latencies) and \<^verbatim>\<open>cmd/go-iroh-mdns-discovery\<close>.
\<close>

section \<open>Rounding\<close>

type_synonym duration = int

definition min_duration :: duration where "min_duration = - (2 ^ 63)"
definition max_duration :: duration where "max_duration = 2 ^ 63 - 1"

definition is_duration :: "int \<Rightarrow> bool" where
  "is_duration d \<longleftrightarrow> min_duration \<le> d \<and> d \<le> max_duration"

text \<open>Signed 64-bit arithmetic wraps.\<close>

definition wrap64 :: "int \<Rightarrow> int" where
  "wrap64 i = (i + 2 ^ 63) mod 2 ^ 64 - 2 ^ 63"

lemma wrap64_id: "is_duration i \<Longrightarrow> wrap64 i = i"
  by (simp add: wrap64_def is_duration_def min_duration_def max_duration_def)

lemma wrap64_over: "max_duration < i \<Longrightarrow> i \<le> max_duration + 2 ^ 64 \<Longrightarrow> wrap64 i = i - 2 ^ 64"
  by (simp add: wrap64_def max_duration_def mod_pos_neg_trivial)
    (smt (verit) mod_pos_pos_trivial mod_add_self2 minus_mod_self2)

lemma wrap64_under: "i < min_duration \<Longrightarrow> min_duration - 2 ^ 64 \<le> i \<Longrightarrow> wrap64 i = i + 2 ^ 64"
  by (simp add: wrap64_def min_duration_def)
    (smt (verit) mod_pos_pos_trivial mod_add_self2)

text \<open>\<^verbatim>\<open>Duration.Round\<close>: to the nearest multiple, halves away from zero, saturating.\<close>

definition round_to :: "duration \<Rightarrow> duration \<Rightarrow> duration" where
  "round_to d m =
     (if m \<le> 0 then d
      else if d < 0 then
        (let r = (- d) mod m in
         if 2 * r < m then d + r
         else let d1 = wrap64 (d - m + r) in if d1 < d then d1 else min_duration)
      else
        (let r = d mod m in
         if 2 * r < m then d - r
         else let d1 = wrap64 (d + m - r) in if d < d1 then d1 else max_duration))"

definition millisecond :: duration where "millisecond = 1000000"

definition round_ms :: "duration \<Rightarrow> duration" where
  "round_ms d = round_to d millisecond"

lemma round_to_multiple:
  assumes "is_duration d" and "0 < m" and "is_duration m"
  shows "is_duration (round_to d m)"
    and "m dvd round_to d m \<and> 2 * \<bar>round_to d m - d\<bar> \<le> m \<or>
         round_to d m = max_duration \<and> max_duration - d < m \<or> round_to d m = min_duration \<and> d - min_duration < m"
proof -
  let ?q = "round_to d m"
  have "is_duration ?q \<and> (m dvd ?q \<and> 2 * \<bar>?q - d\<bar> \<le> m \<or>
         ?q = max_duration \<and> max_duration - d < m \<or> ?q = min_duration \<and> d - min_duration < m)"
  proof (cases "d < 0")
    case True
    define r where "r = (- d) mod m"
    define k where "k = (- d) div m"
    have r: "0 \<le> r" "r < m" using assms(2) by (simp_all add: r_def)
    have "k * m + r = - d" by (simp add: k_def r_def)
    then have d: "d = - (k * m) - r" by linarith
    have down: "d + r = (- k) * m" "d - m + r = (- k - 1) * m" by (simp_all add: d algebra_simps)
    have "r \<le> - d" unfolding r_def using True assms(2) by (intro zmod_le_nonneg_dividend) simp
    show ?thesis
    proof (cases "2 * r < m")
      case half: True
      with True assms(2) have q: "?q = d + r" by (simp add: round_to_def r_def Let_def)
      have "m dvd ?q" unfolding q down by simp
      moreover have "is_duration ?q"
        using assms(1) r \<open>r \<le> - d\<close> by (simp add: q is_duration_def max_duration_def min_duration_def)
      ultimately show ?thesis using q half r by simp
    next
      case half: False
      with True assms(2) have q: "?q = (let d1 = wrap64 (d - m + r) in if d1 < d then d1 else min_duration)"
        by (simp add: round_to_def r_def Let_def)
      show ?thesis
      proof (cases "min_duration \<le> d - m + r")
        case inside: True
        with True r have "is_duration (d - m + r)" by (simp add: is_duration_def max_duration_def)
        with q r have q: "?q = d - m + r" by (simp add: wrap64_id Let_def)
        have "m dvd ?q" unfolding q down by simp
        with \<open>is_duration (d - m + r)\<close> q half r show ?thesis by simp
      next
        case outside: False
        have "wrap64 (d - m + r) = d - m + r + 2 ^ 64"
          using outside assms(1,3) r by (intro wrap64_under) (simp_all add: is_duration_def min_duration_def max_duration_def)
        moreover have "\<not> d - m + r + 2 ^ 64 < d"
          using assms(3) r by (simp add: is_duration_def max_duration_def)
        ultimately have "?q = min_duration" by (simp add: q)
        with outside r show ?thesis by (simp add: is_duration_def min_duration_def max_duration_def)
      qed
    qed
  next
    case False
    define r where "r = d mod m"
    define k where "k = d div m"
    have r: "0 \<le> r" "r < m" using assms(2) by (simp_all add: r_def)
    have d: "d = k * m + r" by (simp add: k_def r_def)
    have up: "d - r = k * m" "d + m - r = (k + 1) * m" by (simp_all add: d algebra_simps)
    have "r \<le> d" unfolding r_def using False assms(2) by (intro zmod_le_nonneg_dividend) simp
    show ?thesis
    proof (cases "2 * r < m")
      case half: True
      with False assms(2) have q: "?q = d - r" by (simp add: round_to_def r_def Let_def)
      have "m dvd ?q" unfolding q up by simp
      moreover have "is_duration ?q"
        using assms(1) r \<open>r \<le> d\<close> by (simp add: q is_duration_def max_duration_def min_duration_def)
      ultimately show ?thesis using q half r by simp
    next
      case half: False
      with False assms(2) have q: "?q = (let d1 = wrap64 (d + m - r) in if d < d1 then d1 else max_duration)"
        by (simp add: round_to_def r_def Let_def)
      show ?thesis
      proof (cases "d + m - r \<le> max_duration")
        case inside: True
        with False r have "is_duration (d + m - r)" by (simp add: is_duration_def min_duration_def)
        with q r have q: "?q = d + m - r" by (simp add: wrap64_id Let_def)
        have "m dvd ?q" unfolding q up by simp
        with \<open>is_duration (d + m - r)\<close> q half r show ?thesis by simp
      next
        case outside: False
        have "wrap64 (d + m - r) = d + m - r - 2 ^ 64"
          using outside assms(1,3) r by (intro wrap64_over) (simp_all add: is_duration_def min_duration_def max_duration_def)
        moreover have "\<not> d < d + m - r - 2 ^ 64"
          using assms(3) r by (simp add: is_duration_def max_duration_def)
        ultimately have "?q = max_duration" by (simp add: q)
        with outside r show ?thesis by (simp add: is_duration_def min_duration_def max_duration_def)
      qed
    qed
  qed
  then show "is_duration ?q" and "m dvd ?q \<and> 2 * \<bar>?q - d\<bar> \<le> m \<or>
         ?q = max_duration \<and> max_duration - d < m \<or> ?q = min_duration \<and> d - min_duration < m"
    by simp_all
qed

section \<open>Text\<close>

definition strip_zeros :: "string \<Rightarrow> string" where
  "strip_zeros s = rev (dropWhile (\<lambda>c. c = CHR ''0'') (rev s))"

text \<open>\<open>n / 10^p\<close> with its decimals, trailing zeros left out.\<close>

definition decimal :: "nat \<Rightarrow> nat \<Rightarrow> string" where
  "decimal n p =
     digits_of (n div 10 ^ p) @
     (let ds = digits_of (n mod 10 ^ p);
          f = strip_zeros (replicate (p - length ds) (CHR ''0'') @ ds) in
      if f = [] then [] else CHR ''.'' # f)"

text \<open>\<^verbatim>\<open>Duration.String\<close>; the micro sign is two bytes.\<close>

definition duration_text :: "duration \<Rightarrow> string" where
  "duration_text d =
     (let u = nat \<bar>d\<bar>; s = u div 10 ^ 9 in
      (if d < 0 then ''-'' else []) @
      (if u = 0 then ''0s''
       else if u < 1000 then digits_of u @ ''ns''
       else if u < 10 ^ 6 then decimal u 3 @ [char_of (0xC2 :: nat), char_of (0xB5 :: nat), CHR ''s'']
       else if u < 10 ^ 9 then decimal u 6 @ ''ms''
       else
         (if 3600 \<le> s then digits_of (s div 3600) @ ''h'' else []) @
         (if 60 \<le> s then digits_of (s div 60 mod 60) @ ''m'' else []) @
         decimal (s mod 60 * 10 ^ 9 + u mod 10 ^ 9) 9 @ ''s''))"

lemma digit_chars:
  "char_of (48 :: nat) = CHR ''0''" "char_of (49 :: nat) = CHR ''1''" "char_of (50 :: nat) = CHR ''2''" "char_of (51 :: nat) = CHR ''3''"
  "char_of (52 :: nat) = CHR ''4''" "char_of (53 :: nat) = CHR ''5''"
  by code_simp+

lemma zeros: "replicate (numeral k) c = c # replicate (pred_numeral k) c"
  by (simp add: numeral_eq_Suc)

lemma duration_texts:
  "duration_text 0 = ''0s''" "duration_text 250000000 = ''250ms''" "duration_text 15000000000 = ''15s''"
  "duration_text (-1500000000) = ''-1.5s''" "duration_text 5425000000000 = ''1h30m25s''" "duration_text 1120000 = ''1.12ms''"
  by (simp_all add: duration_text_def decimal_def strip_zeros_def digits_of.simps digit_chars Let_def zeros)

end
