(* ===== verification/Relays.thy ===== *)
theory Relays
  imports Lookups Durations WorkQueue
begin

text \<open>
  The examples that run a relay in the process or ask a public one: \<^verbatim>\<open>local-infra\<close>,
  \<^verbatim>\<open>path-upgrade\<close>, \<^verbatim>\<open>relay-limits\<close>, \<^verbatim>\<open>doctor\<close>, \<^verbatim>\<open>net-report\<close> and \<^verbatim>\<open>relay-online\<close>, each
  \<^verbatim>\<open>cmd/go-iroh-<name>/main.go\<close>. The relay, its rate limit and the paths of a connection are the
  library's; the waiting, the order of opening and closing, and the reports are the programs'.
\<close>

section \<open>What the library tells about relays and paths\<close>

record net_report =
  nr_udp :: bool
  nr_udp4 :: bool
  nr_udp6 :: bool
  nr_global4 :: string
  nr_global6 :: string
  nr_preferred :: string
  nr_latencies :: "(string \<times> duration) list"

text \<open>
  \<open>rl_status\<close>: the home relay's URL and whether it is connected, if there is one; \<open>rl_report\<close>: the
  endpoint's report, if there is one; \<open>rl_snaps\<close>: what the channel of \<^verbatim>\<open>WatchPaths\<close> gives next, \<open>None\<close>
  when it is closed; \<open>rl_paths\<close>: what \<^verbatim>\<open>Conn.Paths\<close> gives. A report's latencies are listed in the
  order in which the map is walked.
\<close>

record relay_lib =
  rl_status :: "io_hist \<Rightarrow> nat \<Rightarrow> (string \<times> bool) option"
  rl_report :: "io_hist \<Rightarrow> nat \<Rightarrow> net_report option"
  rl_snaps :: "io_hist \<Rightarrow> nat \<Rightarrow> path_info list option"
  rl_paths :: "io_hist \<Rightarrow> nat \<Rightarrow> path_info list"

definition home_relay :: "call world \<Rightarrow> relay_lib \<Rightarrow> nat \<Rightarrow> (string \<times> bool) option io" where
  "home_relay W L ep = query W (\<lambda>_ h _. rl_status L h ep) (Lib ''Endpoint.HomeRelayStatus'' [ep] [])"

definition ask_report :: "call world \<Rightarrow> relay_lib \<Rightarrow> nat \<Rightarrow> net_report option io" where
  "ask_report W L ep = query W (\<lambda>_ h _. rl_report L h ep) (Lib ''Endpoint.NetReport'' [ep] [])"

definition next_paths :: "call world \<Rightarrow> relay_lib \<Rightarrow> nat \<Rightarrow> path_info list option io" where
  "next_paths W L watch = query W (\<lambda>_ h _. rl_snaps L h watch) (Lib ''WatchPaths.recv'' [watch] [])"

definition conn_paths :: "call world \<Rightarrow> relay_lib \<Rightarrow> nat \<Rightarrow> path_info list io" where
  "conn_paths W L conn = query W (\<lambda>_ h _. rl_paths L h conn) (Net (ConnPaths conn))"

abbreviation (input) pu_path_kind where
  "pu_path_kind \<equiv> selected_path_kind"

definition say_path :: "call world \<Rightarrow> relay_lib \<Rightarrow> string \<Rightarrow> nat \<Rightarrow> unit io" where
  "say_path W L what conn =
     go_try (conn_paths W L conn) (\<lambda>ps. println (what @ '' '' @ pu_path_kind ps))"

definition online :: "call world \<Rightarrow> string \<Rightarrow> nat \<Rightarrow> nat io" where
  "online W what ep = go_wrap what (invoke W (Net (Online ep)))"

text \<open>\<^verbatim>\<open>ep.AddExternalAddr(ep.LocalAddr())\<close>.\<close>

definition add_external :: "call world \<Rightarrow> nat \<Rightarrow> nat io" where
  "add_external W ep =
     go_try (query W got_text (Net (LocalAddr ep))) (\<lambda>a.
     new_object W (Lib ''Endpoint.AddExternalAddr'' [ep] [a]))"

text \<open>The URL of a test server, parsed as a relay's.\<close>

definition relay_url :: "call world \<Rightarrow> nat \<Rightarrow> string io" where
  "relay_url W srv =
     go_try (ask W (Lib ''httptest.Server.URL'' [srv] [])) (\<lambda>u.
     invoke_get W got_text (Os (ParseText ''RelayURL'' u)))"

section \<open>path-upgrade\<close>

definition pu_alpn :: string where
  "pu_alpn = ''go-iroh-examples/path-upgrade/1''"

text \<open>
  \<^verbatim>\<open>waitForDirect\<close>: the \<^verbatim>\<open>select\<close> takes the end of the context (0), the timer (1) or the channel.
\<close>

definition pu_wait :: "call world \<Rightarrow> relay_lib \<Rightarrow> nat \<Rightarrow> nat \<Rightarrow> bool io" where
  "pu_wait W L fuel watch =
     go_loop fuel (\<lambda>_.
       go_try (query W got_nat (Os Select)) (\<lambda>which.
       if which \<le> 1 then go_ret (Inl False)
       else
         go_try (next_paths W L watch) (\<lambda>s.
         case s of
           None \<Rightarrow> go_ret (Inl False)
         | Some ps \<Rightarrow> go_ret (if pu_path_kind ps = ''ip'' then Inl True else Inr ())))) ()"

definition pu_watch :: "call world \<Rightarrow> relay_lib \<Rightarrow> nat \<Rightarrow> nat \<Rightarrow> nat \<Rightarrow> nat \<Rightarrow> unit io" where
  "pu_watch W L fuel server client conn =
     go_try (invoke W (Lib ''Conn.WatchPaths'' [conn] [])) (\<lambda>watch.
     go_try (next_paths W L watch) (\<lambda>s.
     case s of
       None \<Rightarrow> go_fail (Err ''path watch closed before initial snapshot'')
     | Some initial \<Rightarrow>
       go_then (println (''initial selected: '' @ pu_path_kind initial))
       (go_then (add_external W server)
       (go_then (add_external W client)
       (go_try (pu_wait W L fuel watch) (\<lambda>upgraded.
        go_then (say_bool ''direct upgrade observed:'' upgraded)
        (say_path W L ''current selected:'' conn)))))))"

definition pu_run :: "call world \<Rightarrow> relay_lib \<Rightarrow> nat \<Rightarrow> unit io" where
  "pu_run W L fuel =
     with_server W ''relayserver'' (\<lambda>srv.
     go_try (relay_url W srv) (\<lambda>url.
     go_try (invoke W (Net (Bind [WithALPNs [pu_alpn], WithBindAddr loopback, WithRelayMode (RelayCustom [url])]))) (\<lambda>server.
     go_defer (shutdown W server)
       (go_try (invoke W (Net (Bind [WithBindAddr loopback, WithRelayMode (RelayCustom [url])]))) (\<lambda>client.
        go_defer (shutdown W client)
          (go_try (online W ''server online'' server) (\<lambda>_.
           go_try (online W ''client online'' client) (\<lambda>_.
           go_try (query W got_text (Net (EndpointID server))) (\<lambda>i.
           go_try (invoke W (Net (Connect client (WithRelayURL (NewAddr i) url) pu_alpn))) (\<lambda>conn.
           go_defer (invoke W (Net (CloseConn conn 0 [])))
             (go_try (invoke W (Net (Accept server))) (\<lambda>accepted.
              go_defer (invoke W (Net (CloseConn accepted 0 [])))
                (pu_watch W L fuel server client conn)))))))))))) )"

section \<open>relay-limits\<close>

definition limits_alpn :: string where
  "limits_alpn = ''go-iroh-examples/relay-limits/1''"

text \<open>\<^verbatim>\<open>waitForDirect\<close>: any selected path that is not relayed.\<close>

definition limits_wait :: "call world \<Rightarrow> relay_lib \<Rightarrow> nat \<Rightarrow> nat \<Rightarrow> unit io" where
  "limits_wait W L fuel conn =
     go_try (invoke W (Lib ''Conn.WatchPaths'' [conn] [])) (\<lambda>watch.
     go_loop fuel (\<lambda>_.
       go_try (next_paths W L watch) (\<lambda>s.
       case s of
         None \<Rightarrow> go_fail (Err ''path watch closed before a direct path was selected'')
       | Some ps \<Rightarrow> go_ret (if \<exists>p \<in> set ps. path_selected p \<and> \<not> path_relayed p then Inl () else Inr ()))) ())"

definition sink :: "call world \<Rightarrow> nat \<Rightarrow> unit io" where
  "sink W ep =
     go_try (invoke W (Net (Accept ep))) (\<lambda>conn.
     go_try (invoke W (Net (AcceptStream conn))) (\<lambda>stream.
     go_try (go_wrap ''drain'' (read_all W stream)) (\<lambda>_.
     go_try (invoke W (Net (Write stream [0]))) (\<lambda>_.
     go_try (invoke W (Net (CloseWrite stream))) (\<lambda>_. go_ret ())))))"

text \<open>
  The measured part: the payload out, the half-close, the acknowledgement, for which the peer's
  goroutine runs. A limit below zero reads nothing.
\<close>

definition measured :: "call world \<Rightarrow> nat \<Rightarrow> nat \<Rightarrow> int \<Rightarrow> duration io" where
  "measured W server stream payload =
     go_try (new_object W (Lib ''time.Now'' [] [])) (\<lambda>start.
     go_try (go_wrap ''write payload'' (invoke W (Lib ''io.Copy'' [stream] [''rand.Reader'', digits_of (nat payload)]))) (\<lambda>_.
     go_try (invoke W (Net (CloseWrite stream))) (\<lambda>_.
     go_catch (sink W server) (\<lambda>sunk.
     go_try (go_wrap ''read ack'' (invoke W (Lib ''io.ReadFull'' [stream] []))) (\<lambda>_.
     go_try (query W got_nat (Lib ''time.Since'' [start] [])) (\<lambda>elapsed.
     go_try (go_lift sunk) (\<lambda>_. go_ret (int elapsed))))))))"

definition limits_opts :: "string list \<Rightarrow> string \<Rightarrow> bool \<Rightarrow> bind_opt list" where
  "limits_opts alpns url upgrade =
     (if upgrade then [] else [WithoutIPTransports]) @ (if alpns = [] then [] else [WithALPNs alpns]) @
     [WithRelayMode (RelayCustom [url])]"

abbreviation (input) limits_bind where
  "limits_bind \<equiv> bind_loopback"

definition transfer :: "call world \<Rightarrow> relay_lib \<Rightarrow> nat \<Rightarrow> string \<Rightarrow> int \<Rightarrow> bool \<Rightarrow> duration io" where
  "transfer W L fuel handler payload upgrade =
     with_server W handler (\<lambda>srv.
     go_try (relay_url W srv) (\<lambda>url.
     go_try (limits_bind W (limits_opts [limits_alpn] url upgrade)) (\<lambda>server.
     go_defer (shutdown W server)
       (go_try (limits_bind W (limits_opts [] url upgrade)) (\<lambda>client.
        go_defer (shutdown W client)
          (go_try (online W ''server online'' server) (\<lambda>_.
           go_try (online W ''client online'' client) (\<lambda>_.
           go_try (query W got_text (Net (EndpointID server))) (\<lambda>i.
           go_try (invoke W (Net (Connect client (WithRelayURL (NewAddr i) url) limits_alpn))) (\<lambda>conn.
           go_defer (invoke W (Net (CloseConn conn 0 [])))
             (go_try (if \<not> upgrade then go_ret ()
                else go_then (add_external W server) (go_then (add_external W client) (limits_wait W L fuel conn))) (\<lambda>_.
              go_try (invoke W (Net (OpenStream conn))) (\<lambda>stream.
              go_defer (invoke W (Net (CloseStream stream))) (measured W server stream payload))))))))))))))"

definition limits_run :: "call world \<Rightarrow> relay_lib \<Rightarrow> nat \<Rightarrow> int \<Rightarrow> int \<Rightarrow> unit io" where
  "limits_run W L fuel payload rate =
     go_then (println (''payload: '' @ show_int payload @ '' bytes, limit: '' @ show_int rate @ '' bytes/s''))
     (go_try (go_wrap ''unlimited relay'' (transfer W L fuel ''relayserver'' payload False)) (\<lambda>unlimited.
      go_then (println (''relayed, no limit: '' @ duration_text (round_ms unlimited)))
      (go_try (go_wrap ''limited relay'' (transfer W L fuel (''relayserver rate='' @ show_int rate) payload False)) (\<lambda>limited.
       go_then (println (''relayed, limited: '' @ duration_text (round_ms limited)))
       (go_then (say_bool ''limit slowed the relayed transfer:'' (unlimited < limited))
       (go_try (go_wrap ''limited relay, direct path'' (transfer W L fuel (''relayserver rate='' @ show_int rate) payload True)) (\<lambda>direct.
        go_then (println (''direct, same limit: '' @ duration_text (round_ms direct)))
        (say_bool ''limit applied to the direct transfer:'' (limited \<le> direct))))))))) "

text \<open>\<^verbatim>\<open>strconv.ParseInt(s, 10, 64)\<close>: a sign and decimal digits.\<close>

definition parse_int10 :: "string \<Rightarrow> int option" where
  "parse_int10 s =
     (let neg = (case s of c # _ \<Rightarrow> c = CHR ''-'' | [] \<Rightarrow> False);
          body = (case s of c # cs \<Rightarrow> if c = CHR ''-'' \<or> c = CHR ''+'' then cs else s | [] \<Rightarrow> s) in
      if body = [] \<or> CHR ''_'' \<in> set body then None
      else case parse_digits 10 0 body of
        None \<Rightarrow> None
      | Some n \<Rightarrow> if neg then (if int n \<le> 2 ^ 63 then Some (- int n) else None)
                  else (if int n < 2 ^ 63 then Some (int n) else None))"

definition env_int64 :: "call world \<Rightarrow> string \<Rightarrow> int \<Rightarrow> int io" where
  "env_int64 W name dflt =
     go_try (query W got_text (Os (Getenv name))) (\<lambda>s.
     go_ret (case parse_int10 s of None \<Rightarrow> dflt | Some v \<Rightarrow> v))"

text \<open>\<^verbatim>\<open>main\<close>: with \<^verbatim>\<open>ExitOnError\<close> the flag package ends the process itself, help with 0, an error with 2.\<close>

definition limits_flags :: flag_set where
  "limits_flags = [(''bytes'', FInt), (''rate'', FInt)]"

definition limits_main :: "call world \<Rightarrow> relay_lib \<Rightarrow> nat \<Rightarrow> string list \<Rightarrow> io_hist \<Rightarrow> nat \<times> io_hist" where
  "limits_main W L fuel args h =
     (case go_try (env_int64 W ''IROH_EXAMPLE_BYTES'' (2 * 2 ^ 20)) (\<lambda>b.
           go_try (env_int64 W ''IROH_EXAMPLE_RATE'' (2 ^ 20)) (\<lambda>r. go_ret (b, r))) h of
        (Inl e, h') \<Rightarrow> (1, h')
      | (Inr (b, r), h') \<Rightarrow>
        (case parse_flags limits_flags [] args of
           Inl e \<Rightarrow> (if err_is ErrHelp e then 0 else 2, h')
         | Inr (vals, _) \<Rightarrow>
             plain_main (limits_run W L fuel (flag_int vals ''bytes'' b) (flag_int vals ''rate'' r)) h'))"

section \<open>doctor\<close>

definition doctor_alpn :: string where
  "doctor_alpn = ''go-iroh-examples/doctor/1''"

text \<open>
  \<^verbatim>\<open>relayMode\<close>: the mode, the relay's URL (\<open>[]\<close> is the zero URL) and the server that \<^verbatim>\<open>cleanup\<close>
  closes, if one was started.
\<close>

definition doctor_mode :: "call world \<Rightarrow> bool \<Rightarrow> (relay_mode \<times> string \<times> nat option) io" where
  "doctor_mode W live =
     (if live then go_ret (RelayDefault, [], None)
      else
        go_try (new_object W (Lib ''httptest.NewServer'' [] [''relayserver and ping''])) (\<lambda>srv.
        go_catch (relay_url W srv) (\<lambda>r.
        case r of
          Inl e \<Rightarrow> go_then (invoke W (Lib ''httptest.Server.Close'' [srv] [])) (go_fail e)
        | Inr url \<Rightarrow> go_ret (RelayCustom [url], url, Some srv))))"

definition cleanup :: "call world \<Rightarrow> nat option \<Rightarrow> nat io" where
  "cleanup W srv = (case srv of None \<Rightarrow> go_ret 0 | Some s \<Rightarrow> invoke W (Lib ''httptest.Server.Close'' [s] []))"

text \<open>\<^verbatim>\<open>printRelayLatencies\<close>: the URLs of the map, sorted, each with its latency.\<close>

definition latency_line :: "string \<times> duration \<Rightarrow> string" where
  "latency_line = (\<lambda>(url, d). ''latency '' @ url @ '': '' @ duration_text (round_ms d))"

definition latency_lines :: "(string \<times> duration) list \<Rightarrow> string list" where
  "latency_lines lats =
     (''relay latencies: '' @ digits_of (length lats)) #
     map (\<lambda>u. latency_line (u, the (map_of lats u))) (sort (map fst lats))"

text \<open>\<^verbatim>\<open>waitReport\<close>, the same in \<^verbatim>\<open>doctor\<close> and \<^verbatim>\<open>net-report\<close>.\<close>

definition wait_report :: "call world \<Rightarrow> relay_lib \<Rightarrow> nat \<Rightarrow> nat \<Rightarrow> net_report option io" where
  "wait_report W L fuel ep =
     go_loop fuel (\<lambda>_.
       go_try (ask_report W L ep) (\<lambda>r.
       case r of
         Some rep \<Rightarrow> go_ret (Inl (Some rep))
       | None \<Rightarrow>
         go_try (query W got_flag (Os Select)) (\<lambda>done.
         go_ret (if done then Inl None else Inr ())))) ()"

definition doctor_home :: "call world \<Rightarrow> relay_lib \<Rightarrow> nat \<Rightarrow> string \<Rightarrow> string io" where
  "doctor_home W L server url =
     go_try (home_relay W L server) (\<lambda>s.
     go_then (say_bool ''home relay connected:'' (case s of None \<Rightarrow> False | Some (_, connected) \<Rightarrow> connected))
     (case s of
        None \<Rightarrow> go_ret url
      | Some (home, _) \<Rightarrow> go_then (println (''home relay: '' @ home)) (go_ret (if url = [] then home else url))))"

definition doctor_report :: "call world \<Rightarrow> relay_lib \<Rightarrow> nat \<Rightarrow> nat \<Rightarrow> unit io" where
  "doctor_report W L fuel server =
     go_try (wait_report W L fuel server) (\<lambda>r.
     go_then (say_bool ''net report available:'' (r \<noteq> None))
     (case r of
        None \<Rightarrow> go_ret ()
      | Some rep \<Rightarrow>
        go_then (say_bool ''udp available:'' (nr_udp rep))
        (go_then (println (''preferred relay: '' @ nr_preferred rep))
        (println_all (latency_lines (nr_latencies rep))))))"

text \<open>The server's goroutine closes the connection it accepted.\<close>

definition doctor_accept :: "call world \<Rightarrow> nat \<Rightarrow> unit io" where
  "doctor_accept W server =
     go_try (invoke W (Net (Accept server))) (\<lambda>conn.
     go_then (invoke W (Net (CloseConn conn 0 []))) (go_ret ()))"

definition doctor_dial :: "call world \<Rightarrow> relay_lib \<Rightarrow> nat \<Rightarrow> nat \<Rightarrow> string \<Rightarrow> unit io" where
  "doctor_dial W L server client url =
     go_try (online W ''client online'' client) (\<lambda>_.
     go_try (query W got_text (Net (EndpointID server))) (\<lambda>i.
     go_try (invoke W (Net (Connect client (WithRelayURL (NewAddr i) url) doctor_alpn))) (\<lambda>conn.
     go_defer (invoke W (Net (CloseConn conn 0 [])))
       (go_try (doctor_accept W server) (\<lambda>_.
        say_path W L ''connection selected:'' conn)))))"

definition doctor_diagnose :: "call world \<Rightarrow> relay_lib \<Rightarrow> nat \<Rightarrow> relay_mode \<Rightarrow> string \<Rightarrow> unit io" where
  "doctor_diagnose W L fuel mode url =
     go_try (invoke W (Net (Bind [WithALPNs [doctor_alpn], WithBindAddr loopback, WithRelayMode mode]))) (\<lambda>server.
     go_defer (shutdown W server)
       (go_try (online W ''server online'' server) (\<lambda>_.
        go_try (doctor_home W L server url) (\<lambda>url'.
        go_try (doctor_report W L fuel server) (\<lambda>_.
        go_try (invoke W (Net (Bind [WithBindAddr loopback, WithRelayMode mode]))) (\<lambda>client.
        go_defer (shutdown W client) (doctor_dial W L server client url')))))))"

definition doctor_run :: "call world \<Rightarrow> relay_lib \<Rightarrow> nat \<Rightarrow> string list \<Rightarrow> unit io" where
  "doctor_run W L fuel args =
     with_live W ''GO_IROH_LIVE_RELAY'' args (\<lambda>live.
     go_try (doctor_mode W live) (\<lambda>(mode, url, srv).
     go_defer (cleanup W srv)
       (go_then (say_bool ''live relay:'' live)
       (go_then (if live then go_ret ()
          else println ''pass -live or set GO_IROH_LIVE_RELAY=1 to diagnose against public relays'')
       (doctor_diagnose W L fuel mode url)))))"

section \<open>net-report and relay-online\<close>

abbreviation (input) report_wait where
  "report_wait \<equiv> wait_report"

definition net_report_run :: "call world \<Rightarrow> relay_lib \<Rightarrow> nat \<Rightarrow> string list \<Rightarrow> unit io" where
  "net_report_run W L fuel args =
     with_live W ''GO_IROH_LIVE_RELAY'' args (\<lambda>live.
     go_try (invoke W (Net (Bind (WithBindAddr loopback # (if live then [WithRelayMode RelayDefault] else []))))) (\<lambda>ep.
     go_defer (shutdown W ep)
       (go_try (if live then report_wait W L fuel ep else ask_report W L ep) (\<lambda>r.
        go_then (say_bool ''live relay:'' live)
        (go_then (say_bool ''report available:'' (r \<noteq> None))
        (case r of
           None \<Rightarrow> println ''pass -live or set GO_IROH_LIVE_RELAY=1 to run net_report against the public relay map''
         | Some rep \<Rightarrow>
           println_all
             [''has udp: '' @ bool_text (nr_udp rep), ''udp4: '' @ bool_text (nr_udp4 rep), ''udp6: '' @ bool_text (nr_udp6 rep),
              ''global v4: '' @ nr_global4 rep, ''global v6: '' @ nr_global6 rep, ''preferred relay: '' @ nr_preferred rep]))))))"

definition relay_online_run :: "call world \<Rightarrow> relay_lib \<Rightarrow> string list \<Rightarrow> unit io" where
  "relay_online_run W L args =
     with_live W ''GO_IROH_LIVE_RELAY'' args (\<lambda>live.
     if \<not> live then println ''pass -live or set GO_IROH_LIVE_RELAY=1 to connect to the default public relays''
     else
       go_try (invoke W (Net (Bind [WithRelayMode RelayDefault]))) (\<lambda>ep.
       go_defer (shutdown W ep)
         (go_try (online W ''connect to public relay map'' ep) (\<lambda>_.
          go_try (home_relay W L ep) (\<lambda>s.
          case s of
            None \<Rightarrow> go_fail (Err ''online reported success with no home relay'')
          | Some (url, connected) \<Rightarrow>
            go_try (ask W (Lib ''EndpointID.Z32'' [ep] [])) (\<lambda>z32.
            go_then (println (''endpoint id: '' @ z32))
            (go_then (println (''home relay: '' @ url))
            (go_then (say_bool ''connected:'' connected)
            (go_try (query W got_texts (Net (RelayURLs (AddrOf ep)))) (\<lambda>urls.
             println (''advertised relays: '' @ show_slice urls))))))))))) "

section \<open>local-infra\<close>

definition infra_alpn :: string where
  "infra_alpn = ''go-iroh-examples/local-infra/1''"

text \<open>An item of a resolution: an endpoint's id and the number of its addresses.\<close>

fun published :: "string \<Rightarrow> (gerr + string \<times> nat) list \<Rightarrow> nat option" where
  "published i [] = None"
| "published i (Inl e # xs) = published i xs"
| "published i (Inr (j, n) # xs) = (if j = i then Some n else published i xs)"

text \<open>\<^verbatim>\<open>waitPublished\<close>: a round asks; then the end of the context or a tick.\<close>

definition wait_published :: "call world \<Rightarrow> nat \<Rightarrow> (io_hist \<Rightarrow> (gerr + string \<times> nat) list) \<Rightarrow> nat \<Rightarrow> string \<Rightarrow> unit io" where
  "wait_published W fuel items res i =
     go_loop fuel (\<lambda>_.
       go_try (query W (\<lambda>_ h _. items h) (Lib ''PkarrResolver.Resolve'' [res] [i])) (\<lambda>found.
       case published i found of
         Some n \<Rightarrow> go_then (println (''resolved by id: '' @ digits_of n @ '' address(es)'')) (go_ret (Inl ()))
       | None \<Rightarrow>
         go_try (query W got_flag (Os Select)) (\<lambda>done.
         if done then go_try (ctx_error W) (\<lambda>e. go_fail (Wrapf (''pkarr relay never published '' @ i) e))
         else go_ret (Inr ())))) ()"

abbreviation (input) infra_echo where
  "infra_echo \<equiv> echo"

text \<open>The server's goroutine: accept, then \<^verbatim>\<open>echo\<close>, their error unwrapped.\<close>

definition infra_accept :: "call world \<Rightarrow> nat \<Rightarrow> unit io" where
  "infra_accept W server = go_try (invoke W (Net (Accept server))) (\<lambda>conn. infra_echo W conn)"

definition infra_metrics :: "call world \<Rightarrow> nat \<Rightarrow> nat \<Rightarrow> unit io" where
  "infra_metrics W relay_srv dns_srv =
     go_try (new_object W (Lib ''metrics.NewRegistry'' [] [])) (\<lambda>reg.
     go_try (invoke W (Lib ''Registry.Register'' [reg, dns_srv] [''dnsserver''])) (\<lambda>_.
     go_try (invoke W (Lib ''Registry.Register'' [reg, relay_srv] [''relayserver''])) (\<lambda>_.
     go_try (invoke W (Lib ''Registry.WriteOpenMetrics'' [reg] [])) (\<lambda>_.
     go_try (ask W (Lib ''dnsserver.Snapshot'' [dns_srv] [])) (\<lambda>d.
     go_then (println (''dns snapshot: '' @ d))
     (go_try (ask W (Lib ''relayserver.Snapshot'' [relay_srv] [])) (\<lambda>r.
      println (''relay snapshot: '' @ r))))))))"

abbreviation (input) infra_exchange where
  "infra_exchange \<equiv> exchange_during"

definition infra_client ::
  "call world \<Rightarrow> relay_lib \<Rightarrow> nat \<Rightarrow> (io_hist \<Rightarrow> (gerr + string \<times> nat) list) \<Rightarrow> nat \<Rightarrow> nat \<Rightarrow> nat \<Rightarrow> nat \<Rightarrow> nat \<Rightarrow> unit io" where
  "infra_client W L fuel items relay_srv dns_srv server client res =
     go_try (query W got_text (Net (EndpointID server))) (\<lambda>i.
     go_try (wait_published W fuel items res i) (\<lambda>_.
     go_try (go_wrap ''dial by id'' (invoke W (Net (Connect client (NewAddr i) infra_alpn)))) (\<lambda>conn.
     go_defer (invoke W (Net (CloseConn conn 0 [])))
       (go_try (infra_exchange W conn ''local infra hello'' (infra_accept W server)) (\<lambda>(reply, served).
        go_try (go_lift served) (\<lambda>_.
        go_then (println (''reply: '' @ reply))
        (go_try (say_path W L ''path:'' conn) (\<lambda>_.
         infra_metrics W relay_srv dns_srv)))))))) "

abbreviation (input) infra_bind where
  "infra_bind \<equiv> bind_loopback"

definition infra_run :: "call world \<Rightarrow> relay_lib \<Rightarrow> nat \<Rightarrow> (io_hist \<Rightarrow> (gerr + string \<times> nat) list) \<Rightarrow> unit io" where
  "infra_run W L fuel items =
     with_server W ''relayserver'' (\<lambda>relay_srv.
     with_server W ''dnsserver'' (\<lambda>dns_srv.
     go_try (relay_url W relay_srv) (\<lambda>url.
     go_try (ask W (Lib ''httptest.Server.URL'' [dns_srv] [])) (\<lambda>dns_url.
     go_then (println (''relay: '' @ url))
     (go_then (println (''pkarr: '' @ dns_url @ ''/pkarr''))
     (go_try (invoke_get W got_text (Os GenerateKey)) (\<lambda>sk.
      with_publisher W dns_srv sk (\<lambda>pub.
      go_try (infra_bind W [WithSecretKey sk, WithALPNs [infra_alpn], WithRelayMode (RelayCustom [url]), WithAddressLookup ''server lookups'']) (\<lambda>server.
      go_defer (shutdown W server)
        (go_try (online W ''server online'' server) (\<lambda>_.
         go_then (new_object W (Lib ''PkarrPublisher.Publish'' [pub, server] []))
         (go_try (invoke W (Lib ''iroh.NewPkarrResolver'' [dns_srv] [])) (\<lambda>res.
          go_try (infra_bind W [WithRelayMode (RelayCustom [url]), WithAddressLookup ''client lookups'']) (\<lambda>client.
          go_defer (shutdown W client)
            (go_try (online W ''client online'' client) (\<lambda>_.
             infra_client W L fuel items relay_srv dns_srv server client res))))))))))))))))"

section \<open>What is given back\<close>

lemma owns_with_server_endpoint:
  assumes "\<And>s. owns opens_endpoint frees_endpoint {} (body s) own"
  shows "owns opens_endpoint frees_endpoint {} (with_server W handler body) own"
  unfolding with_server_def by (rule program_rules assms | simp)+

lemma owns_with_publisher_endpoint:
  assumes "\<And>s. owns opens_endpoint frees_endpoint {} (body s) own"
  shows "owns opens_endpoint frees_endpoint {} (with_publisher W srv sk body) own"
  unfolding with_publisher_def by (rule program_rules assms | simp)+

lemmas relay_calls = home_relay_def ask_report_def next_paths_def conn_paths_def say_path_def online_def add_external_def relay_url_def

lemmas bound_rules = owns_try [OF owns_bind] owns_defer [OF drops_shutdown]
  owns_try [OF owns_invoke_open [where opens = opens_endpoint and c = "Net (Bind opts)" for opts]]

lemmas relay_rules = owns_with_server_endpoint owns_with_publisher_endpoint bound_rules program_rules owns_read_all

lemma owns_relay_waits:
  shows "owns opens_endpoint frees_endpoint {} (pu_wait W L fuel watch) (\<lambda>_. {})"
    and "owns opens_endpoint frees_endpoint {} (limits_wait W L fuel conn) (\<lambda>_. {})"
    and "owns opens_endpoint frees_endpoint {} (wait_report W L fuel ep) (\<lambda>_. {})"
    and "owns opens_endpoint frees_endpoint {} (wait_published W fuel items res i) (\<lambda>_. {})"
  unfolding pu_wait_def limits_wait_def wait_report_def wait_published_def relay_calls
  by (rule owns_loop program_rules | simp split: sum.split)+

lemma owns_pu_run: "owns opens_endpoint frees_endpoint {} (pu_run W L fuel) (\<lambda>_. {})"
  unfolding pu_run_def pu_watch_def relay_calls
  by (simp only: Diff_cancel opens_endpoint.simps | rule owns_relay_waits relay_rules | simp)+

lemma owns_limits_run: "owns opens_endpoint frees_endpoint {} (limits_run W L fuel payload rate) (\<lambda>_. {})"
proof -
  have sink: "owns opens_endpoint frees_endpoint {} (sink W ep) (\<lambda>_. {})" for ep
    unfolding sink_def by (rule relay_rules | simp)+
  have measured: "owns opens_endpoint frees_endpoint {} (measured W server stream p) (\<lambda>_. {})" for server stream p
    unfolding measured_def by (rule sink relay_rules | simp)+
  have transfer: "owns opens_endpoint frees_endpoint {} (transfer W L fuel handler p up) (\<lambda>_. {})" for handler p up
    unfolding transfer_def relay_calls
    by (simp only: Diff_cancel opens_endpoint.simps | rule measured owns_relay_waits relay_rules | simp)+
  show ?thesis
    unfolding limits_run_def by (rule transfer relay_rules | simp)+
qed

lemma owns_doctor_run: "owns opens_endpoint frees_endpoint {} (doctor_run W L fuel args) (\<lambda>_. {})"
proof -
  have dial: "owns opens_endpoint frees_endpoint {} (doctor_dial W L server client url) (\<lambda>_. {})" for server client url
    unfolding doctor_dial_def doctor_accept_def relay_calls by (rule relay_rules | simp)+
  have diagnose: "owns opens_endpoint frees_endpoint {} (doctor_diagnose W L fuel mode url) (\<lambda>_. {})" for mode url
    unfolding doctor_diagnose_def doctor_home_def doctor_report_def relay_calls
    by (simp only: Diff_cancel opens_endpoint.simps | rule dial owns_relay_waits relay_rules | simp)+
  show ?thesis
    unfolding doctor_run_def doctor_mode_def cleanup_def with_live_def env_bool_def pe_env_def relay_calls
    by (rule diagnose relay_rules | simp)+
qed

lemma owns_net_report_run: "owns opens_endpoint frees_endpoint {} (net_report_run W L fuel args) (\<lambda>_. {})"
  unfolding net_report_run_def with_live_def env_bool_def pe_env_def ask_report_def
  by (simp only: Diff_cancel opens_endpoint.simps | rule owns_relay_waits relay_rules | simp)+

lemma owns_relay_online_run: "owns opens_endpoint frees_endpoint {} (relay_online_run W L args) (\<lambda>_. {})"
  unfolding relay_online_run_def with_live_def env_bool_def pe_env_def relay_calls
  by (simp only: Diff_cancel opens_endpoint.simps | rule relay_rules | simp)+

lemma owns_infra_run: "owns opens_endpoint frees_endpoint {} (infra_run W L fuel items) (\<lambda>_. {})"
proof -
  have client: "owns opens_endpoint frees_endpoint {} (infra_client W L fuel items r d server client res) (\<lambda>_. {})" for r d server client res
    unfolding infra_client_def infra_accept_def infra_metrics_def relay_calls
    by (rule owns_exchange_during owns_relay_waits relay_rules | simp)+
  show ?thesis
    unfolding infra_run_def relay_calls
    by (simp only: Diff_cancel | rule client relay_rules | simp)+
qed

text \<open>The same for what these programs start besides endpoints.\<close>

lemma service_shared:
  shows "owns opens_service frees_service {} (bind_loopback W opts) (\<lambda>_. {})"
    and "owns opens_service frees_service {} (shutdown W ep) (\<lambda>_. {})"
    and "owns opens_service frees_service {} (read_all W s) (\<lambda>_. {})"
    and "owns opens_service frees_service {} (echo W conn) (\<lambda>_. {})"
    and "owns opens_service frees_service {} (say_bool what b) (\<lambda>_. {})"
  unfolding bind_loopback_def shutdown_def read_all_def echo_def say_bool_def
  by (rule service_rules | simp)+

lemma service_waits:
  shows "owns opens_service frees_service {} (pu_wait W L fuel watch) (\<lambda>_. {})"
    and "owns opens_service frees_service {} (limits_wait W L fuel conn) (\<lambda>_. {})"
    and "owns opens_service frees_service {} (wait_report W L fuel ep) (\<lambda>_. {})"
    and "owns opens_service frees_service {} (wait_published W fuel items res i) (\<lambda>_. {})"
  unfolding pu_wait_def limits_wait_def wait_report_def wait_published_def relay_calls ctx_error_def
  by (rule owns_loop service_rules | simp split: sum.split)+

lemma services_pu_run: "owns opens_service frees_service {} (pu_run W L fuel) (\<lambda>_. {})"
  unfolding pu_run_def pu_watch_def relay_calls by (rule service_waits service_shared service_rules | simp)+

lemma services_limits_run: "owns opens_service frees_service {} (limits_run W L fuel payload rate) (\<lambda>_. {})"
proof -
  have measured: "owns opens_service frees_service {} (measured W server stream p) (\<lambda>_. {})" for server stream p
    unfolding measured_def sink_def by (rule service_shared service_rules | simp)+
  have transfer: "owns opens_service frees_service {} (transfer W L fuel handler p up) (\<lambda>_. {})" for handler p up
    unfolding transfer_def relay_calls by (rule measured service_waits service_shared service_rules | simp)+
  show ?thesis
    unfolding limits_run_def by (rule transfer service_shared service_rules | simp)+
qed

lemma services_infra_run: "owns opens_service frees_service {} (infra_run W L fuel items) (\<lambda>_. {})"
proof -
  have client: "owns opens_service frees_service {} (infra_client W L fuel items r d server client res) (\<lambda>_. {})" for r d server client res
    unfolding infra_client_def infra_accept_def infra_metrics_def exchange_during_def relay_calls
    by (rule service_waits service_shared service_rules | simp)+
  show ?thesis
    unfolding infra_run_def relay_calls by (rule client service_shared service_rules | simp)+
qed

lemma services_doctor_run: "owns opens_service frees_service {} (doctor_run W L fuel args) (\<lambda>_. {})"
proof -
  have dial: "owns opens_service frees_service {} (doctor_dial W L server client url) (\<lambda>_. {})" for server client url
    unfolding doctor_dial_def doctor_accept_def relay_calls by (rule service_rules | simp)+
  have diagnose: "owns opens_service frees_service {} (doctor_diagnose W L fuel mode url) (\<lambda>_. {})" for mode url
    unfolding doctor_diagnose_def doctor_home_def doctor_report_def relay_calls
    by (rule dial service_waits service_shared service_rules | simp)+
  have mode: "owns opens_service frees_service {} (doctor_mode W live) (\<lambda>(_, _, srv). set_option srv)" for live
  proof -
    have new: "owns opens_service frees_service {} (new_object W (Lib ''httptest.NewServer'' [] [k])) (\<lambda>n. {n})" for k
      by (auto simp: owns_def new_object_def query_def)
    have url: "owns opens_service frees_service {} (relay_url W srv) (\<lambda>_. {})" for srv
      unfolding relay_url_def by (rule service_rules | simp)+
    have stop: "owns opens_service frees_service {n}
        (go_then (invoke W (Lib ''httptest.Server.Close'' [n] [])) (go_fail e)) own" for n e and own :: "relay_mode \<times> string \<times> nat option \<Rightarrow> nat set"
      by (rule owns_then [OF drops_invoke]) (simp_all add: owns_fail)
    show ?thesis
      unfolding doctor_mode_def
      by (rule owns_if owns_ret owns_try [OF new] owns_catch [OF url] stop | simp)+
  qed
  have stop: "drops opens_service frees_service (set_option srv) (cleanup W srv)" for srv
  proof (cases srv)
    case None
    then show ?thesis by (simp add: cleanup_def drops_def go_ret_def)
  next
    case (Some s)
    then show ?thesis
      unfolding cleanup_def by (simp, intro drops_mono [OF drops_invoke]) simp_all
  qed
  have body: "owns opens_service frees_service S
      (go_defer (cleanup W srv)
       (go_then (say_bool ''live relay:'' live)
       (go_then (if live then go_ret () else println t) (doctor_diagnose W L fuel mode url)))) (\<lambda>_. {})"
    if "S = set_option srv" for S srv live t mode url
    unfolding that by (rule owns_defer [OF stop] diagnose service_shared service_rules | simp)+
  have run: "owns opens_service frees_service {}
      (go_try (doctor_mode W live) (\<lambda>(mode, url, srv).
       go_defer (cleanup W srv)
       (go_then (say_bool ''live relay:'' live)
       (go_then (if live then go_ret () else println t) (doctor_diagnose W L fuel mode url))))) (\<lambda>_. {})" for live t
    by (rule owns_try [OF mode], simp only: split_beta, rule body, rule refl)
  show ?thesis
    unfolding doctor_run_def with_live_def env_bool_def pe_env_def by (rule run service_rules | simp)+
qed

section \<open>Properties\<close>

lemma owns_services: "owns opens_service frees_service {} m (\<lambda>_. {}) \<Longrightarrow> services_running (snd (m h)) \<subseteq> services_running h"
  unfolding services_running_def by (rule owns_leaked)


lemma map_of_set:
  assumes "distinct (map fst xs)" "distinct (map fst ys)" "set xs = set ys"
  shows "map_of xs = map_of ys"
  using assms by (metis map_of_inject_set)

text \<open>The report of the latencies does not depend on the order in which the map is walked: two walks of one
  map print the same lines, the count first, then one line for each relay, in the order of their
  URLs, with the relay's own latency, rounded to a millisecond.\<close>

lemma latencies_in_any_order:
  assumes "distinct (map fst lats)" and "distinct (map fst lats')" and "set lats = set lats'"
  shows "latency_lines lats = latency_lines lats' \<and>
    (\<exists>us. sorted us \<and> distinct us \<and> set us = fst ` set lats \<and>
      tl (latency_lines lats) = map (\<lambda>u. latency_line (u, the (map_of lats u))) us \<and>
      (\<forall>(u, d) \<in> set lats. the (map_of lats u) = d))"
proof
  have "sort (map fst lats) = sort (map fst lats')"
    using assms by (metis image_set sorted_list_of_set_sort_remdups distinct_remdups_id)
  moreover have "length lats = length lats'"
    using assms by (metis distinct_card length_map image_set)
  ultimately show "latency_lines lats = latency_lines lats'"
    using map_of_set [OF assms] by (simp add: latency_lines_def)
  show "\<exists>us. sorted us \<and> distinct us \<and> set us = fst ` set lats \<and>
      tl (latency_lines lats) = map (\<lambda>u. latency_line (u, the (map_of lats u))) us \<and>
      (\<forall>(u, d) \<in> set lats. the (map_of lats u) = d)"
    using assms(1) by (intro exI [of _ "sort (map fst lats)"]) (auto simp: latency_lines_def)
qed

lemma latencies_in_any_order_witness:
  "latency_lines [(''https://b/'', 2000000), (''https://a/'', 1600000)] =
     latency_lines [(''https://a/'', 1600000), (''https://b/'', 2000000)]"
  using latencies_in_any_order [of "[(''https://b/'', 2000000), (''https://a/'', 1600000)]"
    "[(''https://a/'', 1600000), (''https://b/'', 2000000)]"]
  by auto

text \<open>Rounding a duration to the millisecond, at 64 bits and for every duration, positive or negative: the
  result is a duration again; it is a multiple of a millisecond at most half a millisecond away,
  or, where that multiple is out of range, the greatest or the least duration, less than a
  millisecond away.\<close>

lemma round_ms_nearest:
  assumes "is_duration d"
  shows "is_duration (round_ms d) \<and>
    (millisecond dvd round_ms d \<and> 2 * \<bar>round_ms d - d\<bar> \<le> millisecond \<or>
     round_ms d = max_duration \<and> max_duration - d < millisecond \<or>
     round_ms d = min_duration \<and> d - min_duration < millisecond)"
proof -
  have "0 < millisecond" "is_duration millisecond"
    by (simp_all add: millisecond_def is_duration_def min_duration_def max_duration_def)
  from round_to_multiple [OF assms this] show ?thesis
    unfolding round_ms_def by blast
qed

lemma round_ms_nearest_witness:
  "is_duration (round_ms max_duration) \<and> is_duration (round_ms (- 1500001)) \<and> round_ms max_duration = max_duration \<and>
   round_ms (- 1500001) = - 2000000"
proof -
  have "is_duration max_duration" "is_duration (- 1500001)"
    by (simp_all add: is_duration_def min_duration_def max_duration_def)
  with round_ms_nearest [of max_duration] round_ms_nearest [of "- 1500001"] show ?thesis
    by (simp add: round_ms_def round_to_def millisecond_def max_duration_def wrap64_def Let_def)
qed

lemma kind_ip_direct: "selected_path_kind ps = ''ip'' \<Longrightarrow> \<exists>p \<in> set ps. path_selected p \<and> \<not> path_relayed p"
  by (induction ps) (auto split: if_splits)

lemma kind_none: "\<forall>p \<in> set ps. \<not> path_selected p \<Longrightarrow> selected_path_kind ps = ''none''"
  by (induction ps) auto

lemma direct_kind_ip:
  assumes "length (filter path_selected ps) \<le> 1"
    and "\<And>p. p \<in> set ps \<Longrightarrow> path_selected p \<Longrightarrow> \<not> path_relayed p \<Longrightarrow> path_network p = Some ''ip''"
    and "\<exists>p \<in> set ps. path_selected p \<and> \<not> path_relayed p"
  shows "selected_path_kind ps = ''ip''"
  using assms
proof (induction ps)
  case (Cons p ps)
  show ?case
  proof (cases "path_selected p")
    case True
    with Cons.prems(1) have "\<forall>q \<in> set ps. \<not> path_selected q"
      by (simp add: filter_empty_conv)
    with True Cons.prems(2) [of p] Cons.prems(3) show ?thesis by auto
  next
    case False
    with Cons show ?thesis by auto
  qed
qed simp

lemma pu_wait_sees:
  "returns (\<lambda>b. b \<longrightarrow> (\<exists>h ps. rl_snaps L h watch = Some ps \<and> selected_path_kind ps = ''ip'')) (pu_wait W L fuel watch)"
  unfolding pu_wait_def
  by (rule returns_loop) (auto simp: returns_def go_simps next_paths_def split: option.splits if_splits)

lemma limits_wait_sees:
  "returns (\<lambda>_. \<exists>h w ps. rl_snaps L h w = Some ps \<and> (\<exists>p \<in> set ps. path_selected p \<and> \<not> path_relayed p)) (limits_wait W L fuel conn)"
  unfolding limits_wait_def
  by (rule returns_try, rule returns_loop) (auto simp: returns_def go_simps next_paths_def split: option.splits if_splits)

lemma pu_wait_ends:
  assumes "\<And>h. N \<le> length h \<Longrightarrow> rl_snaps L h watch = None"
  shows "N - length g < fuel \<Longrightarrow> fst (pu_wait W L fuel watch g) \<noteq> Inl ErrFuel"
  unfolding pu_wait_def
  by (rule go_loop_enough) (auto simp: go_simps next_paths_def assms not_less split: option.splits if_splits
      intro: ccontr)

lemma limits_wait_ends:
  assumes "\<And>h w. N \<le> length h \<Longrightarrow> rl_snaps L h w = None" and "\<And>h c. fails W h c \<noteq> Some ErrFuel" and "N - length g < fuel"
  shows "fst (limits_wait W L fuel conn g) \<noteq> Inl ErrFuel"
proof -
  have loop: "N - length h < fuel \<Longrightarrow> fst (go_loop fuel (\<lambda>_.
       go_try (next_paths W L watch) (\<lambda>s.
       case s of
         None \<Rightarrow> go_fail (Err ''path watch closed before a direct path was selected'')
       | Some ps \<Rightarrow> go_ret (if \<exists>p \<in> set ps. path_selected p \<and> \<not> path_relayed p then Inl () else Inr ()))) () h) \<noteq> Inl ErrFuel"
    for watch h
    by (rule go_loop_enough) (auto simp: go_simps next_paths_def assms(1) not_less split: option.splits if_splits intro: ccontr)
  show ?thesis
  proof (cases "fails W g (Lib ''Conn.WatchPaths'' [conn] [])")
    case None
    with loop [of "Did (Lib ''Conn.WatchPaths'' [conn] []) # g" "length g"] assms(3) show ?thesis
      unfolding limits_wait_def by (simp add: go_try_def [of "invoke W c" for c] invoke_def)
  next
    case (Some e)
    with assms(2) [of g] show ?thesis
      unfolding limits_wait_def by (auto simp: go_try_def [of "invoke W c" for c] invoke_def)
  qed
qed


definition direct_path :: path_info where
  "direct_path = \<lparr>path_selected = True, path_relayed = False, path_network = Some ''ip''\<rparr>"

definition relays_example :: relay_lib where
  "relays_example = \<lparr>rl_status = \<lambda>_ _. None, rl_report = \<lambda>_ _. None,
     rl_snaps = \<lambda>h _. if 5 \<le> length h then None else if length h < 2 then Some [] else Some [direct_path], rl_paths = \<lambda>_ _. []\<rparr>"


end
