(* ===== verification/Watching.thy ===== *)
theory Watching
  imports Relays
begin

text \<open>
  \<^verbatim>\<open>cmd/go-iroh-watch-observer/main.go\<close>, which follows a value and an endpoint's address as they
  change, and \<^verbatim>\<open>cmd/go-iroh-mdns-discovery/main.go\<close>, which waits for a peer to be heard. When an
  observer learns of a change is the library's; what is set in answer, what is waited for and when
  a program gives up are the programs'.
\<close>

section \<open>A watched value\<close>

text \<open>
  \<open>wl_current\<close>, \<open>wl_updated\<close> and \<open>wl_stream\<close> are the observer's three shapes on a value (and a
  stream of it); a stream is over with \<open>None\<close>. The ones beginning with \<open>al\<close> are the same for an
  endpoint's address, of which the program looks at the direct paths.
\<close>

record watch_lib =
  wl_current :: "io_hist \<Rightarrow> nat \<Rightarrow> string"
  wl_updated :: "io_hist \<Rightarrow> nat \<Rightarrow> gerr + string"
  wl_stream :: "io_hist \<Rightarrow> nat \<Rightarrow> nat \<Rightarrow> nat option"
  al_current :: "io_hist \<Rightarrow> nat \<Rightarrow> string list"
  al_updated :: "io_hist \<Rightarrow> nat \<Rightarrow> gerr + string list"
  al_stream :: "io_hist \<Rightarrow> nat \<Rightarrow> string list option"

definition set_text :: "call world \<Rightarrow> nat \<Rightarrow> string \<Rightarrow> nat io" where
  "set_text W v s = new_object W (Lib ''Value.Set'' [v] [s])"

definition set_nat :: "call world \<Rightarrow> nat \<Rightarrow> nat \<Rightarrow> nat io" where
  "set_nat W v n = new_object W (Lib ''Value.Set'' [v, n] [])"

text \<open>The goroutine that waits for one update, when the program waits for it.\<close>

definition updated_once :: "call world \<Rightarrow> watch_lib \<Rightarrow> nat \<Rightarrow> unit io" where
  "updated_once W L v =
     go_try (query W (\<lambda>_ h _. wl_updated L h v) (Lib ''Observer.Updated'' [v] [])) (\<lambda>r.
     case r of
       Inl e \<Rightarrow> go_fail e
     | Inr s \<Rightarrow> println (''updated: '' @ s))"

text \<open>What the loop sets when it sees \<open>n\<close>.\<close>

definition react :: "call world \<Rightarrow> nat \<Rightarrow> nat \<Rightarrow> unit io" where
  "react W v n =
     (if n = 0 then go_then (set_nat W v 1) (go_ret ())
      else if n = 1 then go_then (set_nat W v 1) (go_then (set_nat W v 2) (go_ret ()))
      else go_ret ())"

text \<open>The state of the loop is \<^verbatim>\<open>seen\<close>.\<close>

definition value_stream :: "call world \<Rightarrow> watch_lib \<Rightarrow> nat \<Rightarrow> nat \<Rightarrow> nat \<Rightarrow> unit io" where
  "value_stream W L fuel v stream =
     go_loop fuel (\<lambda>seen.
       go_try (query W (\<lambda>_ h _. wl_stream L h v stream) (Lib ''Stream.next'' [stream] [])) (\<lambda>n.
       case n of
         None \<Rightarrow> go_ret (Inl ())
       | Some n \<Rightarrow>
         go_then (println (''stream: '' @ digits_of n))
         (if seen + 1 = 3 then go_ret (Inl ())
          else go_then (react W v n) (go_ret (Inr (seen + 1)))))) (0 :: nat)"

definition watch_value :: "call world \<Rightarrow> watch_lib \<Rightarrow> nat \<Rightarrow> unit io" where
  "watch_value W L fuel =
     go_try (new_object W (Lib ''watch.NewValue'' [] [''starting''])) (\<lambda>v.
     go_try (query W (\<lambda>_ h _. wl_current L h v) (Lib ''Observer.Current'' [v] [])) (\<lambda>c.
     go_then (println (''current: '' @ c))
     (go_then (set_text W v ''ready'')
     (go_try (updated_once W L v) (\<lambda>_.
      go_try (new_object W (Lib ''watch.NewValueFunc'' [0] [])) (\<lambda>unique.
      go_try (new_object W (Lib ''Observer.Stream'' [unique] [])) (\<lambda>stream.
      value_stream W L fuel unique stream)))))))"

section \<open>A watched address\<close>

definition watch_alpn :: string where
  "watch_alpn = ''go-iroh-examples/watch-observer/1''"

definition external_addr :: string where
  "external_addr = ''192.0.2.55:12345''"

fun contains_addr :: "string list \<Rightarrow> string \<Rightarrow> bool" where
  "contains_addr [] want = False"
| "contains_addr (a # as) want = (if a = want then True else contains_addr as want)"

abbreviation (input) wo_echo where
  "wo_echo \<equiv> echo"

text \<open>
  \<^verbatim>\<open>serve\<close> and \<^verbatim>\<open>dial\<close>: the server's goroutine takes a connection while the client waits for its
  reply, unless it has ended with an error; that error is what \<^verbatim>\<open>done\<close> holds.
\<close>

definition wo_serve :: "call world \<Rightarrow> nat \<Rightarrow> gerr option \<Rightarrow> unit io" where
  "wo_serve W ep ended =
     (case ended of
        Some e \<Rightarrow> go_fail e
      | None \<Rightarrow> go_try (invoke W (Net (Accept ep))) (\<lambda>conn. wo_echo W conn))"

abbreviation (input) wo_bind where
  "wo_bind \<equiv> bind_loopback"

abbreviation (input) wo_exchange where
  "wo_exchange \<equiv> exchange_during"

definition wo_dial :: "call world \<Rightarrow> nat \<Rightarrow> string \<Rightarrow> gerr option \<Rightarrow> (string \<times> gerr option) io" where
  "wo_dial W server msg ended =
     go_try (wo_bind W []) (\<lambda>ep.
     go_defer (shutdown W ep)
       (go_try (invoke W (Net (Connect ep (AddrOf server) watch_alpn))) (\<lambda>conn.
        go_defer (invoke W (Lib ''Conn.Close'' [conn] []))
          (go_try (wo_exchange W conn msg (wo_serve W server ended)) (\<lambda>(reply, r).
           go_ret (reply, case r of Inl e \<Rightarrow> Some e | Inr _ \<Rightarrow> None)))))) "

text \<open>The goroutine reads updates until the one it waits for.\<close>

definition await_external :: "call world \<Rightarrow> watch_lib \<Rightarrow> nat \<Rightarrow> nat \<Rightarrow> unit io" where
  "await_external W L fuel ep =
     go_loop fuel (\<lambda>_.
       go_try (query W (\<lambda>_ h _. al_updated L h ep) (Lib ''Observer.Updated'' [ep] [])) (\<lambda>r.
       case r of
         Inl e \<Rightarrow> go_fail e
       | Inr ips \<Rightarrow>
         if contains_addr ips external_addr
         then go_then (say_bool ''updated has external:'' True) (go_ret (Inl ()))
         else go_ret (Inr ()))) ()"

definition addr_stream :: "call world \<Rightarrow> watch_lib \<Rightarrow> nat \<Rightarrow> nat \<Rightarrow> unit io" where
  "addr_stream W L fuel ep =
     go_loop fuel (\<lambda>seen.
       go_try (query W (\<lambda>_ h _. al_stream L h ep) (Lib ''Stream.next'' [ep] [])) (\<lambda>a.
       case a of
         None \<Rightarrow> go_ret (Inl ())
       | Some ips \<Rightarrow>
         go_then (println (''stream addrs: '' @ digits_of (length ips)))
         (if seen + 1 = 2 then go_ret (Inl ())
          else go_then (new_object W (Lib ''Endpoint.AddExternalAddr'' [ep] [''192.0.2.56:12345''])) (go_ret (Inr (seen + 1)))))) (0 :: nat)"

definition watch_addr :: "call world \<Rightarrow> watch_lib \<Rightarrow> nat \<Rightarrow> unit io" where
  "watch_addr W L fuel =
     go_try (wo_bind W [WithALPNs [watch_alpn]]) (\<lambda>ep.
     go_defer (shutdown W ep)
       (go_try (query W (\<lambda>_ h _. al_current L h ep) (Lib ''Observer.Current'' [ep] [])) (\<lambda>current.
        go_then (println (''current addrs: '' @ digits_of (length current)))
        (go_try (wo_dial W ep ''first'' None) (\<lambda>(reply, ended).
         go_then (println (''first reply: '' @ reply))
         (go_then (new_object W (Lib ''Endpoint.AddExternalAddr'' [ep] [external_addr]))
         (go_try (await_external W L fuel ep) (\<lambda>_.
          go_try (wo_dial W ep ''second'' ended) (\<lambda>(reply, ended).
          go_then (println (''second reply: '' @ reply))
          (go_try (addr_stream W L fuel ep) (\<lambda>_.
           case ended of Some e \<Rightarrow> go_fail e | None \<Rightarrow> go_ret ())))))))))))"

definition watch_run :: "call world \<Rightarrow> watch_lib \<Rightarrow> nat \<Rightarrow> unit io" where
  "watch_run W L fuel = go_try (watch_value W L fuel) (\<lambda>_. watch_addr W L fuel)"

section \<open>mdns-discovery\<close>

text \<open>
  An item found, with its address, the number of transport addresses in it and whether it names the
  server. \<open>md_listen\<close>: whether a listener has stopped when the program looks, and with which error
  if any; \<open>md_found\<close>: what resolving yields.
\<close>

record md_item =
  mi_addr :: endpoint_addr
  mi_count :: nat
  mi_provenance :: string
  mi_same :: bool

record md_lib =
  md_listen :: "io_hist \<Rightarrow> gerr option option"
  md_found :: "io_hist \<Rightarrow> (gerr + md_item) list"

definition md_alpn :: string where
  "md_alpn = ''go-iroh-examples/mdns-discovery/1''"

definition discover_wait :: duration where
  "discover_wait = 15000000000"

definition needs_multicast :: string where
  "needs_multicast = ''mDNS needs a multicast-capable interface''"

definition unique_service :: "call world \<Rightarrow> string io" where
  "unique_service W =
     go_try (invoke_get W got_bytes (Os (RandomBytes 4))) (\<lambda>b. go_ret (''go-iroh-examples-'' @ hex_encode b))"

definition wait_listening :: "call world \<Rightarrow> md_lib \<Rightarrow> gerr option option io" where
  "wait_listening W M = query W (\<lambda>_ h _. md_listen M h) (Os Select)"

definition stopped_line :: "gerr option \<Rightarrow> string" where
  "stopped_line e =
     ''mDNS listener stopped ('' @ (case e of None \<Rightarrow> ''<nil>'' | Some e \<Rightarrow> err_text e) @ ''); '' @ needs_multicast"

definition start_listening :: "call world \<Rightarrow> md_lib \<Rightarrow> nat \<Rightarrow> unit io \<Rightarrow> unit io" where
  "start_listening W M d k =
     go_then (new_object W (Lib ''Discovery.Start'' [d] []))
     (go_try (wait_listening W M) (\<lambda>s.
      case s of
        Some e \<Rightarrow> println (stopped_line e)
      | None \<Rightarrow> k))"

definition discover :: "call world \<Rightarrow> md_lib \<Rightarrow> nat \<Rightarrow> string \<Rightarrow> md_item option io" where
  "discover W M seeker i =
     go_try (query W (\<lambda>_ h _. md_found M h) (Lib ''Discovery.Resolve'' [seeker] [i])) (\<lambda>items.
     case items of
       [] \<Rightarrow> go_ret None
     | Inl e # _ \<Rightarrow> go_fail e
     | Inr item # _ \<Rightarrow> go_ret (Some item))"

abbreviation (input) md_exchange where
  "md_exchange \<equiv> exchange_during"

definition md_dial :: "call world \<Rightarrow> relay_lib \<Rightarrow> nat \<Rightarrow> nat \<Rightarrow> md_item \<Rightarrow> unit io" where
  "md_dial W L server client item =
     go_then (println (''discovered by id: '' @ digits_of (mi_count item) @ '' address(es)''))
     (go_then (println (''provenance: '' @ mi_provenance item))
     (go_then (say_bool ''same endpoint:'' (mi_same item))
     (go_try (go_wrap ''dial discovered address'' (invoke W (Net (Connect client (mi_addr item) md_alpn)))) (\<lambda>conn.
      go_defer (invoke W (Net (CloseConn conn 0 [])))
        (go_try (md_exchange W conn ''mdns hello'' (infra_accept W server)) (\<lambda>(reply, served).
         go_try (go_lift served) (\<lambda>_.
         go_then (println (''reply: '' @ reply))
         (say_path W L ''path:'' conn))))))))"

definition md_seek :: "call world \<Rightarrow> relay_lib \<Rightarrow> md_lib \<Rightarrow> nat \<Rightarrow> nat \<Rightarrow> nat \<Rightarrow> unit io" where
  "md_seek W L M server client seeker =
     go_try (query W got_text (Net (EndpointID server))) (\<lambda>i.
     go_try (discover W M seeker i) (\<lambda>r.
     case r of
       None \<Rightarrow> println (''no peer discovered over mDNS in '' @ duration_text discover_wait @ ''; '' @ needs_multicast)
     | Some item \<Rightarrow> md_dial W L server client item))"

abbreviation (input) md_bind where
  "md_bind \<equiv> bind_loopback"

definition md_run :: "call world \<Rightarrow> relay_lib \<Rightarrow> md_lib \<Rightarrow> unit io" where
  "md_run W L M =
     go_try (unique_service W) (\<lambda>service.
     go_try (ask W (Lib ''mdns.DefaultServiceName'' [] [])) (\<lambda>dflt.
     go_then (println (''default service: '' @ dflt))
     (go_try (invoke_get W got_text (Os GenerateKey)) (\<lambda>sk.
      go_try (query W got_text (Os (PublicID sk))) (\<lambda>i.
      go_try (new_object W (Lib ''mdns.New'' [] [i, service])) (\<lambda>announcer.
      go_try (md_bind W [WithSecretKey sk, WithALPNs [md_alpn], WithAddressLookup ''announce'']) (\<lambda>server.
      go_defer (shutdown W server)
        (go_try (invoke_get W got_text (Os GenerateKey)) (\<lambda>csk.
         go_try (query W got_text (Os (PublicID csk))) (\<lambda>ci.
         go_try (new_object W (Lib ''mdns.New'' [] [ci, service, ''passive''])) (\<lambda>seeker.
         go_try (md_bind W [WithSecretKey csk, WithAddressLookup ''seek'']) (\<lambda>client.
         go_defer (shutdown W client)
           (start_listening W M announcer
             (go_try (query W got_texts (Net (IPAddrs (AddrOf server)))) (\<lambda>ips.
              go_then (println (''announcing: '' @ digits_of (length ips) @ '' address(es)''))
              (go_then (new_object W (Lib ''Discovery.Publish'' [announcer] []))
              (go_then (new_object W (Lib ''time.Sleep'' [] [''1s'']))
              (start_listening W M seeker (md_seek W L M server client seeker)))))))))))))))))))"

section \<open>What is given back\<close>

lemmas watch_calls = set_text_def set_nat_def react_def updated_once_def wo_serve_def

lemma owns_watch_run: "owns opens_endpoint frees_endpoint {} (watch_run W L fuel) (\<lambda>_. {})"
proof -
  have stream: "owns opens_endpoint frees_endpoint {} (value_stream W L fuel v s) (\<lambda>_. {})" for v s
    unfolding value_stream_def watch_calls by (rule owns_loop program_rules | simp split: sum.split)+
  have addrs: "owns opens_endpoint frees_endpoint {} (addr_stream W L fuel ep) (\<lambda>_. {})"
    "owns opens_endpoint frees_endpoint {} (await_external W L fuel ep) (\<lambda>_. {})" for ep
    unfolding addr_stream_def await_external_def by (rule owns_loop program_rules | simp split: sum.split)+
  have dial: "owns opens_endpoint frees_endpoint {} (wo_dial W server msg ended) (\<lambda>_. {})" for server msg ended
    unfolding wo_dial_def watch_calls
    by (simp only: Diff_cancel | rule bound_rules owns_exchange_during program_rules | simp)+
  show ?thesis
    unfolding watch_run_def watch_value_def watch_addr_def watch_calls
    by (simp only: Diff_cancel | rule stream addrs dial bound_rules program_rules | simp)+
qed

lemma owns_md_run: "owns opens_endpoint frees_endpoint {} (md_run W L M) (\<lambda>_. {})"
proof -
  have seek: "owns opens_endpoint frees_endpoint {} (md_seek W L M server client seeker) (\<lambda>_. {})" for server client seeker
    unfolding md_seek_def md_dial_def discover_def infra_accept_def relay_calls
    by (rule owns_exchange_during program_rules | simp)+
  show ?thesis
    unfolding md_run_def start_listening_def wait_listening_def unique_service_def
    by (simp only: Diff_cancel | rule seek bound_rules program_rules | simp)+
qed

section \<open>Property\<close>

text \<open>
  What the library documents of a stream of a value: it gives the value as it is, and then the
  value as it is whenever that differs from what it gave last; else it waits, here until the
  context is over. \<open>set_value\<close> is what the value was last set to, \<open>last_given\<close> what the stream has
  given last.
\<close>

fun set_value :: "nat \<Rightarrow> io_hist \<Rightarrow> nat" where
  "set_value v [] = 0"
| "set_value v (Did (Lib f xs ss) # h) =
     (if f = ''Value.Set'' then (case xs of [w, n] \<Rightarrow> if w = v then n else set_value v h | _ \<Rightarrow> set_value v h)
      else set_value v h)"
| "set_value v (e # h) = set_value v h"

fun last_given :: "nat \<Rightarrow> nat \<Rightarrow> io_hist \<Rightarrow> nat option" where
  "last_given v s [] = None"
| "last_given v s (Did (Lib f xs ss) # h) =
     (if f = ''Stream.next'' \<and> xs = [s] then Some (set_value v h) else last_given v s h)"
| "last_given v s (e # h) = last_given v s h"

definition streams_latest :: "watch_lib \<Rightarrow> bool" where
  "streams_latest L \<longleftrightarrow>
     (\<forall>h v s. wl_stream L h v s = (if last_given v s h = Some (set_value v h) then None else Some (set_value v h)))"

lemma value_stream_tells:
  assumes "streams_latest L" and "set_value v h = 0" and "last_given v s h = None"
  shows "fst (value_stream W L (n + 3) v s h) = Inr () \<and>
    stdout_of (snd (value_stream W L (n + 3) v s h)) = stdout_of h @ [''stream: 0'', ''stream: 1'', ''stream: 2'']"
proof -
  have law: "wl_stream L h v s = (if last_given v s h = Some (set_value v h) then None else Some (set_value v h))" for h
    using assms(1) by (simp add: streams_latest_def)
  have digits: "digits_of 0 = ''0''" "digits_of 1 = ''1''" "digits_of (Suc 0) = ''1''" "digits_of (Suc (Suc 0)) = ''2''"
    by code_simp+
  show ?thesis
    by (simp add: value_stream_def watch_calls new_object_def go_simps law assms(2,3) digits eval_nat_numeral)
qed

text \<open>The stream of a value shows each value once: with a stream that gives the latest value whenever it has
  changed, the loop that sets 1 at 0, and 1 and 2 at 1, prints 0, 1 and 2, each once, and then
  stops, however many rounds beyond three it may run; so whenever the first part of watch-observer
  returns without an error it has printed the value, one update and these three, and it does so
  if the wait for the update does not fail.\<close>

lemma each_value_once:
  assumes "streams_latest L"
  shows "(fst (watch_value W L (n + 3) []) = Inr () \<longrightarrow>
      (\<exists>c u. stdout_of (snd (watch_value W L (n + 3) [])) =
        [''current: '' @ c, ''updated: '' @ u, ''stream: 0'', ''stream: 1'', ''stream: 2''])) \<and>
    ((\<forall>h v. \<not> isl (wl_updated L h v)) \<longrightarrow> fst (watch_value W L (n + 3) []) = Inr ())"
proof -
  note stream = value_stream_tells [OF assms, THEN conjunct1] value_stream_tells [OF assms, THEN conjunct2]
  show ?thesis
    by (auto simp: watch_value_def updated_once_def set_text_def new_object_def go_simps stream split: sum.splits)
      (metis sum.disc(1))
qed

definition watch_example :: watch_lib where
  "watch_example = \<lparr>wl_current = \<lambda>_ _. ''starting'', wl_updated = \<lambda>_ _. Inr ''ready'',
     wl_stream = \<lambda>h v s. if last_given v s h = Some (set_value v h) then None else Some (set_value v h),
     al_current = \<lambda>_ _. [], al_updated = \<lambda>_ _. Inr [], al_stream = \<lambda>_ _. None\<rparr>"

lemma each_value_once_witness:
  "fst (watch_value carrying watch_example 3 []) = Inr () \<and>
   (\<exists>c u. stdout_of (snd (watch_value carrying watch_example 3 [])) =
     [''current: '' @ c, ''updated: '' @ u, ''stream: 0'', ''stream: 1'', ''stream: 2''])"
proof -
  have "streams_latest watch_example"
    by (simp add: streams_latest_def watch_example_def)
  from each_value_once [OF this, of carrying 0] show ?thesis
    by (simp add: watch_example_def)
qed

end
