(* ===== verification/Mains.thy ===== *)
theory Mains
  imports Framing GossipKV SendmeReceive Dumbpipe Gateway CustomRouter PathSelection Qlog Automerge Tickets
    GossipTopic Negotiation WorkQueue PublicEndpoint Docs BlobsStore
    EchoPrograms Telemetry StreamPrograms Graceful BlobFetch Watching
begin

text \<open>
  The processes: \<^verbatim>\<open>main\<close> of each program, which runs it, reports an error and exits. \<^verbatim>\<open>os.Exit\<close>
  runs no deferred function, so what a program gives back it has to give back before \<^verbatim>\<open>run\<close>
  returns; \<open>exits_closed\<close> is that property of the whole process, for the endpoints. The mains of
  sendme, dumbpipe, public-endpoint, blobs-store and relay-limits stand in the theories of their
  programs.
\<close>

section \<open>Programs without arguments\<close>

definition framed_main :: "call world \<Rightarrow> io_hist \<Rightarrow> nat \<times> io_hist" where
  "framed_main W = plain_main (chess_run W)"

definition frames_main :: "call world \<Rightarrow> io_hist \<Rightarrow> nat \<times> io_hist" where
  "frames_main W = plain_main (dgram_run W)"

definition kv_main ::
  "call world \<Rightarrow> ('sk, 'pk, 'sg) crypto \<Rightarrow> nat \<Rightarrow> io_hist \<Rightarrow> nat \<times> io_hist" where
  "kv_main W C fuel = plain_main (kv_run W C fuel)"

definition gateway_main ::
  "call world \<Rightarrow> blob_lib \<Rightarrow> gateway_lib \<Rightarrow> io_hist \<Rightarrow> nat \<times> io_hist" where
  "gateway_main W L G = plain_main (gateway_run W L G)"

definition router_main :: "call world \<Rightarrow> nat \<Rightarrow> io_hist \<Rightarrow> nat \<times> io_hist" where
  "router_main W fuel = plain_main (router_run W fuel)"

definition transport_main ::
  "call world \<Rightarrow> (io_hist \<Rightarrow> path_info list) \<Rightarrow> io_hist \<Rightarrow> nat \<times> io_hist" where
  "transport_main W paths = plain_main (ct_run W paths)"

definition path_main ::
  "call world \<Rightarrow> 'a address_lib \<Rightarrow> (io_hist \<Rightarrow> path_info list) \<Rightarrow> (io_hist \<Rightarrow> path_info list option list) \<Rightarrow> (io_hist \<Rightarrow> ('a option \<times> 'a list) list) \<Rightarrow> io_hist \<Rightarrow> nat \<times> io_hist" where
  "path_main W A paths watched offered = plain_main (path_run W A paths watched offered)"

definition qlog_main ::
  "call world \<Rightarrow> (io_hist \<Rightarrow> sink_op list) \<Rightarrow> (string \<Rightarrow> gerr) \<Rightarrow> nat \<Rightarrow> io_hist \<Rightarrow> nat \<times> io_hist" where
  "qlog_main W snk E fuel = plain_main (qlog_run W snk E fuel)"

definition automerge_main ::
  "call world \<Rightarrow> ('doc, 'st) automerge_lib \<Rightarrow> nat \<Rightarrow> io_hist \<Rightarrow> nat \<times> io_hist" where
  "automerge_main W A fuel = plain_main (am_run W A fuel)"

definition tickets_main ::
  "call world \<Rightarrow> ticket_errors \<Rightarrow> string \<Rightarrow> io_hist \<Rightarrow> nat \<times> io_hist" where
  "tickets_main W D kind = plain_main (tickets_run W D kind)"

definition topic_main ::
  "call world \<Rightarrow> (io_hist \<Rightarrow> nat \<Rightarrow> topic_event list) \<Rightarrow> nat \<Rightarrow> io_hist \<Rightarrow> nat \<times> io_hist" where
  "topic_main W events fuel = plain_main (topic_run W events fuel)"

definition negotiation_main :: "call world \<Rightarrow> nat \<Rightarrow> io_hist \<Rightarrow> nat \<times> io_hist" where
  "negotiation_main W fuel = plain_main (neg_run W fuel)"

definition key_exchange_main ::
  "call world \<Rightarrow> postcard_lib \<Rightarrow> nat \<Rightarrow> io_hist \<Rightarrow> nat \<times> io_hist" where
  "key_exchange_main W P fuel = plain_main (kx_run W P fuel)"

definition workqueue_main ::
  "call world \<Rightarrow> (io_hist \<Rightarrow> wq_request \<Rightarrow> wq_response option) \<Rightarrow> nat list \<Rightarrow> io_hist \<Rightarrow> nat \<times> io_hist" where
  "workqueue_main W answer finished = plain_main (wq_run W answer finished)"

definition docs_main ::
  "call world \<Rightarrow> doc_view \<Rightarrow> (io_hist \<Rightarrow> (nat \<times> nat) list) \<Rightarrow> io_hist \<Rightarrow> nat \<times> io_hist" where
  "docs_main W view results = plain_main (ds_run W view results)"

definition live_sync_main :: "call world \<Rightarrow> doc_view \<Rightarrow> nat \<Rightarrow> io_hist \<Rightarrow> nat \<times> io_hist" where
  "live_sync_main W view fuel = plain_main (dl_run W view fuel)"

definition direct_main :: "call world \<Rightarrow> io_hist \<Rightarrow> nat \<times> io_hist" where
  "direct_main W = plain_main (direct_run W)"

definition metrics_main :: "call world \<Rightarrow> io_hist \<Rightarrow> nat \<times> io_hist" where
  "metrics_main W = plain_main (metrics_run W)"

definition hooks_main ::
  "call world \<Rightarrow> (io_hist \<Rightarrow> hook_call list) \<Rightarrow> io_hist \<Rightarrow> nat \<times> io_hist" where
  "hooks_main W hooked = plain_main (hooks_run W hooked)"

definition router_echo_main :: "call world \<Rightarrow> io_hist \<Rightarrow> nat \<times> io_hist" where
  "router_echo_main W = plain_main (router_echo_run W)"

definition memory_main :: "call world \<Rightarrow> io_hist \<Rightarrow> nat \<times> io_hist" where
  "memory_main W = plain_main (memory_run W)"

definition multi_main :: "call world \<Rightarrow> io_hist \<Rightarrow> nat \<times> io_hist" where
  "multi_main W = plain_main (multi_run W)"

definition ping_main :: "call world \<Rightarrow> io_hist \<Rightarrow> nat \<times> io_hist" where
  "ping_main W = plain_main (ping_run W)"

definition manual_main :: "call world \<Rightarrow> io_hist \<Rightarrow> nat \<times> io_hist" where
  "manual_main W = plain_main (manual_run W)"

definition validation_main :: "call world \<Rightarrow> io_hist \<Rightarrow> nat \<times> io_hist" where
  "validation_main W = plain_main (validation_run W)"

definition filter_main :: "call world \<Rightarrow> io_hist \<Rightarrow> nat \<times> io_hist" where
  "filter_main W = plain_main (filter_run W)"

definition uni_main :: "call world \<Rightarrow> (string \<Rightarrow> gerr) \<Rightarrow> io_hist \<Rightarrow> nat \<times> io_hist" where
  "uni_main W bad = plain_main (uni_run W bad)"

definition dvs_main :: "call world \<Rightarrow> nat \<Rightarrow> io_hist \<Rightarrow> nat \<times> io_hist" where
  "dvs_main W fuel = plain_main (dvs_run W fuel)"

definition tuning_main :: "call world \<Rightarrow> io_hist \<Rightarrow> nat \<times> io_hist" where
  "tuning_main W = plain_main (tuning_run W)"

definition netconn_main :: "call world \<Rightarrow> io_hist \<Rightarrow> nat \<times> io_hist" where
  "netconn_main W = plain_main (netconn_run W)"

definition listener_main :: "call world \<Rightarrow> io_hist \<Rightarrow> nat \<times> io_hist" where
  "listener_main W = plain_main (listener_run W)"

definition quic_main ::
  "call world \<Rightarrow> (io_hist \<Rightarrow> nat \<Rightarrow> gerr) \<Rightarrow> io_hist \<Rightarrow> nat \<times> io_hist" where
  "quic_main W cause = plain_main (quic_run W cause)"

definition close_main ::
  "call world \<Rightarrow> (io_hist \<Rightarrow> nat \<Rightarrow> gerr) \<Rightarrow> io_hist \<Rightarrow> nat \<times> io_hist" where
  "close_main W cause = plain_main (close_run W cause)"

definition graceful_main :: "call world \<Rightarrow> io_hist \<Rightarrow> nat \<times> io_hist" where
  "graceful_main W = plain_main (graceful_run W)"

definition ranges_main :: "call world \<Rightarrow> blob_pieces \<Rightarrow> 64 word \<Rightarrow> io_hist \<Rightarrow> nat \<times> io_hist" where
  "ranges_main W piece chunk = plain_main (br_run W piece chunk)"

definition filtering_main :: "call world \<Rightarrow> pkarr_lib \<Rightarrow> nat \<Rightarrow> io_hist \<Rightarrow> nat \<times> io_hist" where
  "filtering_main W P tries = plain_main (af_run W P tries)"

definition pkarr_packet_main :: "call world \<Rightarrow> io_hist \<Rightarrow> nat \<times> io_hist" where
  "pkarr_packet_main W = plain_main (pk_run W)"

definition addresses_main :: "call world \<Rightarrow> io_hist \<Rightarrow> nat \<times> io_hist" where
  "addresses_main W = plain_main (addresses_run W)"

definition keys_main :: "call world \<Rightarrow> io_hist \<Rightarrow> nat \<times> io_hist" where
  "keys_main W = plain_main (keys_run W)"

definition infra_main ::
  "call world \<Rightarrow> relay_lib \<Rightarrow> nat \<Rightarrow> (io_hist \<Rightarrow> (gerr + string \<times> nat) list) \<Rightarrow> io_hist \<Rightarrow> nat \<times> io_hist" where
  "infra_main W R fuel items = plain_main (infra_run W R fuel items)"

definition upgrade_main :: "call world \<Rightarrow> relay_lib \<Rightarrow> nat \<Rightarrow> io_hist \<Rightarrow> nat \<times> io_hist" where
  "upgrade_main W R fuel = plain_main (pu_run W R fuel)"

definition mdns_main :: "call world \<Rightarrow> relay_lib \<Rightarrow> md_lib \<Rightarrow> io_hist \<Rightarrow> nat \<times> io_hist" where
  "mdns_main W R M = plain_main (md_run W R M)"

definition watch_main :: "call world \<Rightarrow> watch_lib \<Rightarrow> nat \<Rightarrow> io_hist \<Rightarrow> nat \<times> io_hist" where
  "watch_main W O' fuel = plain_main (watch_run W O' fuel)"

section \<open>Programs with flags\<close>

definition transfer_main :: "call world \<Rightarrow> string list \<Rightarrow> io_hist \<Rightarrow> nat \<times> io_hist" where
  "transfer_main W args = flag_main (bt_run W args)"

definition publish_main ::
  "call world \<Rightarrow> nat \<Rightarrow> (io_hist \<Rightarrow> (gerr + string \<times> string list) list) \<Rightarrow> string list \<Rightarrow> io_hist \<Rightarrow> nat \<times> io_hist" where
  "publish_main W tries items args = flag_main (pp_run W tries items args)"

definition resolve_main ::
  "call world \<Rightarrow> (io_hist \<Rightarrow> (gerr + dns_item) list) \<Rightarrow> string \<Rightarrow> string list \<Rightarrow> io_hist \<Rightarrow> nat \<times> io_hist" where
  "resolve_main W items origin args = flag_main (dr_run W items origin args)"

definition doctor_main ::
  "call world \<Rightarrow> relay_lib \<Rightarrow> nat \<Rightarrow> string list \<Rightarrow> io_hist \<Rightarrow> nat \<times> io_hist" where
  "doctor_main W R fuel args = flag_main (doctor_run W R fuel args)"

definition net_report_main ::
  "call world \<Rightarrow> relay_lib \<Rightarrow> nat \<Rightarrow> string list \<Rightarrow> io_hist \<Rightarrow> nat \<times> io_hist" where
  "net_report_main W R fuel args = flag_main (net_report_run W R fuel args)"

definition relay_online_main ::
  "call world \<Rightarrow> relay_lib \<Rightarrow> string list \<Rightarrow> io_hist \<Rightarrow> nat \<times> io_hist" where
  "relay_online_main W R args = flag_main (relay_online_run W R args)"

section \<open>What a process leaves open\<close>

definition exits_closed :: "(io_hist \<Rightarrow> nat \<times> io_hist) \<Rightarrow> bool" where
  "exits_closed p \<longleftrightarrow> endpoints_open (snd (p [])) = {}"

lemma endpoints_open_report: "endpoints_open (ErrOut s # h) = endpoints_open h"
  by (simp add: endpoints_open_def)

lemma endpoints_open_usage: "endpoints_open (snd (println_all ls h)) \<subseteq> endpoints_open h"
  unfolding endpoints_open_def by (rule owns_leaked) (rule owns_println_all)

text \<open>A run that gives its endpoints back, in each kind of \<^verbatim>\<open>main\<close>.\<close>

lemma run_closes: "owns opens_endpoint frees_endpoint {} m (\<lambda>_. {}) \<Longrightarrow> endpoints_open (snd (m [])) = {}"
  using owns_leaked [of opens_endpoint frees_endpoint m "[]"] by (simp add: endpoints_open_def)

lemma plain_main_closed: "owns opens_endpoint frees_endpoint {} m (\<lambda>_. {}) \<Longrightarrow> exits_closed (plain_main m)"
  by (drule run_closes) (cases "m []"; auto simp: exits_closed_def plain_main_def endpoints_open_report split: sum.splits)

lemma flag_main_closed: "owns opens_endpoint frees_endpoint {} m (\<lambda>_. {}) \<Longrightarrow> exits_closed (flag_main m)"
  by (drule run_closes) (cases "m []"; auto simp: exits_closed_def flag_main_def endpoints_open_report split: sum.splits)

lemma sendme_main_closed: "owns opens_endpoint frees_endpoint {} m (\<lambda>_. {}) \<Longrightarrow> exits_closed (sendme_main m)"
  using endpoints_open_usage [of usage_lines]
  by (drule_tac run_closes) (fastforce simp: exits_closed_def sendme_main_def endpoints_open_report split: prod.split sum.split)

lemma dp_main_closed: "owns opens_endpoint frees_endpoint {} m (\<lambda>_. {}) \<Longrightarrow> exits_closed (dp_main m)"
  using endpoints_open_usage [of dp_usage_lines]
  by (drule_tac run_closes) (fastforce simp: exits_closed_def dp_main_def endpoints_open_report split: prod.split sum.split)

lemma pe_main_closed: "exits_closed (pe_main W fuel args)"
  using run_closes [OF owns_pe_run [of W fuel args]] endpoints_open_usage [of pe_usage_lines]
  by (fastforce simp: exits_closed_def pe_main_def endpoints_open_report split: prod.split sum.split)

lemma bs_main_closed: "exits_closed (bs_main W V args)"
  using flag_main_closed [OF owns_bs_run [of W V args]]
  by (simp add: exits_closed_def bs_main_def flag_main_def)

lemma limits_main_closed: "exits_closed (limits_main W L fuel args)"
proof -
  have env: "owns opens_endpoint frees_endpoint {} (go_try (env_int64 W a x) (\<lambda>b. go_try (env_int64 W c y) (\<lambda>r. go_ret (b, r)))) (\<lambda>_. {})"
    for a c x y
    unfolding env_int64_def by (rule program_rules | simp)+
  have run: "endpoints_open (snd (plain_main (limits_run W L fuel b r) h)) \<subseteq> endpoints_open h" for b r h
    using owns_leaked [OF owns_limits_run [of W L fuel b r], of h]
    by (cases "limits_run W L fuel b r h") (auto simp: plain_main_def endpoints_open_report simp flip: endpoints_open_def split: sum.splits)
  obtain x h where x: "go_try (env_int64 W ''IROH_EXAMPLE_BYTES'' (2 * 2 ^ 20)) (\<lambda>b.
      go_try (env_int64 W ''IROH_EXAMPLE_RATE'' (2 ^ 20)) (\<lambda>r. go_ret (b, r))) [] = (x, h)"
    by (rule prod.exhaust)
  have "endpoints_open h = {}"
    using run_closes [OF env] x by (metis snd_conv)
  then show ?thesis
    using run [of _ _ h] unfolding exits_closed_def limits_main_def x
    by (auto split: sum.splits)
qed

end
