(* ===== verification/Catalog.thy ===== *)
theory Catalog
  imports GoPath
begin

text \<open>
  \<^verbatim>\<open>internal/catalog/catalog.go\<close>: the README's progression, its check against the tree, and
  what is read from each example's source. The README's regular expressions are modelled as
  what they match line by line; Go's parser is a parameter, its result a tree of calls,
  selectors, identifiers and literals.
\<close>

section \<open>The progression\<close>

record group =
  grp_key :: string
  grp_title :: string

definition is_re_space :: "char \<Rightarrow> bool" where
  "is_re_space c \<longleftrightarrow> c \<in> set [CHR '' '', CHR 0x09, CHR 0x0A, CHR 0x0C, CHR 0x0D]"

definition is_slug_char :: "char \<Rightarrow> bool" where
  "is_slug_char c \<longleftrightarrow> (let n = (of_char c :: nat) in 97 \<le> n \<and> n \<le> 122 \<or> 48 \<le> n \<and> n \<le> 57)"

text \<open>\<^verbatim>\<open>slugRE\<close>: each run of other characters becomes one hyphen; \<open>gap\<close>: inside a run.\<close>

fun slug_runs :: "bool \<Rightarrow> string \<Rightarrow> string" where
  "slug_runs gap [] = []"
| "slug_runs gap (c # cs) =
     (if is_slug_char c then c # slug_runs False cs
      else if gap then slug_runs True cs else CHR ''-'' # slug_runs True cs)"

definition slug :: "string \<Rightarrow> string" where
  "slug title = trim (\<lambda>c. c = CHR ''-'') (slug_runs False (to_lower title))"

text \<open>\<^verbatim>\<open>progressionRE\<close>, \<^verbatim>\<open>nextTopRE\<close>, \<^verbatim>\<open>sectionRE\<close> and \<^verbatim>\<open>rowRE\<close>, on one line.\<close>

definition is_progression :: "string \<Rightarrow> bool" where
  "is_progression line =
     (case cut_prefix ''## Progression'' line of None \<Rightarrow> False | Some rest \<Rightarrow> list_all is_re_space rest)"

definition is_next_top :: "string \<Rightarrow> bool" where
  "is_next_top line = has_prefix ''## '' line"

text \<open>The title is cut off before trailing white space but keeps one character.\<close>

definition section_title :: "string \<Rightarrow> string option" where
  "section_title line =
     (case cut_prefix ''### '' line of
        None \<Rightarrow> None
      | Some [] \<Rightarrow> None
      | Some (c # cs) \<Rightarrow> Some (c # trim_right is_re_space cs))"

definition row_name :: "string \<Rightarrow> string option" where
  "row_name line =
     (case cut_prefix (''| '' @ [CHR 0x60]) line of
        None \<Rightarrow> None
      | Some rest \<Rightarrow>
        (case cut [CHR 0x60] rest of
           (name, after, found) \<Rightarrow>
             if found \<and> name \<noteq> [] \<and> is_slug_char (hd name) \<and>
                list_all (\<lambda>c. is_slug_char c \<or> c = CHR ''-'') name \<and> has_prefix '' |'' after
             then Some name else None))"

text \<open>
  The lines below the heading, up to the next section of the top level. The headings open
  groups; a row before the first heading belongs to none and is not read.
\<close>

definition body_lines :: "string \<Rightarrow> string list option" where
  "body_lines text =
     (case dropWhile (\<lambda>l. \<not> is_progression l) (split_on (CHR 0x0A) text) of
        [] \<Rightarrow> None
      | _ # rest \<Rightarrow> Some (takeWhile (\<lambda>l. \<not> is_next_top l) rest))"

record progress =
  pg_groups :: "group list"
  pg_order :: "string list"
  pg_group :: "(string \<times> string) list"

fun read_lines :: "string \<Rightarrow> string list \<Rightarrow> progress \<Rightarrow> gerr + progress" where
  "read_lines path [] p = Inr p"
| "read_lines path (l # ls) p =
     (case section_title l of
        Some t \<Rightarrow> read_lines path ls (p\<lparr>pg_groups := pg_groups p @ [\<lparr>grp_key = slug t, grp_title = t\<rparr>]\<rparr>)
      | None \<Rightarrow>
        (case row_name l of
           Some name \<Rightarrow>
             if pg_groups p = [] then read_lines path ls p
             else if name \<in> set (pg_order p) then Inl (Err (path @ '' lists '' @ name @ '' twice''))
             else read_lines path ls (p\<lparr>pg_order := pg_order p @ [name],
                    pg_group := (name, grp_key (last (pg_groups p))) # pg_group p\<rparr>)
         | None \<Rightarrow> read_lines path ls p))"

definition progression :: "string \<Rightarrow> string \<Rightarrow> gerr + progress" where
  "progression path text =
     (case body_lines text of
        None \<Rightarrow> Inl (Err (path @ '' has no \"## Progression\" section''))
      | Some ls \<Rightarrow>
        (case read_lines path ls \<lparr>pg_groups = [], pg_order = [], pg_group = []\<rparr> of
           Inl e \<Rightarrow> Inl e
         | Inr p \<Rightarrow> if pg_groups p = [] then Inl (Err (path @ '' progression has no groups'')) else Inr p))"

section \<open>Agreement with the tree\<close>

text \<open>\<^verbatim>\<open>%v\<close> of a slice of strings.\<close>

definition show_names :: "string list \<Rightarrow> string" where
  "show_names ns = ''['' @ join '' '' ns @ '']''"

definition agree :: "string list \<Rightarrow> string list \<Rightarrow> gerr option" where
  "agree order dirs =
     (let missing = filter (\<lambda>d. d \<notin> set order) dirs;
          extra = filter (\<lambda>d. d \<notin> set dirs) order in
      if missing \<noteq> [] \<and> extra \<noteq> []
      then Some (Err (''README lists '' @ show_names extra @ '', which are not in cmd, and omits '' @ show_names missing @ '', which are''))
      else if missing \<noteq> [] then Some (Err (''README progression omits '' @ show_names missing))
      else if extra \<noteq> [] then Some (Err (''README progression lists '' @ show_names extra @ '', which are not in cmd''))
      else None)"

section \<open>Sources\<close>

text \<open>
  \<open>Branch\<close> is any other node, with its children in the order \<^verbatim>\<open>ast.Inspect\<close> visits them. A
  string literal carries its value.
\<close>

datatype ast =
    Call ast "ast list"
  | Ident string
  | Selector ast string
  | StrLit string
  | Branch "ast list"

text \<open>The calls of a tree, each before the calls inside it.\<close>

fun calls_in :: "ast \<Rightarrow> (ast \<times> ast list) list" where
  "calls_in (Call f args) = (f, args) # calls_in f @ concat (map calls_in args)"
| "calls_in (Ident x) = []"
| "calls_in (Selector a x) = calls_in a"
| "calls_in (StrLit s) = []"
| "calls_in (Branch as) = concat (map calls_in as)"

fun callee_name :: "ast \<Rightarrow> string" where
  "callee_name (Selector a x) = x"
| "callee_name (Ident x) = x"
| "callee_name a = []"

fun string_lit :: "ast \<Rightarrow> string option" where
  "string_lit (StrLit s) = Some s"
| "string_lit a = None"

definition env_call :: "string \<Rightarrow> bool" where
  "env_call name \<longleftrightarrow> name = ''Getenv'' \<or> name = ''LookupEnv'' \<or> has_prefix ''env'' (to_lower name)"

definition default_env :: "ast \<Rightarrow> string" where
  "default_env d =
     (case d of
        Call f (a # as) \<Rightarrow>
          if env_call (callee_name f) then (case string_lit a of None \<Rightarrow> [] | Some s \<Rightarrow> s) else []
      | _ \<Rightarrow> [])"

record flag_decl =
  fd_name :: string
  fd_usage :: string
  fd_env :: string

definition flag_callees :: "string list" where
  "flag_callees = [''String'', ''Bool'', ''Int'', ''Uint'', ''Int64'', ''Uint64'', ''Float64'', ''Duration'']"

definition flag_of_call :: "ast \<Rightarrow> ast list \<Rightarrow> flag_decl list" where
  "flag_of_call f args =
     (case args of
        [n, d, u] \<Rightarrow>
          if callee_name f \<in> set flag_callees then
            (case (string_lit n, string_lit u) of
               (Some name, Some usage) \<Rightarrow> [\<lparr>fd_name = name, fd_usage = usage, fd_env = default_env d\<rparr>]
             | _ \<Rightarrow> [])
          else []
      | _ \<Rightarrow> [])"

definition scan_flags :: "ast \<Rightarrow> flag_decl list" where
  "scan_flags file = concat (map (\<lambda>(f, args). flag_of_call f args) (calls_in file))"

definition env_of_call :: "ast \<Rightarrow> ast list \<Rightarrow> string option" where
  "env_of_call f args =
     (case args of
        [] \<Rightarrow> None
      | a # _ \<Rightarrow> if env_call (callee_name f) then string_lit a else None)"

definition scan_skip_env :: "ast \<Rightarrow> string list" where
  "scan_skip_env file = sort (uniq {} (List.map_filter (\<lambda>(f, args). env_of_call f args) (calls_in file)))"

text \<open>Up to the first period that ends the text or stands before a space.\<close>

fun up_to_period :: "string \<Rightarrow> string" where
  "up_to_period [] = []"
| "up_to_period (c # cs) =
     (if c = CHR ''.'' \<and> (cs = [] \<or> hd cs = CHR '' '') then [] else c # up_to_period cs)"

definition first_sentence :: "string \<Rightarrow> string" where
  "first_sentence text = up_to_period (join '' '' (GoStrings.fields text))"

section \<open>Loading\<close>

record example_info =
  ex_dir :: string
  ex_group :: string
  ex_summary :: string
  ex_doc :: string
  ex_flags :: "flag_decl list"
  ex_skip_env :: "string list"
  ex_imports :: "string list"

text \<open>\<^verbatim>\<open>Network\<close>: an example whose test consults an environment variable.\<close>

definition needs_network :: "example_info \<Rightarrow> bool" where
  "needs_network e \<longleftrightarrow> ex_skip_env e \<noteq> []"

record source =
  src_doc :: string
  src_imports :: "ast list"
  src_tree :: ast

record catalog =
  cat_groups :: "group list"
  cat_examples :: "example_info list"

text \<open>The directories under \<^verbatim>\<open>cmd\<close> and the parsed files, as functions of the history.\<close>

record tree_view =
  dir_entries :: "io_hist \<Rightarrow> string \<Rightarrow> (string \<times> bool) list"
  parsed :: "io_hist \<Rightarrow> string \<Rightarrow> source"

definition parse_file :: "call world \<Rightarrow> tree_view \<Rightarrow> string \<Rightarrow> source io" where
  "parse_file W V path = invoke_get W (\<lambda>_ h _. parsed V h path) (Lib ''parser.ParseFile'' [] [path])"

definition example_dirs :: "call world \<Rightarrow> tree_view \<Rightarrow> string \<Rightarrow> string list io" where
  "example_dirs W V dir =
     go_try (invoke_get W (\<lambda>_ h _. dir_entries V h dir) (Lib ''os.ReadDir'' [] [dir])) (\<lambda>es.
     go_ret (sort (map fst (filter snd es))))"

definition scan_dir :: "call world \<Rightarrow> tree_view \<Rightarrow> string \<Rightarrow> string \<Rightarrow> example_info io" where
  "scan_dir W V dir name =
     go_try (parse_file W V (path_join [dir, ''main.go''])) (\<lambda>file.
     let doc = trim_space (src_doc file);
         prefix = ''Command '' @ name @ '' '' in
     if \<not> has_prefix prefix doc then go_fail (Err (''doc comment does not open '' @ quote prefix))
     else
       go_catch (parse_file W V (path_join [dir, ''main_test.go''])) (\<lambda>r.
       let ex = \<lparr>ex_dir = name, ex_group = [], ex_summary = first_sentence (trim_prefix prefix doc), ex_doc = doc,
                 ex_flags = scan_flags (src_tree file), ex_skip_env = [],
                 ex_imports = List.map_filter string_lit (src_imports file)\<rparr> in
       case r of
         Inr test_file \<Rightarrow> go_ret (ex\<lparr>ex_skip_env := scan_skip_env (src_tree test_file)\<rparr>)
       | Inl e \<Rightarrow> if e = ErrNotExist then go_ret ex else go_fail e))"

fun load_examples :: "call world \<Rightarrow> tree_view \<Rightarrow> string \<Rightarrow> (string \<times> string) list \<Rightarrow> string list \<Rightarrow> example_info list io" where
  "load_examples W V root grp [] = go_ret []"
| "load_examples W V root grp (name # names) =
     go_try (go_wrap name (scan_dir W V (path_join [root, ''cmd'', name]) name)) (\<lambda>ex.
     go_try (load_examples W V root grp names) (\<lambda>exs.
     go_ret (ex\<lparr>ex_group := (case map_of grp name of None \<Rightarrow> [] | Some g \<Rightarrow> g)\<rparr> # exs)))"

definition load_catalog :: "call world \<Rightarrow> tree_view \<Rightarrow> string \<Rightarrow> catalog io" where
  "load_catalog W V root =
     (let readme = path_join [root, ''README.md''] in
      go_try (invoke_get W got_bytes (Os (ReadFile readme))) (\<lambda>b.
      go_try (go_lift (progression readme (text_of b))) (\<lambda>p.
      go_try (example_dirs W V (path_join [root, ''cmd''])) (\<lambda>dirs.
      case agree (pg_order p) dirs of
        Some e \<Rightarrow> go_fail e
      | None \<Rightarrow>
        go_try (load_examples W V root (pg_group p) (pg_order p)) (\<lambda>exs.
        go_ret \<lparr>cat_groups = pg_groups p, cat_examples = exs\<rparr>)))))"

section \<open>Lemmas\<close>

lemma agree_None: "agree order dirs = None \<longleftrightarrow> set order = set dirs"
  by (auto simp: agree_def Let_def filter_empty_conv split: if_splits)

definition progress_ok :: "progress \<Rightarrow> bool" where
  "progress_ok p \<longleftrightarrow> distinct (pg_order p) \<and>
     (\<forall>name \<in> set (pg_order p). \<exists>g \<in> set (pg_groups p). map_of (pg_group p) name = Some (grp_key g))"

lemma read_lines_ok: "read_lines path ls p = Inr q \<Longrightarrow> progress_ok p \<Longrightarrow> progress_ok q"
proof (induction path ls p rule: read_lines.induct)
  case (2 path l ls p)
  show ?case
  proof (cases "section_title l")
    case (Some t)
    with 2 show ?thesis by (auto simp: progress_ok_def)
  next
    case None
    show ?thesis
    proof (cases "row_name l")
      case row: (Some name)
      show ?thesis
      proof (cases "pg_groups p = [] \<or> name \<in> set (pg_order p)")
        case True
        with 2 None row show ?thesis by (auto split: if_splits)
      next
        case False
        then have "last (pg_groups p) \<in> set (pg_groups p)" by simp
        with "2.prems"(2) False have "progress_ok (p\<lparr>pg_order := pg_order p @ [name],
            pg_group := (name, grp_key (last (pg_groups p))) # pg_group p\<rparr>)"
          by (auto simp: progress_ok_def)
        with 2 None row False show ?thesis by simp
      qed
    qed (use 2 None in auto)
  qed
qed simp

lemma progression_ok: "progression path text = Inr p \<Longrightarrow> progress_ok p"
  by (auto simp: progression_def progress_ok_def split: option.splits sum.splits if_splits dest!: read_lines_ok)

text \<open>What a scanned example's record holds.\<close>

lemma scan_dir_Inr:
  assumes "scan_dir W V dir name h = (Inr ex, h')"
  shows "ex_dir ex = name \<and> has_prefix (''Command '' @ name @ '' '') (ex_doc ex) \<and>
    ex_summary ex = first_sentence (trim_prefix (''Command '' @ name @ '' '') (ex_doc ex))"
  using assms
  by (auto simp: scan_dir_def parse_file_def go_simps Let_def split: option.splits if_splits sum.splits)

lemma load_examples_Inr:
  "load_examples W V root grp names h = (Inr exs, h') \<Longrightarrow>
     map ex_dir exs = names \<and>
     (\<forall>ex \<in> set exs. has_prefix (''Command '' @ ex_dir ex @ '' '') (ex_doc ex) \<and>
        ex_group ex = (case map_of grp (ex_dir ex) of None \<Rightarrow> [] | Some g \<Rightarrow> g))"
proof (induction names arbitrary: exs h h')
  case (Cons name names)
  then obtain ex es h1 h2 where *: "scan_dir W V (path_join [root, ''cmd'', name]) name h = (Inr ex, h1)"
    "load_examples W V root grp names h1 = (Inr es, h2)"
    "exs = ex\<lparr>ex_group := (case map_of grp name of None \<Rightarrow> [] | Some g \<Rightarrow> g)\<rparr> # es"
    by (auto simp: go_try_def go_wrap_def go_ret_def split: prod.splits sum.splits)
  from scan_dir_Inr [OF *(1)] Cons.IH [OF *(2)] *(3) show ?case by auto
qed (simp add: go_ret_def)

lemma trim_ends:
  assumes "trim p s = c # cs" shows "\<not> p c \<and> \<not> p (last (c # cs))"
proof -
  let ?l = "dropWhile p s"
  have e: "rev (dropWhile p (rev ?l)) = c # cs"
    using assms by (simp add: trim_def trim_right_def trim_left_def)
  then have d: "dropWhile p (rev ?l) = rev cs @ [c]"
    by (metis rev.simps(2) rev_rev_ident)
  then have "\<not> p (hd (rev cs @ [c]))"
    using hd_dropWhile [of p "rev ?l"] by (metis Nil_is_append_conv list.distinct(1))
  then have last: "\<not> p (last (c # cs))"
    by (metis hd_rev rev.simps(2))
  have "?l = (c # cs) @ rev (takeWhile p (rev ?l))"
    using takeWhile_dropWhile_id [of p "rev ?l"] d by (metis rev_append rev_rev_ident e)
  then have "?l \<noteq> []" "hd ?l = c"
    by (metis append_Cons list.distinct(1), metis append_Cons list.sel(1))
  with last show ?thesis
    using hd_dropWhile [of p s] by blast
qed

lemma slug_runs_chars: "c \<in> set (slug_runs gap s) \<Longrightarrow> is_slug_char c \<or> c = CHR ''-''"
  by (induction gap s rule: slug_runs.induct) (auto split: if_splits)

lemma set_trim: "set (trim p s) \<subseteq> set s"
  unfolding trim_def trim_right_def trim_left_def
  by (metis set_dropWhileD set_rev subsetI)

text \<open>No two hyphens in a row.\<close>

fun spaced :: "string \<Rightarrow> bool" where
  "spaced (c # d # cs) = (\<not> (c = CHR ''-'' \<and> d = CHR ''-'') \<and> spaced (d # cs))"
| "spaced s = True"

lemma spaced_append: "spaced (a @ b) \<Longrightarrow> spaced a \<and> spaced b"
proof (induction a)
  case (Cons c a)
  then show ?case by (cases a; cases b) auto
qed simp

lemma slug_char_not_hyphen: "is_slug_char c \<Longrightarrow> c \<noteq> CHR ''-''"
  by (auto simp: is_slug_char_def)

lemma spaced_slug_runs: "spaced (slug_runs gap s) \<and> (gap \<longrightarrow> slug_runs gap s = [] \<or> hd (slug_runs gap s) \<noteq> CHR ''-'')"
proof (induction gap s rule: slug_runs.induct)
  case (2 gap c cs)
  have cons: "spaced w \<Longrightarrow> (w = [] \<or> hd w \<noteq> CHR ''-'' \<or> x \<noteq> CHR ''-'') \<Longrightarrow> spaced (x # w)" for x w
    by (cases w) auto
  from 2 show ?case
    by (auto intro!: cons dest: slug_char_not_hyphen)
qed simp

lemma trim_substring: "\<exists>a b. s = a @ trim p s @ b"
proof -
  have "dropWhile p s = rev (dropWhile p (rev (dropWhile p s))) @ rev (takeWhile p (rev (dropWhile p s)))"
    by (metis rev_append rev_rev_ident takeWhile_dropWhile_id)
  then show ?thesis
    unfolding trim_def trim_right_def trim_left_def by (metis takeWhile_dropWhile_id)
qed

lemma spaced_slug: "spaced (slug t)"
proof -
  obtain a b where "slug_runs False (to_lower t) = a @ slug t @ b"
    using trim_substring unfolding slug_def by blast
  with spaced_slug_runs [of False "to_lower t"] have "spaced (a @ slug t @ b)" by simp
  then show ?thesis
    using spaced_append by blast
qed

lemma slug_chars: "c \<in> set (slug t) \<Longrightarrow> is_slug_char c \<or> c = CHR ''-''"
  using set_trim slug_runs_chars unfolding slug_def by blast

lemma lower_slug_char: "is_slug_char c \<or> c = CHR ''-'' \<Longrightarrow> lower_char c = c"
  by (auto simp: lower_char_def is_slug_char_def Let_def)

lemma slug_runs_spaced:
  "spaced s \<Longrightarrow> \<forall>c \<in> set s. is_slug_char c \<or> c = CHR ''-'' \<Longrightarrow> (gap \<longrightarrow> s = [] \<or> hd s \<noteq> CHR ''-'') \<Longrightarrow> slug_runs gap s = s"
proof (induction gap s rule: slug_runs.induct)
  case (2 gap c cs)
  have "spaced cs" "c = CHR ''-'' \<longrightarrow> cs = [] \<or> hd cs \<noteq> CHR ''-''"
    using "2.prems"(1) by (cases cs; auto)+
  with 2 show ?case by (auto dest: slug_char_not_hyphen)
qed simp

lemma trim_id: "(s = [] \<or> \<not> p (hd s) \<and> \<not> p (last s)) \<Longrightarrow> trim p s = s"
proof (cases s)
  case (Cons c cs)
  assume "s = [] \<or> \<not> p (hd s) \<and> \<not> p (last s)"
  with Cons have "dropWhile p s = s" "\<not> p (hd (rev s))"
    by (simp, metis hd_rev list.distinct(1))
  moreover from this(2) Cons have "dropWhile p (rev s) = rev s"
    by (cases "rev s") auto
  ultimately show ?thesis
    by (simp add: trim_def trim_right_def trim_left_def)
qed (simp add: trim_def trim_right_def trim_left_def)

section \<open>Properties\<close>

text \<open>C22. A catalog that loads describes the tree: it lists every directory under \<^verbatim>\<open>cmd\<close> once and
  nothing else, each under the key of one of the README's groups and with a doc comment that
  opens with the command's name.\<close>

theorem catalog_describes_the_tree:
  assumes "fst (load_catalog W V root h) = Inr c"
  shows "distinct (map ex_dir (cat_examples c)) \<and>
    (\<exists>h1. set (map ex_dir (cat_examples c)) = {d. (d, True) \<in> set (dir_entries V h1 (path_join [root, ''cmd'']))}) \<and>
    (\<forall>ex \<in> set (cat_examples c). has_prefix (''Command '' @ ex_dir ex @ '' '') (ex_doc ex) \<and>
       (\<exists>g \<in> set (cat_groups c). ex_group ex = grp_key g))"
proof -
  let ?cmd = "path_join [root, ''cmd'']"
  from assms obtain p h1 h2 h3 exs where
    p: "progression (path_join [root, ''README.md'']) (text_of (got_bytes W h (Os (ReadFile (path_join [root, ''README.md'']))))) = Inr p"
    and a: "agree (pg_order p) (sort (map fst (filter snd (dir_entries V h1 ?cmd)))) = None"
    and l: "load_examples W V root (pg_group p) (pg_order p) h2 = (Inr exs, h3)"
    and c: "c = \<lparr>cat_groups = pg_groups p, cat_examples = exs\<rparr>"
    by (auto simp: load_catalog_def example_dirs_def go_simps Let_def split: option.splits sum.splits prod.splits)
  note ok = progression_ok [OF p] and ex = load_examples_Inr [OF l]
  have "set (pg_order p) = {d. (d, True) \<in> set (dir_entries V h1 ?cmd)}"
    using a by (force simp: agree_None)
  moreover have "map ex_dir exs = pg_order p" "distinct (pg_order p)"
    using ex ok by (simp_all add: progress_ok_def)
  moreover have "has_prefix (''Command '' @ ex_dir e @ '' '') (ex_doc e) \<and> (\<exists>g \<in> set (pg_groups p). ex_group e = grp_key g)"
    if "e \<in> set exs" for e
  proof -
    have "ex_dir e \<in> set (pg_order p)"
      using that ex by (metis imageI list.set_map)
    with ok obtain g where "g \<in> set (pg_groups p)" "map_of (pg_group p) (ex_dir e) = Some (grp_key g)"
      by (auto simp: progress_ok_def)
    with that ex show ?thesis by force
  qed
  ultimately show ?thesis
    using c by auto
qed

definition demo_view :: tree_view where
  "demo_view =
     \<lparr>dir_entries = \<lambda>h d. [(''go-iroh-a'', True), (''notes.txt'', False)],
      parsed = \<lambda>h p. \<lparr>src_doc = ''Command go-iroh-a shows a. More.'', src_imports = [], src_tree = Branch []\<rparr>\<rparr>"

definition demo_readme :: string where
  "demo_readme = ''# x'' @ [CHR 0x0A] @ ''## Progression'' @ [CHR 0x0A] @ ''### First steps'' @ [CHR 0x0A] @
     ''| '' @ [CHR 0x60] @ ''go-iroh-a'' @ [CHR 0x60] @ '' | a |'' @ [CHR 0x0A] @ ''## Next''"

definition readme_world :: "call world" where
  "readme_world = \<lparr>fails = \<lambda>h c. None, got_bytes = \<lambda>h c. bytes_of demo_readme,
     got_text = \<lambda>h c. [], got_texts = \<lambda>h c. [], got_nat = \<lambda>h c. 0, got_flag = \<lambda>h c. False\<rparr>"

lemma progression_demo:
  "progression ''/r/README.md'' demo_readme = Inr \<lparr>pg_groups = [\<lparr>grp_key = ''first-steps'', grp_title = ''First steps''\<rparr>],
     pg_order = [''go-iroh-a''], pg_group = [(''go-iroh-a'', ''first-steps'')]\<rparr>"
  by code_simp

lemma load_demo: "\<exists>c. fst (load_catalog readme_world demo_view ''/r'' []) = Inr c"
proof -
  have paths: "path_join [''/r'', ''README.md''] = ''/r/README.md''" by code_simp
  have doc: "has_prefix ''Command go-iroh-a '' (trim_space ''Command go-iroh-a shows a. More.'')" by code_simp
  have "\<exists>ex. scan_dir readme_world demo_view d ''go-iroh-a'' h = (Inr ex, h')"
    if "snd (scan_dir readme_world demo_view d ''go-iroh-a'' h) = h'" for d h h'
    using that doc by (simp add: scan_dir_def parse_file_def go_simps readme_world_def demo_view_def Let_def)
  then obtain ex h' where "scan_dir readme_world demo_view (path_join [''/r'', ''cmd'', ''go-iroh-a'']) ''go-iroh-a''
      (Did (Lib ''os.ReadDir'' [] [path_join [''/r'', ''cmd'']]) # [Did (Os (ReadFile ''/r/README.md''))]) = (Inr ex, h')"
    by blast
  moreover have "fails readme_world h c = None" "got_bytes readme_world h c = bytes_of demo_readme" for h c
    by (simp_all add: readme_world_def)
  moreover have "agree [''go-iroh-a''] (sort (map fst (filter snd (dir_entries demo_view h d)))) = None" for h d
    by (simp add: agree_None demo_view_def)
  ultimately show ?thesis
    by (simp add: load_catalog_def Let_def example_dirs_def go_simps paths progression_demo)
qed

theorem catalog_describes_the_tree_witness:
  "\<exists>c h1. fst (load_catalog readme_world demo_view ''/r'' []) = Inr c \<and>
     set (map ex_dir (cat_examples c)) = {d. (d, True) \<in> set (dir_entries demo_view h1 (path_join [''/r'', ''cmd'']))}"
proof -
  obtain c where c: "fst (load_catalog readme_world demo_view ''/r'' []) = Inr c"
    using load_demo by blast
  with catalog_describes_the_tree [OF c] show ?thesis by blast
qed

text \<open>A group's key is fit for a URL whatever its title: lower-case letters, digits and
  hyphens only, no hyphen at either end and no two in a row; and a key is its own key.\<close>

lemma slug_is_canonical:
  "(\<forall>c \<in> set (slug t). is_slug_char c \<or> c = CHR ''-'') \<and> spaced (slug t) \<and>
    (slug t = [] \<or> is_slug_char (hd (slug t)) \<and> is_slug_char (last (slug t))) \<and> slug (slug t) = slug t"
proof -
  have ends: "slug t = [] \<or> hd (slug t) \<noteq> CHR ''-'' \<and> last (slug t) \<noteq> CHR ''-''"
  proof (cases "slug t")
    case (Cons c cs)
    then have "trim (\<lambda>c. c = CHR ''-'') (slug_runs False (to_lower t)) = c # cs"
      by (simp add: slug_def)
    from trim_ends [OF this] Cons show ?thesis by simp
  qed simp
  have "to_lower (slug t) = slug t"
    unfolding to_lower_def using slug_chars by (intro map_idI) (auto intro: lower_slug_char)
  moreover have "slug_runs False (slug t) = slug t"
    using spaced_slug slug_chars by (intro slug_runs_spaced) auto
  ultimately have "slug (slug t) = slug t"
    unfolding slug_def [of "slug t"] using ends by (simp add: trim_id)
  with ends spaced_slug slug_chars show ?thesis
    by (metis hd_in_set last_in_set)
qed

lemma slug_is_canonical_witness:
  "slug ''Streams & Datagrams!'' = ''streams-datagrams'' \<and> slug ''streams-datagrams'' = ''streams-datagrams''"
proof -
  have "slug ''Streams & Datagrams!'' = ''streams-datagrams''"
    by code_simp
  with slug_is_canonical [of "''Streams & Datagrams!''"] show ?thesis by simp
qed

text \<open>What a reader has to set is listed once each, in order: \<^verbatim>\<open>scanSkipEnv\<close> returns exactly
  the literal first arguments of the calls that read the environment, at any depth.\<close>

lemma skip_env_exact:
  "sorted (scan_skip_env file) \<and> distinct (scan_skip_env file) \<and>
    set (scan_skip_env file) = {s. \<exists>f as. (f, StrLit s # as) \<in> set (calls_in file) \<and> env_call (callee_name f)}"
proof -
  have "set (List.map_filter (\<lambda>(f, args). env_of_call f args) (calls_in file)) =
      {s. \<exists>f as. (f, StrLit s # as) \<in> set (calls_in file) \<and> env_call (callee_name f)}"
  proof (intro set_eqI iffI)
    fix s assume "s \<in> set (List.map_filter (\<lambda>(f, args). env_of_call f args) (calls_in file))"
    then obtain f args where *: "(f, args) \<in> set (calls_in file)" "env_of_call f args = Some s"
      by (auto simp: List.map_filter_def)
    then obtain a as where "args = a # as" "env_call (callee_name f)" "string_lit a = Some s"
      by (auto simp: env_of_call_def split: list.splits if_splits)
    moreover from this(3) have "a = StrLit s" by (cases a) auto
    ultimately show "s \<in> {s. \<exists>f as. (f, StrLit s # as) \<in> set (calls_in file) \<and> env_call (callee_name f)}"
      using * by blast
  next
    fix s assume "s \<in> {s. \<exists>f as. (f, StrLit s # as) \<in> set (calls_in file) \<and> env_call (callee_name f)}"
    then show "s \<in> set (List.map_filter (\<lambda>(f, args). env_of_call f args) (calls_in file))"
      by (force simp: List.map_filter_def env_of_call_def)
  qed
  then show ?thesis
    by (simp add: scan_skip_env_def)
qed

text \<open>\<^verbatim>\<open>scanFlags\<close> does not see a flag that is declared with one of the \<^verbatim>\<open>Var\<close> functions, whose
  calls have four arguments: a program that declares its flags so has none in the catalog.\<close>

lemma var_flags_are_missed:
  assumes "\<forall>(f, args) \<in> set (calls_in file). callee_name f \<in> set flag_callees \<longrightarrow> length args \<noteq> 3"
  shows "scan_flags file = []"
proof -
  have "flag_of_call f args = []" if "(f, args) \<in> set (calls_in file)" for f args
    using assms that by (auto simp: flag_of_call_def split: list.splits)
  then show ?thesis
    by (auto simp: scan_flags_def)
qed

text \<open>\<^verbatim>\<open>fs.StringVar(&o.relay, "relay", "default", "relay mode")\<close>, as in \<^verbatim>\<open>cmd/go-iroh-sendme\<close>.\<close>

lemma var_flags_are_missed_witness:
  "scan_flags (Branch [Call (Selector (Ident ''fs'') ''StringVar'')
     [Branch [Selector (Ident ''o'') ''relay''], StrLit ''relay'', StrLit ''default'', StrLit ''relay mode'']]) = []"
  by (rule var_flags_are_missed) (simp add: flag_callees_def)

lemma up_to_period_spec:
  "\<exists>rest. s = up_to_period s @ rest \<and> (rest = [] \<or> rest = ''.'' \<or> (\<exists>r. rest = ''. '' @ r)) \<and>
     (\<forall>a b. up_to_period s \<noteq> a @ ''. '' @ b)"
proof (induction s)
  case (Cons c cs)
  show ?case
  proof (cases "c = CHR ''.'' \<and> (cs = [] \<or> hd cs = CHR '' '')")
    case True
    then show ?thesis by (cases cs) auto
  next
    case False
    from Cons obtain rest where r: "cs = up_to_period cs @ rest" "rest = [] \<or> rest = ''.'' \<or> (\<exists>r. rest = ''. '' @ r)"
      "\<forall>a b. up_to_period cs \<noteq> a @ ''. '' @ b" by blast
    have "up_to_period (c # cs) \<noteq> a @ ''. '' @ b" for a b
    proof
      assume eq: "up_to_period (c # cs) = a @ ''. '' @ b"
      then have u: "c # up_to_period cs = a @ ''. '' @ b"
        by (simp add: False)
      show False
      proof (cases a)
        case Nil
        with u have "c = CHR ''.''" "up_to_period cs = CHR '' '' # b" by auto
        moreover from this(2) r(1) have "hd cs = CHR '' ''" "cs \<noteq> []" by (metis append_Cons list.sel(1), auto)
        ultimately show False using False by blast
      next
        case (Cons x xs)
        with u r(3) show False by auto
      qed
    qed
    with r False show ?thesis by auto
  qed
qed simp

text \<open>A summary is the front of the doc comment, its line wrapping removed, up to the first
  period that ends it or stands before a space, and contains no such period.\<close>

lemma summary_is_first_sentence:
  "\<exists>rest. join '' '' (GoStrings.fields text) = first_sentence text @ rest \<and>
    (rest = [] \<or> rest = ''.'' \<or> (\<exists>r. rest = ''. '' @ r)) \<and> (\<forall>a b. first_sentence text \<noteq> a @ ''. '' @ b)"
  unfolding first_sentence_def by (rule up_to_period_spec)

end
