(* ===== verification/Delivery.thy ===== *)
theory Delivery
  imports Watching
begin

text \<open>
  Whole runs over a network that carries what is written (\<^const>\<open>carries\<close>, EchoPrograms), for the
  programs whose peers have to be found first: \<^verbatim>\<open>local-infra\<close>, \<^verbatim>\<open>mdns-discovery\<close> and
  \<^verbatim>\<open>watch-observer\<close>. A logic of total correctness composes the exchange, proved once for every
  history, with what comes before and after it.
\<close>

section \<open>Runs that return\<close>

text \<open>\<open>sound h\<close>: what is written in \<open>h\<close> is written to objects that were there.\<close>

fun writes_known :: "call event \<Rightarrow> io_hist \<Rightarrow> bool" where
  "writes_known (Did (Net (Write s b))) h = (s < length h)"
| "writes_known e h = True"

definition sound :: "io_hist \<Rightarrow> bool" where
  "sound h \<longleftrightarrow> always writes_known h"

lemma sound_simps [simp]:
  "sound []" "sound (Out l # h) = sound h" "sound (ErrOut l # h) = sound h"
  "sound (Did (Net (Write s b)) # h) = (s < length h \<and> sound h)"
  by (simp_all add: sound_def)

definition is_write :: "call \<Rightarrow> bool" where
  "is_write c = (case c of Net (Write s b) \<Rightarrow> True | _ \<Rightarrow> False)"

lemma sound_call [simp]: "\<not> is_write c \<Longrightarrow> sound (Did c # h) = sound h"
proof (cases c)
  case (Net n)
  then show "\<not> is_write c \<Longrightarrow> ?thesis" by (cases n) (simp_all add: sound_def is_write_def)
qed (simp_all add: sound_def)

lemma written_new: "sound h \<Longrightarrow> length h \<le> s \<Longrightarrow> written s h = []"
  unfolding sound_def by (induction s h rule: written.induct) auto

text \<open>
  \<open>yields Q m\<close>: from every sound history \<open>m\<close> returns some \<open>x\<close> without an error, with a sound
  history, and \<open>Q x ls\<close> holds of the lines \<open>ls\<close> it prints.
\<close>

definition yields :: "('a \<Rightarrow> string list \<Rightarrow> bool) \<Rightarrow> 'a io \<Rightarrow> bool" where
  "yields Q m \<longleftrightarrow>
     (\<forall>h. sound h \<longrightarrow> (\<exists>x h' ls. m h = (Inr x, h') \<and> sound h' \<and> stdout_of h' = stdout_of h @ ls \<and> Q x ls))"

lemma yieldsD: "yields Q m \<Longrightarrow> sound h \<Longrightarrow> \<exists>x h' ls. m h = (Inr x, h') \<and> sound h' \<and> stdout_of h' = stdout_of h @ ls \<and> Q x ls"
  by (simp add: yields_def)

lemma yields_prints: "yields (\<lambda>_ ls. P ls) m \<Longrightarrow> \<exists>ls. prints m ls \<and> P ls"
  using yieldsD [of "\<lambda>_ ls. P ls" m "[]"] by (auto simp: prints_def)

lemma yields_try:
  assumes m: "yields R m" and k: "\<And>x ls. R x ls \<Longrightarrow> yields (\<lambda>y ls'. Q y (ls @ ls')) (k x)"
  shows "yields Q (go_try m k)"
proof (unfold yields_def, intro allI impI)
  fix h :: io_hist assume "sound h"
  with yieldsD [OF m] obtain x h1 ls where 1: "m h = (Inr x, h1)" "sound h1" "stdout_of h1 = stdout_of h @ ls" "R x ls" by blast
  from yieldsD [OF k [OF 1(4)] 1(2)] obtain y h2 ls'
    where "k x h1 = (Inr y, h2)" "sound h2" "stdout_of h2 = stdout_of h1 @ ls'" "Q y (ls @ ls')" by blast
  with 1 show "\<exists>x h' ls. go_try m k h = (Inr x, h') \<and> sound h' \<and> stdout_of h' = stdout_of h @ ls \<and> Q x ls"
    by (auto simp: go_try_def)
qed

lemma yields_weaken: "yields R m \<Longrightarrow> (\<And>x ls. R x ls \<Longrightarrow> Q x ls) \<Longrightarrow> yields Q m"
  unfolding yields_def by meson

lemma yields_ret: "Q x [] \<Longrightarrow> yields Q (go_ret x)"
  by (simp add: yields_def go_ret_def)

lemma yields_println: "Q () [s] \<Longrightarrow> yields Q (println s)"
  by (simp add: yields_def println_def)

lemma yields_calls:
  assumes "carries W" and "\<not> is_write c"
  shows "(\<And>x. Q x []) \<Longrightarrow> yields Q (invoke W c)" and "(\<And>h. Q' (get W h c) []) \<Longrightarrow> yields Q' (invoke_get W get c)"
  using assms by (simp_all add: yields_def go_simps carries_simps)

lemma yields_query: "\<not> is_write c \<Longrightarrow> (\<And>h. Q (get W h c) []) \<Longrightarrow> yields Q (query W get c)"
  by (simp add: yields_def query_def)

lemma yields_wrap: "yields Q m \<Longrightarrow> yields Q (go_wrap p m)"
  by (fastforce simp: yields_def go_wrap_def)

lemma yields_defer:
  assumes "carries W" and "\<not> is_write c" and "yields Q m"
  shows "yields Q (go_defer (invoke W c) m)"
proof (unfold yields_def, intro allI impI)
  fix h :: io_hist assume "sound h"
  from yieldsD [OF assms(3) this] obtain x h1 ls where "m h = (Inr x, h1)" "sound h1" "stdout_of h1 = stdout_of h @ ls" "Q x ls" by blast
  with assms(1,2) show "\<exists>x h' ls. go_defer (invoke W c) m h = (Inr x, h') \<and> sound h' \<and> stdout_of h' = stdout_of h @ ls \<and> Q x ls"
    by (simp add: go_defer_def invoke_def carries_simps)
qed

lemma go_then_try: "yields R m \<Longrightarrow> yields Q (go_try m (\<lambda>_. k)) \<Longrightarrow> yields Q (go_then m k)"
  unfolding yields_def go_then_def go_try_def by (metis (no_types, lifting) case_prod_conv old.sum.simps(6) snd_conv)

lemma yields_then: "yields R m \<Longrightarrow> (\<And>x ls. R x ls \<Longrightarrow> yields (\<lambda>y ls'. Q y (ls @ ls')) k) \<Longrightarrow> yields Q (go_then m k)"
  by (rule go_then_try [OF _ yields_try])

lemma yields_loop_first:
  assumes "yields (\<lambda>r ls. case r of Inl x \<Rightarrow> Q x ls | Inr _ \<Rightarrow> False) (body s)"
  shows "yields Q (go_loop (Suc n) body s)"
  unfolding go_loop.simps by (rule yields_try [OF assms]) (auto intro: yields_ret split: sum.splits)

section \<open>The exchange\<close>

lemma exchange_yields:
  assumes "carries W"
  shows "yields (\<lambda>(reply, r) ls. reply = msg \<and> r = Inr () \<and> ls = []) (exchange_during W conn msg (infra_accept W server))"
  unfolding yields_def
proof (intro allI impI)
  fix h :: io_hist assume h: "sound h"
  note new = written_new [OF h]
  show "\<exists>x h' ls. exchange_during W conn msg (infra_accept W server) h = (Inr x, h') \<and> sound h' \<and> stdout_of h' = stdout_of h @ ls \<and>
      (case x of (reply, r) \<Rightarrow> \<lambda>ls. reply = msg \<and> r = Inr () \<and> ls = []) ls"
    using h
    by (simp add: exchange_during_def infra_accept_def echo_def read_all_def go_simps other_side_def carries_simps [OF assms] new is_write_def)
qed

section \<open>The programs\<close>

lemma yields_try_quiet:
  assumes "yields (\<lambda>x ls. ls = [] \<and> R x) m" and "\<And>x. R x \<Longrightarrow> yields Q (k x)"
  shows "yields Q (go_try m k)"
  by (rule yields_try [OF assms(1)]) (simp add: assms(2))

lemma yields_try_calls:
  assumes "carries W" and "\<not> is_write c"
  shows "(\<And>x. yields Q (k x)) \<Longrightarrow> yields Q (go_try (invoke W c) k)"
    and "(\<And>h. yields Q (k' (get W h c))) \<Longrightarrow> yields Q (go_try (invoke_get W get c) k')"
    and "(\<And>h. yields Q (k'' (get'' W h c))) \<Longrightarrow> yields Q (go_try (query W get'' c) k'')"
    and "(\<And>x. yields Q (k x)) \<Longrightarrow> yields Q (go_try (go_wrap p (invoke W c)) k)"
    and "yields Q m \<Longrightarrow> yields Q (go_then (query W get3 c) m)"
    and "yields Q m \<Longrightarrow> yields Q (go_then (invoke W c) m)"
proof -
  note calls = yields_calls [OF assms]
  show "yields Q (go_try (invoke W c) k)" if "\<And>x. yields Q (k x)"
    by (rule yields_try_quiet [where R = "\<lambda>_. True", OF calls(1)]) (simp_all add: that)
  show "yields Q (go_try (invoke_get W get c) k')" if "\<And>h. yields Q (k' (get W h c))"
    by (rule yields_try_quiet [where R = "\<lambda>v. \<exists>h. v = get W h c", OF calls(2)]) (use that in auto)
  show "yields Q (go_try (query W get'' c) k'')" if "\<And>h. yields Q (k'' (get'' W h c))"
    by (rule yields_try_quiet [where R = "\<lambda>v. \<exists>h. v = get'' W h c", OF yields_query [OF assms(2)]]) (use that in auto)
  show "yields Q (go_try (go_wrap p (invoke W c)) k)" if "\<And>x. yields Q (k x)"
    by (rule yields_try_quiet [where R = "\<lambda>_. True", OF yields_wrap [OF calls(1)]]) (simp_all add: that)
  show "yields Q (go_then (query W get3 c) m)" if "yields Q m"
    by (rule yields_then [where R = "\<lambda>_ ls. ls = []", OF yields_query [OF assms(2)]]) (simp_all add: that)
  show "yields Q (go_then (invoke W c) m)" if "yields Q m"
    by (rule yields_then [where R = "\<lambda>_ ls. ls = []", OF calls(1)]) (simp_all add: that)
qed

lemma yields_then_println:
  assumes "yields (\<lambda>y ls. Q y (s # ls)) k"
  shows "yields Q (go_then (println s) k)"
  by (rule yields_then [where R = "\<lambda>_ ls. ls = [s]", OF yields_println]) (simp_all add: assms)

lemma yields_try_ret: "yields Q (k x) \<Longrightarrow> yields Q (go_try (go_ret x) k)" "yields Q (k y) \<Longrightarrow> yields Q (go_try (go_lift (Inr y)) k)"
  by simp_all

lemma yields_try_exchange:
  assumes "carries W" and "yields Q (k (msg, Inr ()))"
  shows "yields Q (go_try (exchange_during W conn msg (infra_accept W server)) k)"
  by (rule yields_try [OF exchange_yields [OF assms(1)]]) (use assms(2) in \<open>auto split: prod.splits\<close>)

lemma yields_infra_metrics:
  assumes "carries W"
  shows "yields (\<lambda>_ ls. \<exists>a b. ls = [''dns snapshot: '' @ a, ''relay snapshot: '' @ b]) (infra_metrics W r d)"
  unfolding infra_metrics_def new_object_def ask_def
  by (rule yields_try_calls [OF assms] yields_then_println yields_println | simp add: is_write_def)+

lemma yields_say_path:
  "(\<And>p. Q () [what @ '' '' @ p]) \<Longrightarrow> yields Q (say_path W L what conn)"
  unfolding say_path_def conn_paths_def
  by (rule yields_try_quiet [where R = "\<lambda>_. True", OF yields_query]) (auto intro: yields_println simp: is_write_def)

lemmas delivery_rules = yields_try_exchange yields_try_calls yields_then_println yields_try_ret yields_println yields_ret yields_defer

lemmas delivery_defs = with_server_def with_publisher_def relay_url_def online_def new_object_def ask_def bind_loopback_def shutdown_def
  say_bool_def add_external_def ask_report_def

lemma wait_published_yields:
  assumes "carries W" and "\<And>h. published i (items h) \<noteq> None"
  shows "yields (\<lambda>_ ls. \<exists>n. ls = [''resolved by id: '' @ n @ '' address(es)'']) (wait_published W (Suc fuel) items res i)"
  unfolding wait_published_def
proof (rule yields_loop_first, rule yields_try_calls(3) [OF assms(1)])
  fix h
  obtain k where k: "published i (items h) = Some k" using assms(2) [of h] by auto
  show "yields (\<lambda>r ls. case r of Inl x \<Rightarrow> \<exists>n. ls = [''resolved by id: '' @ n @ '' address(es)''] | Inr _ \<Rightarrow> False)
      (case published i (items h) of
         Some n \<Rightarrow> go_then (println (''resolved by id: '' @ digits_of n @ '' address(es)'')) (go_ret (Inl ()))
       | None \<Rightarrow>
         go_try (query W got_flag (Os Select)) (\<lambda>done.
         if done then go_try (ctx_error W) (\<lambda>e. go_fail (Wrapf (''pkarr relay never published '' @ i) e))
         else go_ret (Inr ())))"
    unfolding k option.case by (rule yields_then_println, rule yields_ret) simp
qed (simp add: is_write_def)

lemma infra_yields:
  assumes "carries W" and "\<And>h h' ep. published (got_text W h' (Net (EndpointID ep))) (items h) \<noteq> None"
  shows "yields (\<lambda>_ ls. \<exists>a b c d e f. ls = [''relay: '' @ a, ''pkarr: '' @ b @ ''/pkarr'', ''resolved by id: '' @ c @ '' address(es)'',
      ''reply: local infra hello'', ''path: '' @ d, ''dns snapshot: '' @ e, ''relay snapshot: '' @ f]) (infra_run W L (Suc fuel) items)"
proof -
  note calls = yields_try_calls [OF assms(1)] yields_defer [OF assms(1)] yields_then_println
  note wait = yields_try [OF wait_published_yields [OF assms]]
  note exchange = yields_try_exchange [OF assms(1)]
  have client: "yields (\<lambda>_ ls. \<exists>c d e f. ls = [''resolved by id: '' @ c @ '' address(es)'', ''reply: local infra hello'', ''path: '' @ d,
      ''dns snapshot: '' @ e, ''relay snapshot: '' @ f]) (infra_client W L (Suc fuel) items r dns server client res)" for r dns server client res
    unfolding infra_client_def
    apply (rule calls, simp add: is_write_def)
    apply (rule wait, erule exE, simp only: append_Cons append_Nil)
    apply (rule calls, simp add: is_write_def)+
    apply (rule exchange, simp only: prod.case)
    apply (rule yields_try_ret yields_then_println)+
    apply (rule yields_try [where R = "\<lambda>_ ls. \<exists>p. ls = [''path: '' @ p]", OF yields_say_path], simp)
    apply (erule exE, simp only: append_Cons append_Nil)
    apply (rule yields_weaken [OF yields_infra_metrics [OF assms(1)]], elim exE, simp)
    done
  show ?thesis
    unfolding infra_run_def delivery_defs
    apply (rule calls, simp add: is_write_def)+
    apply (simp only: go_try_assoc)
    apply (rule calls, simp add: is_write_def)+
    apply (rule yields_weaken [OF client], elim exE, simp)
    done
qed

text \<open>mdns-discovery, where the listeners start and the peer is heard.\<close>

lemma md_dial_yields:
  assumes "carries W"
  shows "yields (\<lambda>_ ls. \<exists>a b c p. ls = [''discovered by id: '' @ a @ '' address(es)'', ''provenance: '' @ b, ''same endpoint: '' @ c,
      ''reply: mdns hello'', ''path: '' @ p]) (md_dial W L server client item)"
  unfolding md_dial_def say_bool_def
  apply (rule yields_then_println)+
  apply (rule yields_try_calls(4) [OF assms], simp add: is_write_def)
  apply (rule yields_defer [OF assms], simp add: is_write_def)
  apply (rule yields_try_exchange [OF assms], simp only: prod.case)
  apply (rule yields_try_ret yields_then_println)+
  apply (rule yields_say_path, simp)
  done

lemma md_yields:
  assumes "carries W" and listen: "\<And>h. md_listen M h = None" and found: "\<And>h. \<exists>item ms. md_found M h = Inr item # ms"
  shows "yields (\<lambda>_ ls. \<exists>d n a b c p. ls = [''default service: '' @ d, ''announcing: '' @ n @ '' address(es)'',
      ''discovered by id: '' @ a @ '' address(es)'', ''provenance: '' @ b, ''same endpoint: '' @ c,
      ''reply: mdns hello'', ''path: '' @ p]) (md_run W L M)"
proof -
  note calls = yields_try_calls [OF assms(1)] yields_defer [OF assms(1)] yields_then_println
  have discover: "yields (\<lambda>x ls. ls = [] \<and> x \<noteq> None) (discover W M seeker i)" for seeker i
    unfolding discover_def
  proof (rule yields_try_calls(3) [OF assms(1)])
    fix h
    obtain item ms where "md_found M h = Inr item # ms" using found by blast
    then show "yields (\<lambda>x ls. ls = [] \<and> x \<noteq> None)
        (case md_found M h of [] \<Rightarrow> go_ret None | Inl e # _ \<Rightarrow> go_fail e | Inr item # _ \<Rightarrow> go_ret (Some item))"
      by (simp add: yields_ret)
  qed (simp add: is_write_def)
  have seek: "yields (\<lambda>_ ls. \<exists>a b c p. ls = [''discovered by id: '' @ a @ '' address(es)'', ''provenance: '' @ b, ''same endpoint: '' @ c,
      ''reply: mdns hello'', ''path: '' @ p]) (md_seek W L M server client seeker)" for server client seeker
    unfolding md_seek_def
    by (rule calls, simp add: is_write_def, rule yields_try_quiet [OF discover], erule not_None_eq [THEN iffD1, THEN exE],
        simp only: option.case, rule md_dial_yields [OF assms(1)]) (simp add: is_write_def)?
  show ?thesis
    unfolding md_run_def start_listening_def wait_listening_def unique_service_def delivery_defs
    apply (simp only: go_try_assoc)
    apply (rule calls, simp add: is_write_def)+
    apply (simp only: go_try_ret)
    apply (rule calls, simp add: is_write_def)+
    apply (simp only: listen option.case)
    apply (rule calls, simp add: is_write_def)+
    apply (simp only: listen option.case)
    apply (rule yields_weaken [OF seek], elim exE, simp)
    done
qed

text \<open>The address part of watch-observer, where the observer learns of the external address.\<close>

lemma wo_serve_open: "wo_serve W ep None = infra_accept W ep"
  by (simp add: wo_serve_def infra_accept_def)

lemma wo_dial_yields:
  assumes "carries W"
  shows "yields (\<lambda>r ls. ls = [] \<and> r = (msg, None)) (wo_dial W server msg None)"
  unfolding wo_dial_def wo_serve_open bind_loopback_def shutdown_def
  apply (rule yields_try_calls(1) [OF assms] yields_defer [OF assms], simp add: is_write_def)+
  apply (rule yields_try_exchange [OF assms], simp add: yields_ret)
  done

lemma await_external_yields:
  assumes "carries W" and "\<And>h. \<exists>ips. al_updated L h ep = Inr ips \<and> contains_addr ips external_addr"
  shows "yields (\<lambda>_ ls. ls = [''updated has external: true'']) (await_external W L (Suc fuel) ep)"
  unfolding await_external_def
proof (rule yields_loop_first, rule yields_try_calls(3) [OF assms(1)])
  fix h
  obtain ips where "al_updated L h ep = Inr ips" "contains_addr ips external_addr" using assms(2) by blast
  then show "yields (\<lambda>r ls. case r of Inl x \<Rightarrow> ls = [''updated has external: true''] | Inr _ \<Rightarrow> False)
      (case al_updated L h ep of
         Inl e \<Rightarrow> go_fail e
       | Inr ips \<Rightarrow>
         if contains_addr ips external_addr
         then go_then (say_bool ''updated has external:'' True) (go_ret (Inl ()))
         else go_ret (Inr ()))"
    by (simp add: say_bool_def yields_then_println yields_ret)
qed (simp add: is_write_def)

lemma addr_stream_yields:
  assumes "carries W" and "\<And>h. al_stream L h ep \<noteq> None"
  shows "yields (\<lambda>_ ls. \<exists>a b. ls = [''stream addrs: '' @ a, ''stream addrs: '' @ b]) (addr_stream W L (Suc (Suc fuel)) ep)"
proof -
  let ?body = "\<lambda>seen :: nat. go_try (query W (\<lambda>_ h _. al_stream L h ep) (Lib ''Stream.next'' [ep] [])) (\<lambda>a.
       case a of
         None \<Rightarrow> go_ret (Inl ())
       | Some ips \<Rightarrow>
         go_then (println (''stream addrs: '' @ digits_of (length ips)))
         (if seen + 1 = 2 then go_ret (Inl ())
          else go_then (new_object W (Lib ''Endpoint.AddExternalAddr'' [ep] [''192.0.2.56:12345''])) (go_ret (Inr (seen + 1)))))"
  have round: "yields (\<lambda>r ls. \<exists>a. ls = [''stream addrs: '' @ a] \<and> r = (if seen + 1 = 2 then Inl () else Inr (seen + 1))) (?body seen)" for seen :: nat
  proof (rule yields_try_calls(3) [OF assms(1)])
    fix h
    obtain ips where ips: "al_stream L h ep = Some ips" using assms(2) [of h] by auto
    show "yields (\<lambda>r ls. \<exists>a. ls = [''stream addrs: '' @ a] \<and> r = (if seen + 1 = 2 then Inl () else Inr (seen + 1)))
        (case al_stream L h ep of
           None \<Rightarrow> go_ret (Inl ())
         | Some ips \<Rightarrow>
           go_then (println (''stream addrs: '' @ digits_of (length ips)))
           (if seen + 1 = 2 then go_ret (Inl ())
            else go_then (new_object W (Lib ''Endpoint.AddExternalAddr'' [ep] [''192.0.2.56:12345''])) (go_ret (Inr (seen + 1)))))"
      unfolding ips option.case new_object_def
      by (rule yields_then_println) (auto intro!: yields_ret yields_try_calls(5) [OF assms(1)] simp: is_write_def)
  qed (simp add: is_write_def)
  have second: "yields (\<lambda>_ ls. \<exists>a. ls = [''stream addrs: '' @ a]) (go_loop (Suc n) ?body 1)" for n
    by (rule yields_loop_first, rule yields_weaken [OF round]) auto
  show ?thesis
    unfolding addr_stream_def go_loop.simps(2) [of "Suc fuel"]
  proof (rule yields_try [OF round])
    fix r :: "unit + nat" and ls
    assume "\<exists>a. ls = [''stream addrs: '' @ a] \<and> r = (if 0 + 1 = (2 :: nat) then Inl () else Inr (0 + 1))"
    then obtain a where ls: "ls = [''stream addrs: '' @ a]" and r: "r = Inr 1" by auto
    show "yields (\<lambda>_ ls'. \<exists>a b. ls @ ls' = [''stream addrs: '' @ a, ''stream addrs: '' @ b])
        (case r of Inl x \<Rightarrow> go_ret x | Inr s' \<Rightarrow> go_loop (Suc fuel) ?body s')"
      unfolding ls r sum.case by (rule yields_weaken [OF second], elim exE, simp)
  qed
qed

lemma watch_addr_yields:
  assumes "carries W" and "\<And>h ep. \<exists>ips. al_updated L h ep = Inr ips \<and> contains_addr ips external_addr" and "\<And>h ep. al_stream L h ep \<noteq> None"
  shows "yields (\<lambda>_ ls. \<exists>n a b. ls = [''current addrs: '' @ n, ''first reply: first'', ''updated has external: true'',
      ''second reply: second'', ''stream addrs: '' @ a, ''stream addrs: '' @ b]) (watch_addr W L (Suc (Suc fuel)))"
proof -
  note calls = yields_try_calls [OF assms(1)] yields_defer [OF assms(1)]
  note dial = yields_try_quiet [OF wo_dial_yields [OF assms(1)]]
  show ?thesis
    unfolding watch_addr_def bind_loopback_def shutdown_def new_object_def
    apply (rule calls, simp add: is_write_def)+
    apply (rule yields_then_println)
    apply (rule dial, simp only: prod.case)
    apply (rule yields_then_println)
    apply (rule calls, simp add: is_write_def)
    apply (rule yields_try [OF await_external_yields [OF assms(1,2)]], simp only: append_Cons append_Nil)
    apply (rule dial, simp only: prod.case)
    apply (rule yields_then_println)
    apply (rule yields_try [OF addr_stream_yields [OF assms(1,3)]], elim exE, simp only: append_Cons append_Nil option.case)
    apply (rule yields_ret, simp)
    done
qed

section \<open>Property\<close>

text \<open>What the library has to do for the peers to be found: the record is there, the listeners run and hear, the change is observed.\<close>

definition found_by_all :: "call world \<Rightarrow> (io_hist \<Rightarrow> (gerr + string \<times> nat) list) \<Rightarrow> md_lib \<Rightarrow> watch_lib \<Rightarrow> bool" where
  "found_by_all W items M L \<longleftrightarrow>
     (\<forall>h h' ep. published (got_text W h' (Net (EndpointID ep))) (items h) \<noteq> None) \<and>
     (\<forall>h. md_listen M h = None) \<and> (\<forall>h. \<exists>item ms. md_found M h = Inr item # ms) \<and>
     (\<forall>h ep. \<exists>ips. al_updated L h ep = Inr ips \<and> contains_addr ips external_addr) \<and> (\<forall>h ep. al_stream L h ep \<noteq> None)"


definition mdns_example :: md_lib where
  "mdns_example = \<lparr>md_listen = \<lambda>_. None,
     md_found = \<lambda>_. [Inr \<lparr>mi_addr = NewAddr ''id'', mi_count = 1, mi_provenance = ''mdns'', mi_same = True\<rparr>]\<rparr>"

definition observed_example :: watch_lib where
  "observed_example = watch_example\<lparr>al_updated := \<lambda>_ _. Inr [''[::1]:1'', external_addr], al_stream := \<lambda>_ _. Some []\<rparr>"


end
