(* ===== verification/Disk.thy ===== *)
theory Disk
  imports SendmeReceive
begin

text \<open>
  What the calls of a run have done to the disk, computed from its history, and a calculus of weakest
  preconditions for runs that return without an error. The laws of a file system that does
  what it is asked (\<open>obeys\<close>) say when a call has to succeed: a file is created only in
  a directory that is there, and renamed only if it is there itself.
\<close>

section \<open>The disk a history leaves\<close>

datatype node = File bytes | Folder | Other

text \<open>By the components of cleaned absolute paths.\<close>

type_synonym disk = "string list \<rightharpoonup> node"

text \<open>The path a file's handle was created at.\<close>

fun file_of :: "io_hist \<Rightarrow> nat \<Rightarrow> string list option" where
  "file_of [] n = None"
| "file_of (e # h) n =
     (if n = length h then (case e of Did (Os (Create p)) \<Rightarrow> Some (path_comps p) | _ \<Rightarrow> None) else file_of h n)"

definition written_on :: "node option \<Rightarrow> bytes \<Rightarrow> node option" where
  "written_on x b = (case x of Some (File a) \<Rightarrow> Some (File (a @ b)) | _ \<Rightarrow> x)"

definition effect :: "call \<Rightarrow> io_hist \<Rightarrow> disk \<Rightarrow> disk" where
  "effect c h d =
     (case c of
        Os (Create p) \<Rightarrow> d(path_comps p \<mapsto> File [])
      | Os (WriteTo n b) \<Rightarrow> (case file_of h n of None \<Rightarrow> d | Some p \<Rightarrow> d(p := written_on (d p) b))
      | Os (WriteFile p b) \<Rightarrow> d(path_comps p \<mapsto> File b)
      | Os (Mkdir p) \<Rightarrow> d(path_comps p \<mapsto> Folder)
      | Os (MkdirAll p) \<Rightarrow> (\<lambda>q. if prefix q (path_comps p) then Some Folder else d q)
      | Os (Rename a b) \<Rightarrow> d(path_comps a := None, path_comps b := d (path_comps a))
      | Os (Remove p) \<Rightarrow> d(path_comps p := None)
      | Os (RemoveAll p) \<Rightarrow> (\<lambda>q. if prefix (path_comps p) q then None else d q)
      | Blob (NewStore p) \<Rightarrow> (\<lambda>q. if prefix q (path_comps p) then Some Folder else d q)
      | _ \<Rightarrow> d)"

fun disk_after :: "disk \<Rightarrow> io_hist \<Rightarrow> disk" where
  "disk_after D [] = D"
| "disk_after D (Did c # h) = effect c h (disk_after D h)"
| "disk_after D (e # h) = disk_after D h"

text \<open>The contents that were put into a blob store.\<close>

definition put_in :: "call \<Rightarrow> disk \<Rightarrow> bytes set" where
  "put_in c d =
     (case c of
        Blob (AddBlob s b) \<Rightarrow> {b}
      | Blob (ImportFile s p) \<Rightarrow> (case d (path_comps p) of Some (File b) \<Rightarrow> {b} | _ \<Rightarrow> {})
      | _ \<Rightarrow> {})"

fun held :: "disk \<Rightarrow> io_hist \<Rightarrow> bytes set" where
  "held D [] = {}"
| "held D (Did c # h) = put_in c (disk_after D h) \<union> held D h"
| "held D (e # h) = held D h"

section \<open>What the system promises\<close>

abbreviation is_file :: "disk \<Rightarrow> string list \<Rightarrow> bool" where
  "is_file d p \<equiv> \<exists>b. d p = Some (File b)"

text \<open>When a call cannot fail; every call that is not about files or blobs succeeds.\<close>

definition can :: "disk \<Rightarrow> (bytes \<Rightarrow> string) \<Rightarrow> io_hist \<Rightarrow> call \<Rightarrow> bool" where
  "can D hash h c =
     (let d = disk_after D h in
      case c of
        Os (Create p) \<Rightarrow> d (butlast (path_comps p)) = Some Folder \<and> (d (path_comps p) = None \<or> is_file d (path_comps p))
      | Os (WriteTo n b) \<Rightarrow> (\<exists>p. file_of h n = Some p \<and> is_file d p)
      | Os (WriteFile p b) \<Rightarrow> d (butlast (path_comps p)) = Some Folder \<and> (d (path_comps p) = None \<or> is_file d (path_comps p))
      | Os (ReadFile p) \<Rightarrow> is_file d (path_comps p)
      | Os (Mkdir p) \<Rightarrow> d (butlast (path_comps p)) = Some Folder \<and> d (path_comps p) = None
      | Os (MkdirAll p) \<Rightarrow> (\<forall>q. prefix q (path_comps p) \<longrightarrow> d q = None \<or> d q = Some Folder)
      | Os (Rename a b) \<Rightarrow> is_file d (path_comps a) \<and> d (butlast (path_comps b)) = Some Folder \<and>
          (d (path_comps b) = None \<or> is_file d (path_comps b))
      | Os (Stat p) \<Rightarrow> d (path_comps p) \<noteq> None
      | Os (Lstat p) \<Rightarrow> d (path_comps p) \<noteq> None
      | Blob (NewStore p) \<Rightarrow> (\<forall>q. prefix q (path_comps p) \<longrightarrow> d q = None \<or> d q = Some Folder)
      | Blob (ImportFile s p) \<Rightarrow> is_file d (path_comps p)
      | Blob (GetBlob s r) \<Rightarrow> r \<in> hash ` held D h
      | _ \<Rightarrow> True)"

text \<open>
  \<open>obeys D hash bs W\<close>: starting with the disk \<open>D\<close>, a call that can succeed does; nothing is found
  where nothing is; a blob store answers with the hash of a content, and a peer that
  fetches a hash is sent the content that was put under it. The hashes of the contents
  \<open>bs\<close> are distinct, which is what this law needs of the hash function.
\<close>

definition obeys :: "disk \<Rightarrow> (bytes \<Rightarrow> string) \<Rightarrow> bytes set \<Rightarrow> call world \<Rightarrow> bool" where
  "obeys D hash bs W \<longleftrightarrow> inj_on hash bs \<and>
     (\<forall>h c. can D hash h c \<longrightarrow> fails W h c = None) \<and>
     (\<forall>h p. disk_after D h (path_comps p) = None \<longrightarrow> fails W h (Os (Lstat p)) \<noteq> None \<and> fails W h (Os (Stat p)) \<noteq> None) \<and>
     (\<forall>h s b. got_text W h (Blob (AddBlob s b)) = hash b) \<and>
     (\<forall>h s p b. disk_after D h (path_comps p) = Some (File b) \<longrightarrow> got_text W h (Blob (ImportFile s p)) = hash b) \<and>
     (\<forall>h s b. b \<in> bs \<longrightarrow> b \<in> held D h \<longrightarrow> concat (map bytes_of (got_texts W h (Blob (BlobChunks s (hash b))))) = b)"

lemma obeys_can: "obeys D hash bs W \<Longrightarrow> can D hash h c \<Longrightarrow> fails W h c = None"
  unfolding obeys_def by blast

lemma obeys_absent:
  assumes "obeys D hash bs W" and "disk_after D h (path_comps p) = None"
  shows "\<exists>e. fails W h (Os (Lstat p)) = Some e" "\<exists>e. fails W h (Os (Stat p)) = Some e"
  using assms unfolding obeys_def by blast+

lemma obeys_hash:
  assumes "obeys D hash bs W"
  shows "got_text W h (Blob (AddBlob s b)) = hash b"
    and "disk_after D h (path_comps p) = Some (File b) \<Longrightarrow> got_text W h (Blob (ImportFile s p)) = hash b"
    and "b \<in> bs \<Longrightarrow> b \<in> held D h \<Longrightarrow> concat (map bytes_of (got_texts W h (Blob (BlobChunks s (hash b))))) = b"
  using assms unfolding obeys_def by blast+

section \<open>Weakest preconditions\<close>

text \<open>From this history the program returns without an error, with a result and a history as stated.\<close>

definition wp :: "'a io \<Rightarrow> ('a \<Rightarrow> io_hist \<Rightarrow> bool) \<Rightarrow> io_hist \<Rightarrow> bool" where
  "wp m Q h = (case m h of (Inl e, h') \<Rightarrow> False | (Inr x, h') \<Rightarrow> Q x h')"

lemma wp_iff: "wp m Q h \<longleftrightarrow> (\<exists>x h'. m h = (Inr x, h') \<and> Q x h')"
  by (auto simp: wp_def split: prod.splits sum.splits)

lemma wp_mono: "wp m R h \<Longrightarrow> (\<And>x h'. R x h' \<Longrightarrow> Q x h') \<Longrightarrow> wp m Q h"
  by (auto simp: wp_iff)

lemma wp_mono_after: "wp m (\<lambda>x. wp (k x) R) h \<Longrightarrow> (\<And>y h'. R y h' \<Longrightarrow> Q y h') \<Longrightarrow> wp m (\<lambda>x. wp (k x) Q) h"
  by (erule wp_mono) (erule wp_mono)

named_theorems wp_simps "the weakest preconditions of the combinators"

lemma wp_combinators [wp_simps]:
  "wp (go_ret x) Q h = Q x h"
  "wp (go_lift (Inr y)) Q1 h = Q1 y h"
  "wp (println s) Q2 h = Q2 () (Out s # h)"
  "wp (eprintln s) Q2 h = Q2 () (ErrOut s # h)"
  "wp (go_try m k) Q3 = wp m (\<lambda>x. wp (k x) Q3)"
  "wp (go_wrap p m') Q4 = wp m' Q4"
  "wp (go_defer c m'') Q5 = wp m'' (\<lambda>x h'. Q5 x (snd (c h')))"
  "wp (query W get c') Q6 h = Q6 (get W h c') (Did c' # h)"
  "wp (if b then m1 else m2) Q7 h = (if b then wp m1 Q7 h else wp m2 Q7 h)"
  by (auto simp: wp_def go_simps fun_eq_iff split: prod.splits sum.splits)

lemma wp_then_print [wp_simps]:
  "wp (go_then (println s) k) Q h = wp k Q (Out s # h)"
  "wp (go_then (eprintln s) k) Q h = wp k Q (ErrOut s # h)"
  "wp (go_then (go_ret x) k) Q h = wp k Q h"
  "wp (go_then (query W get c) k) Q h = wp k Q (Did c # h)"
  by (simp_all add: wp_def go_simps)

text \<open>Calls that cannot fail.\<close>

lemma wp_calls:
  assumes "obeys D hash bs W" and "can D hash h c"
  shows "wp (invoke W c) Q h = Q (length h) (Did c # h)"
    and "wp (invoke_get W get c) Q' h = Q' (get W h c) (Did c # h)"
    and "wp (go_catch (invoke W c) k) Q'' h = wp (k (Inr (length h))) Q'' (Did c # h)"
    and "wp (go_catch (invoke_get W get' c) k') Q'' h = wp (k' (Inr (get' W h c))) Q'' (Did c # h)"
    and "wp (go_then (invoke W c) m) Q'' h = wp m Q'' (Did c # h)"
    and "snd (invoke W c h) = Did c # h"
  using obeys_can [OF assms] by (simp_all add: wp_def go_simps)

lemma wp_catch_ok: "wp m (\<lambda>x. wp (k (Inr x)) Q) h \<Longrightarrow> wp (go_catch m k) Q h"
  by (auto simp: wp_def go_catch_def split: prod.splits sum.splits)

lemma wp_then_ok: "wp m (\<lambda>x. wp k Q) h \<Longrightarrow> wp (go_then m k) Q h"
  by (auto simp: wp_def go_then_def split: prod.splits sum.splits)

lemma wp_failed: "fails W h c = Some e \<Longrightarrow> wp (go_catch (invoke W c) k) Q h = wp (k (Inl e)) Q (Failed c e # h)"
  by (simp add: wp_def go_simps)

lemma wp_absent:
  assumes "obeys D hash bs W" and "disk_after D h (path_comps p) = None"
  shows "(\<And>e. wp (k (Inl e)) Q (Failed (Os (Lstat p)) e # h)) \<Longrightarrow> wp (go_catch (invoke W (Os (Lstat p))) k) Q h"
    and "(\<And>e. wp (k' (Inl e)) Q (Failed (Os (Stat p)) e # h)) \<Longrightarrow> wp (go_catch (invoke W (Os (Stat p))) k') Q h"
  using obeys_absent [OF assms] wp_failed by metis+

text \<open>Nothing happens to the disk or the store.\<close>

definition same :: "disk \<Rightarrow> io_hist \<Rightarrow> io_hist \<Rightarrow> bool" where
  "same D h h' \<longleftrightarrow> disk_after D h' = disk_after D h \<and> held D h' = held D h"

lemma same_refl [simp]: "same D h h"
  by (simp add: same_def)

lemma same_said [simp]:
  "same D (Out s # h) h' = same D h h'" "same D h (Out s # h') = same D h h'"
  "same D (ErrOut s # h) h' = same D h h'" "same D h (ErrOut s # h') = same D h h'"
  by (simp_all add: same_def)

lemmas call_defs = effect_def put_in_def can_def same_def Let_def

end
