(* ===== verification/Receiving.thy ===== *)
theory Receiving
  imports Disk
begin

text \<open>
  What \<^verbatim>\<open>receive\<close> of \<^verbatim>\<open>go-iroh-sendme\<close> does to the disk, over a file system and a blob store that
  do what they are asked (Disk): each step's effect, from the fetching of a blob to the
  whole of \<^verbatim>\<open>receive\<close>, for every order in which the downloads finish.
\<close>

section \<open>Fetching\<close>

lemma deliver_limit:
  assumes "int (length (concat cs)) \<le> lim_n l"
  shows "\<exists>l'. deliver (\<lambda>l p. go_lift (limit_write l p)) l cs h = (Inr l', h) \<and> lim_buf l' = lim_buf l @ concat cs"
  using assms
proof (induction cs arbitrary: l)
  case (Cons c cs)
  let ?l = "l\<lparr>lim_n := lim_n l - int (length c), lim_buf := lim_buf l @ c\<rparr>"
  from Cons.prems have "limit_write l c = Inr ?l"
    by (simp add: limit_write_def)
  with Cons.IH [of ?l] Cons.prems show ?case by simp
qed (simp add: go_ret_def)

lemma deliver_file:
  assumes "obeys D hash bs W" and "file_of h f = Some p" and "f < length h" and "disk_after D h p = Some (File a)"
  shows "wp (deliver (\<lambda>u b. go_try (invoke W (Os (WriteTo f b))) (\<lambda>_. go_ret u)) () cs) (\<lambda>_ h'.
      disk_after D h' = (disk_after D h)(p \<mapsto> File (a @ concat cs)) \<and> held D h' = held D h) h"
  using assms(2-)
proof (induction cs arbitrary: h a)
  case (Cons c cs)
  let ?h = "Did (Os (WriteTo f c)) # h"
  have "can D hash h (Os (WriteTo f c))"
    using Cons.prems by (simp add: can_def)
  note run = wp_calls(1) [OF assms(1) this]
  have d: "disk_after D ?h = (disk_after D h)(p \<mapsto> File (a @ c))" "held D ?h = held D h"
    using Cons.prems by (simp_all add: call_defs written_on_def)
  have "wp (deliver (\<lambda>u b. go_try (invoke W (Os (WriteTo f b))) (\<lambda>_. go_ret u)) () cs) (\<lambda>_ h'.
      disk_after D h' = (disk_after D ?h)(p \<mapsto> File ((a @ c) @ concat cs)) \<and> held D h' = held D ?h) ?h"
    by (rule Cons.IH) (use Cons.prems d in simp_all)
  then show ?case
    by (simp only: deliver.simps wp_simps run d fun_upd_upd append_assoc concat.simps)
qed (simp add: wp_simps fun_upd_idem)

text \<open>\<^verbatim>\<open>fetch\<close> with a writer that takes the pieces: \<open>Q\<close> is what delivering them does.\<close>

lemma fetch_wp:
  assumes "obeys D hash bs W" and "b \<in> bs" and "b \<in> held D h"
    and deliver: "\<And>cs h'. concat cs = b \<Longrightarrow> same D h h' \<Longrightarrow> length h < length h' \<Longrightarrow> (\<forall>n < length h. file_of h' n = file_of h n) \<Longrightarrow>
      wp (deliver wr w cs) (\<lambda>x h''. held D h'' = held D h \<and> Q x (disk_after D h'')) h'"
  shows "wp (fetch W conn (hash b) wr w) (\<lambda>x h'. held D h' = held D h \<and> Q x (disk_after D h')) h"
proof -
  have ok: "can D hash h' (Net c)" "can D hash h' (Blob (BlobChunks s r))" for h' c s r
    by (simp_all add: can_def)
  let ?h1 = "Did (Net (OpenStream conn)) # h"
  let ?h2 = "Did (Blob (BlobChunks (length h) (hash b))) # ?h1"
  let ?cs = "map bytes_of (got_texts W ?h1 (Blob (BlobChunks (length h) (hash b))))"
  have cs: "concat ?cs = b"
    using obeys_hash(3) [OF assms(1,2)] assms(3) by (simp add: call_defs)
  have "wp (deliver wr w ?cs) (\<lambda>x h''. held D h'' = held D h \<and> Q x (disk_after D h'')) ?h2"
    by (rule deliver [OF cs]) (simp_all add: call_defs)
  then have "wp (deliver wr w ?cs) (\<lambda>x h'. wp (go_try (invoke W (Blob (GetBlob (length h) (hash b)))) (\<lambda>_. go_ret x))
      (\<lambda>x h'. held D h' = held D h \<and> Q x (disk_after D h')) h') ?h2"
  proof (rule wp_mono)
    fix x h'
    assume h': "held D h' = held D h \<and> Q x (disk_after D h')"
    then have "can D hash h' (Blob (GetBlob (length h) (hash b)))"
      using assms(3) by (simp add: can_def)
    from wp_calls(1) [OF assms(1) this] h'
    show "wp (go_try (invoke W (Blob (GetBlob (length h) (hash b)))) (\<lambda>_. go_ret x)) (\<lambda>x h'. held D h' = held D h \<and> Q x (disk_after D h')) h'"
      by (simp add: wp_simps call_defs)
  qed
  then show ?thesis
    using wp_calls(1,6) [OF assms(1) ok(1)] by (simp add: fetch_def wp_simps call_defs)
qed

lemma fetch_small_wp:
  assumes "obeys D hash bs W" and "b \<in> bs" and "b \<in> held D h" and "int (length b) \<le> max_meta_size"
  shows "wp (fetch_small W conn (hash b)) (\<lambda>x h'. x = b \<and> same D h h') h"
proof -
  have "wp (fetch W conn (hash b) (\<lambda>l p. go_lift (limit_write l p)) \<lparr>lim_n = max_meta_size, lim_buf = []\<rparr>)
      (\<lambda>l h'. held D h' = held D h \<and> (lim_buf l = b \<and> disk_after D h' = disk_after D h)) h"
  proof (rule fetch_wp [OF assms(1-3)])
    fix cs h' assume "concat cs = b" "same D h h'"
    with deliver_limit [of cs "\<lparr>lim_n = max_meta_size, lim_buf = []\<rparr>" h'] assms(4)
    show "wp (deliver (\<lambda>l p. go_lift (limit_write l p)) \<lparr>lim_n = max_meta_size, lim_buf = []\<rparr> cs)
        (\<lambda>l h''. held D h'' = held D h \<and> lim_buf l = b \<and> disk_after D h'' = disk_after D h) h'"
      by (auto simp: wp_iff same_def)
  qed
  then show ?thesis
    by (auto simp: fetch_small_def wp_simps same_def elim: wp_mono)
qed

lemma download_file_wp:
  assumes "obeys D hash bs W" and "b \<in> bs" and "b \<in> held D h" and "can D hash h (Os (Create q))"
  shows "wp (download_file W conn (hash b) q) (\<lambda>r h'. fst r = None \<and>
      disk_after D h' = (disk_after D h)(path_comps q \<mapsto> File b) \<and> held D h' = held D h) h"
proof -
  let ?h = "Did (Os (Create q)) # h"
  let ?d = "(disk_after D h)(path_comps q \<mapsto> File b)"
  have d: "disk_after D ?h = (disk_after D h)(path_comps q \<mapsto> File [])" "held D ?h = held D h" "file_of ?h (length h) = Some (path_comps q)"
    by (simp_all add: call_defs)
  have fetched: "wp (fetch W conn (hash b) (\<lambda>u p. go_try (invoke W (Os (WriteTo (length h) p))) (\<lambda>_. go_ret u)) ())
      (\<lambda>x h'. held D h' = held D ?h \<and> disk_after D h' = ?d) ?h"
  proof (rule fetch_wp [OF assms(1,2)])
    fix cs h' assume h': "concat cs = b" "same D ?h h'" "length ?h < length h'" "\<forall>n < length ?h. file_of h' n = file_of ?h n"
    have "wp (deliver (\<lambda>u b. go_try (invoke W (Os (WriteTo (length h) b))) (\<lambda>_. go_ret u)) () cs) (\<lambda>_ h''.
        disk_after D h'' = (disk_after D h')(path_comps q \<mapsto> File ([] @ concat cs)) \<and> held D h'' = held D h') h'"
      by (rule deliver_file [OF assms(1)]) (use h' d in \<open>simp_all add: same_def\<close>)
    then show "wp (deliver (\<lambda>u p. go_try (invoke W (Os (WriteTo (length h) p))) (\<lambda>_. go_ret u)) () cs)
        (\<lambda>x h''. held D h'' = held D ?h \<and> disk_after D h'' = ?d) h'"
      by (rule wp_mono) (use h'(1,2) d in \<open>simp add: same_def\<close>)
  qed (use assms(3) d in simp)
  have close: "can D hash h' (Os (CloseFile f))" for h' f
    by (simp add: can_def)
  have "wp (download_file W conn (hash b) q) (\<lambda>r h'. fst r = None \<and> disk_after D h' = ?d \<and> held D h' = held D h) h =
    wp (go_catch (fetch W conn (hash b) (\<lambda>u p. go_try (invoke W (Os (WriteTo (length h) p))) (\<lambda>_. go_ret u)) ()) (\<lambda>r1.
       go_try (query W got_nat (Os (SeekCurrent (length h)))) (\<lambda>n.
       go_catch (invoke W (Os (CloseFile (length h)))) (\<lambda>r2.
       go_ret (case r1 of
                 Inl e \<Rightarrow> Some e
               | Inr _ \<Rightarrow> (case r2 of Inl e \<Rightarrow> Some e | Inr _ \<Rightarrow> None), n)))))
     (\<lambda>r h'. fst r = None \<and> disk_after D h' = ?d \<and> held D h' = held D h) ?h"
    unfolding download_file_def by (subst wp_calls(3) [OF assms(1,4)]) simp
  moreover have "\<dots>"
    by (rule wp_catch_ok, rule wp_mono [OF fetched])
      (simp add: wp_simps wp_calls(3) [OF assms(1) close] d(2), simp add: call_defs)
  ultimately show ?thesis by simp
qed

section \<open>Downloading\<close>

text \<open>\<^verbatim>\<open>strconv.Itoa\<close> gives plain names, and different ones.\<close>

lemma plain_digits: "plain (digits_of n)"
proof -
  have "CHR ''.'' \<notin> set (digits_of n)" "slash \<notin> set (digits_of n)"
  proof -
    have "of_char (char_of (48 + k :: nat)) = 48 + k" if "k < 10" for k :: nat
      using that by simp
    then have "c \<in> set (digits_of n) \<Longrightarrow> 48 \<le> (of_char c :: nat)" for c
      using digits_of_range [of c n] by force
    from this [of "CHR ''.''"] this [of slash] show "CHR ''.'' \<notin> set (digits_of n)" "slash \<notin> set (digits_of n)"
      by (auto simp: slash_def)
  qed
  then show ?thesis
    by (auto simp: plain_def)
qed

lemma digits_of_inject [simp]: "digits_of m = digits_of n \<longleftrightarrow> m = n"
proof
  have digit: "char_of (48 + a :: nat) = (char_of (48 + b :: nat) :: char) \<Longrightarrow> a < 10 \<Longrightarrow> b < 10 \<Longrightarrow> a = b" for a b
  proof -
    assume "char_of (48 + a) = (char_of (48 + b) :: char)" "a < 10" "b < 10"
    then have "of_char (char_of (48 + a) :: char) = (of_char (char_of (48 + b) :: char) :: nat)" by simp
    with \<open>a < 10\<close> \<open>b < 10\<close> show "a = b" by simp
  qed
  show "digits_of m = digits_of n \<Longrightarrow> m = n"
  proof (induction m arbitrary: n rule: digits_of.induct)
    case (1 m)
    show ?case
    proof (cases "m < 10 \<or> n < 10")
      case True
      with "1.prems" show ?thesis
        by (subst (asm) (1 2) digits_of.simps) (auto simp: digits_of_nonempty [THEN not_sym] dest!: digit split: if_splits)
    next
      case False
      with "1.prems" have "digits_of (m div 10) = digits_of (n div 10)"
        "char_of (48 + m mod 10 :: nat) = (char_of (48 + n mod 10 :: nat) :: char)"
        by (simp_all add: digits_of.simps [of m] digits_of.simps [of n])
      with "1.IH" [of "n div 10"] digit [of "m mod 10" "n mod 10"] False
      have "m div 10 = n div 10" "m mod 10 = n mod 10" by auto
      then show ?thesis by (metis div_mult_mod_eq)
    qed
  qed
qed simp

lemma path_comps_numbered: "rooted dir \<Longrightarrow> path_comps (path_join [dir, digits_of i]) = path_comps dir @ [digits_of i]"
  using plain_digits by (simp add: path_comps_join)

lemma download_all_wp:
  assumes "obeys D hash bs W" and dir: "rooted dir" and "dl_err acc = None"
    and entries: "\<forall>i \<in> set is. snd (entries ! i) = hash (cont i) \<and> cont i \<in> bs \<and> cont i \<in> held D h"
    and folder: "disk_after D h (path_comps dir) = Some Folder"
    and free: "\<forall>i. disk_after D h (path_comps dir @ [digits_of i]) = None \<or> is_file (disk_after D h) (path_comps dir @ [digits_of i])"
  shows "wp (download_all W conn entries dir is acc) (\<lambda>acc' h'. dl_err acc' = None \<and> held D h' = held D h \<and>
      (\<forall>i \<in> set is. disk_after D h' (path_comps dir @ [digits_of i]) = Some (File (cont i))) \<and>
      (\<forall>p. p \<notin> (\<lambda>i. path_comps dir @ [digits_of i]) ` set is \<longrightarrow> disk_after D h' p = disk_after D h p)) h"
  using assms(3-)
proof (induction "is" arbitrary: acc h)
  case (Cons i "is")
  let ?p = "path_comps dir @ [digits_of i]"
  let ?Q = "\<lambda>h acc' h'. dl_err acc' = None \<and> held D h' = held D h \<and>
      (\<forall>i \<in> set is. disk_after D h' (path_comps dir @ [digits_of i]) = Some (File (cont i))) \<and>
      (\<forall>p. p \<notin> (\<lambda>i. path_comps dir @ [digits_of i]) ` set is \<longrightarrow> disk_after D h' p = disk_after D h p)"
  have create: "can D hash h (Os (Create (path_join [dir, digits_of i])))"
    using Cons.prems(3,4) by (simp add: can_def path_comps_numbered [OF dir])
  from Cons.prems(2) have i: "snd (entries ! i) = hash (cont i)" "cont i \<in> bs" "cont i \<in> held D h" by auto
  show ?case
    unfolding download_all.simps wp_simps i(1)
  proof (rule wp_mono [OF download_file_wp [OF assms(1) i(2,3) create]])
    fix out :: "gerr option \<times> nat" and h'
    assume h': "fst out = None \<and> disk_after D h' = (disk_after D h)(path_comps (path_join [dir, digits_of i]) \<mapsto> File (cont i)) \<and>
      held D h' = held D h"
    let ?acc = "download_done entries i out acc"
    have d: "disk_after D h' = (disk_after D h)(?p \<mapsto> File (cont i))" "held D h' = held D h"
      using h' by (simp_all add: path_comps_numbered [OF dir])
    have "wp (download_all W conn entries dir is ?acc) (?Q h') h'"
    proof (rule Cons.IH)
      show "dl_err ?acc = None"
        using h' Cons.prems(1) by (simp add: download_done_def)
    qed (use Cons.prems(2-4) d in auto)
    then have "wp (download_all W conn entries dir is ?acc) (\<lambda>acc' h''. dl_err acc' = None \<and> held D h'' = held D h \<and>
      (\<forall>j \<in> set (i # is). disk_after D h'' (path_comps dir @ [digits_of j]) = Some (File (cont j))) \<and>
      (\<forall>p. p \<notin> (\<lambda>i. path_comps dir @ [digits_of i]) ` set (i # is) \<longrightarrow> disk_after D h'' p = disk_after D h p)) h'"
    proof (rule wp_mono)
      fix acc' h'' assume Q: "?Q h' acc' h''"
      have "disk_after D h'' ?p = Some (File (cont i))"
      proof (cases "i \<in> set is")
        case False
        then have "?p \<notin> (\<lambda>i. path_comps dir @ [digits_of i]) ` set is" by auto
        with Q d show ?thesis by simp
      qed (use Q in simp)
      with Q d show "dl_err acc' = None \<and> held D h'' = held D h \<and>
        (\<forall>j \<in> set (i # is). disk_after D h'' (path_comps dir @ [digits_of j]) = Some (File (cont j))) \<and>
        (\<forall>p. p \<notin> (\<lambda>i. path_comps dir @ [digits_of i]) ` set (i # is) \<longrightarrow> disk_after D h'' p = disk_after D h p)"
        by auto
    qed
    with h' show "wp (go_then (if fst out \<noteq> None \<and> dl_err acc = None then query W got_nat (Os Cancel) else go_ret 0)
        (download_all W conn entries dir is ?acc)) (\<lambda>acc' h''. dl_err acc' = None \<and> held D h'' = held D h \<and>
      (\<forall>j \<in> set (i # is). disk_after D h'' (path_comps dir @ [digits_of j]) = Some (File (cont j))) \<and>
      (\<forall>p. p \<notin> (\<lambda>i. path_comps dir @ [digits_of i]) ` set (i # is) \<longrightarrow> disk_after D h'' p = disk_after D h p)) h'"
      by (simp add: wp_simps)
  qed
qed (simp add: wp_simps)

section \<open>Exporting\<close>

text \<open>A line that may be printed does not touch the disk.\<close>

lemma wp_then_say:
  "(\<And>h'. same D h h' \<Longrightarrow> wp k Q h') \<Longrightarrow> wp (go_then (if b then println s else go_ret ()) k) Q h"
  by (cases b) (simp_all add: wp_simps same_def)

lemma wp_then_log:
  "log = println \<or> log = eprintln \<Longrightarrow> (\<And>h'. same D h h' \<Longrightarrow> wp k Q h') \<Longrightarrow> wp (go_then (log s) k) Q h"
  by (auto simp: wp_simps same_def)

lemma wp_then_first:
  "(\<And>h'. same D h h' \<Longrightarrow> wp k Q h') \<Longrightarrow> wp (go_then (case es of [] \<Rightarrow> go_ret () | e # _ \<Rightarrow> println (f e)) k) Q h"
  by (cases es) (auto simp: wp_simps same_def)

lemma export_path_dir:
  assumes "rooted dst" and "export_path dst name = Inr t"
  shows "path_comps (path_dir t) = butlast (path_comps t) \<and> path_comps t = path_comps dst @ split_on slash name"
proof -
  have parts: "\<forall>c \<in> set (split_on slash name). plain c" "split_on slash name \<noteq> []"
    and t: "path_comps t = path_comps dst @ split_on slash name"
    using export_path_comps [OF assms] by auto
  have "t = render True (path_comps dst @ split_on slash name)"
    using assms parts path_join_plain [OF rooted_not_empty [OF assms(1)] parts(1)]
    by (auto simp: export_path_def Let_def split: if_splits)
  moreover have "path_comps dst @ split_on slash name =
      (path_comps dst @ butlast (split_on slash name)) @ [last (split_on slash name)]"
    using parts(2) by simp
  moreover have "\<forall>c \<in> set ((path_comps dst @ butlast (split_on slash name)) @ [last (split_on slash name)]). plain c"
    using parts plain_path_comps [OF assms(1)] by (metis Un_iff append_assoc append_butlast_last_id set_append)
  ultimately have "path_comps (path_dir t) = path_comps dst @ butlast (split_on slash name)"
    using path_dir_parent by metis
  with t parts(2) show ?thesis by (simp add: butlast_append)
qed

lemma check_targets_wp:
  assumes "obeys D hash bs W" and "list_all2 (\<lambda>e t. export_path dst (fst e) = Inr t) entries ts"
    and "\<forall>t \<in> set ts. disk_after D h (path_comps t) = None"
  shows "wp (check_targets W dst entries) (\<lambda>ts' h'. ts' = ts \<and> same D h h') h"
  using assms(2,3)
proof (induction arbitrary: h rule: list_all2_induct)
  case (Cons e es t ts)
  have "wp (go_catch (invoke W (Os (Lstat t))) (\<lambda>r. case r of Inr _ \<Rightarrow> go_fail (exists_already t)
      | Inl _ \<Rightarrow> go_try (check_targets W dst es) (\<lambda>ts. go_ret (t # ts)))) (\<lambda>ts' h'. ts' = t # ts \<and> same D h h') h"
  proof (rule wp_absent(1) [OF assms(1)])
    show "disk_after D h (path_comps t) = None" using Cons.prems by simp
    fix e
    have "wp (check_targets W dst es) (\<lambda>ts' h'. ts' = ts \<and> same D (Failed (Os (Lstat t)) e # h) h') (Failed (Os (Lstat t)) e # h)"
      by (rule Cons.IH) (use Cons.prems in simp)
    then show "wp (case Inl e of Inr _ \<Rightarrow> go_fail (exists_already t)
      | Inl _ \<Rightarrow> go_try (check_targets W dst es) (\<lambda>ts. go_ret (t # ts))) (\<lambda>ts' h'. ts' = t # ts \<and> same D h h')
      (Failed (Os (Lstat t)) e # h)"
      by (auto simp: wp_simps same_def elim: wp_mono)
  qed
  then show ?case
    using Cons.hyps(1) by (simp add: wp_simps)
qed (simp add: wp_simps)

text \<open>What one export does: the directories above the target, and the file moved there.\<close>

definition exported :: "string list \<Rightarrow> string list \<Rightarrow> bytes \<Rightarrow> disk \<Rightarrow> disk" where
  "exported src t b d =
     (\<lambda>q. if prefix q (butlast t) then Some Folder else d q)(src := None, t \<mapsto> File b)"

lemma export_one_wp:
  assumes "obeys D hash bs W" and "rooted tmp" and "rooted dst" and "export_path dst (fst e) = Inr t"
    and src: "disk_after D h (path_comps tmp @ [digits_of i]) = Some (File b)"
    and absent: "disk_after D h (path_comps t) = None"
    and above: "\<forall>q. prefix q (butlast (path_comps t)) \<longrightarrow> disk_after D h q = None \<or> disk_after D h q = Some Folder"
  shows "wp (export_one W opt tmp i e t) (\<lambda>_ h'. held D h' = held D h \<and>
      disk_after D h' = exported (path_comps tmp @ [digits_of i]) (path_comps t) b (disk_after D h)) h"
  unfolding export_one_def
proof (rule wp_then_say)
  fix h1 assume "same D h h1"
  then have d: "disk_after D h1 = disk_after D h" "held D h1 = held D h"
    by (simp_all add: same_def)
  note dir = export_path_dir [OF assms(3,4)]
  have t: "path_comps t \<noteq> []"
    using export_path_comps [OF assms(3,4)] by auto
  let ?src = "path_comps tmp @ [digits_of i]"
  show "wp (go_catch (invoke W (Os (Lstat t))) (\<lambda>r. case r of Inr _ \<Rightarrow> go_fail (exists_already t)
      | Inl _ \<Rightarrow> go_try (invoke W (Os (MkdirAll (path_dir t)))) (\<lambda>_.
          go_try (invoke W (Os (Rename (path_join [tmp, digits_of i]) t))) (\<lambda>_. go_ret ()))))
    (\<lambda>_ h'. held D h' = held D h \<and> disk_after D h' = exported ?src (path_comps t) b (disk_after D h)) h1"
  proof (rule wp_absent(1) [OF assms(1)])
    show "disk_after D h1 (path_comps t) = None" using absent d by simp
    fix e
    let ?h = "Failed (Os (Lstat t)) e # h1"
    let ?h' = "Did (Os (MkdirAll (path_dir t))) # ?h"
    have mk: "can D hash ?h (Os (MkdirAll (path_dir t)))"
      using above d dir by (simp add: can_def)
    have "\<not> prefix ?src (butlast (path_comps t))"
      using above src by fastforce
    moreover have "\<not> prefix (path_comps t) (butlast (path_comps t))"
      using t prefix_length_le [of "path_comps t" "butlast (path_comps t)"] by (cases "path_comps t") auto
    ultimately have mv: "can D hash ?h' (Os (Rename (path_join [tmp, digits_of i]) t))"
      using src absent d dir by (simp add: can_def effect_def path_comps_numbered [OF assms(2)])
    show "wp (case Inl e of Inr _ \<Rightarrow> go_fail (exists_already t)
      | Inl _ \<Rightarrow> go_try (invoke W (Os (MkdirAll (path_dir t)))) (\<lambda>_.
          go_try (invoke W (Os (Rename (path_join [tmp, digits_of i]) t))) (\<lambda>_. go_ret ())))
      (\<lambda>_ h'. held D h' = held D h \<and> disk_after D h' = exported ?src (path_comps t) b (disk_after D h)) ?h"
      using \<open>\<not> prefix ?src (butlast (path_comps t))\<close> src
      by (simp add: wp_simps wp_calls(1) [OF assms(1) mk] wp_calls(1) [OF assms(1) mv])
        (simp add: call_defs d dir path_comps_numbered [OF assms(2)] exported_def)
  qed
qed

text \<open>All of them, where no target is in the way of another or in the temporary directory.\<close>

definition separate :: "string list \<Rightarrow> string list list \<Rightarrow> bool" where
  "separate T ts \<longleftrightarrow> (\<forall>t \<in> set ts. \<not> prefix T t) \<and>
     (\<forall>j < length ts. \<forall>k < length ts. prefix (ts ! j) (ts ! k) \<longrightarrow> j = k)"

lemma separate_Cons:
  "separate T (t # ts) \<longleftrightarrow> \<not> prefix T t \<and> separate T ts \<and> (\<forall>u \<in> set ts. \<not> prefix t u \<and> \<not> prefix u t)"
proof
  assume sep: "separate T (t # ts)"
  have no: "prefix ((t # ts) ! j) ((t # ts) ! k) \<longrightarrow> j = k" if "j < Suc (length ts)" "k < Suc (length ts)" for j k
    using sep that by (simp add: separate_def)
  have "\<not> prefix t (ts ! k) \<and> \<not> prefix (ts ! k) t" if "k < length ts" for k
    using no [of 0 "Suc k"] no [of "Suc k" 0] that by simp
  moreover have "prefix (ts ! j) (ts ! k) \<longrightarrow> j = k" if "j < length ts" "k < length ts" for j k
    using no [of "Suc j" "Suc k"] that by simp
  ultimately show "\<not> prefix T t \<and> separate T ts \<and> (\<forall>u \<in> set ts. \<not> prefix t u \<and> \<not> prefix u t)"
    using sep by (auto simp: separate_def in_set_conv_nth)
next
  assume *: "\<not> prefix T t \<and> separate T ts \<and> (\<forall>u \<in> set ts. \<not> prefix t u \<and> \<not> prefix u t)"
  then show "separate T (t # ts)"
    by (auto simp: separate_def nth_Cons split: nat.splits)
qed

lemma export_all_wp:
  assumes "obeys D hash bs W" and "rooted tmp" and "rooted dst"
    and "\<forall>j < length ets. export_path dst (fst (fst (ets ! j))) = Inr (snd (ets ! j))"
    and "\<forall>j < length ets. disk_after D h (path_comps tmp @ [digits_of (i + j)]) = Some (File (cont j))"
    and "\<forall>(e, t) \<in> set ets. disk_after D h (path_comps t) = None"
    and "\<forall>(e, t) \<in> set ets. \<forall>q. prefix q (butlast (path_comps t)) \<longrightarrow> disk_after D h q = None \<or> disk_after D h q = Some Folder"
    and "separate (path_comps tmp) (map (\<lambda>(e, t). path_comps t) ets)"
  shows "wp (export_all W opt tmp i ets) (\<lambda>_ h'. held D h' = held D h \<and>
      (\<forall>j < length ets. disk_after D h' (path_comps (snd (ets ! j))) = Some (File (cont j))) \<and>
      (\<forall>p b. disk_after D h' p = Some (File b) \<longrightarrow> disk_after D h p = Some (File b) \<or> p \<in> (\<lambda>(e, t). path_comps t) ` set ets) \<and>
      (\<forall>p b. disk_after D h p = Some (File b) \<longrightarrow> \<not> prefix (path_comps tmp) p \<longrightarrow> disk_after D h' p = Some (File b))) h"
  using assms(4-)
proof (induction ets arbitrary: i h cont)
  case (Cons et ets)
  obtain e t where et: "et = (e, t)" by (cases et)
  let ?T = "path_comps tmp" and ?d = "disk_after D h"
  have t: "export_path dst (fst e) = Inr t" "?d (?T @ [digits_of i]) = Some (File (cont 0))" "?d (path_comps t) = None"
    "\<forall>q. prefix q (butlast (path_comps t)) \<longrightarrow> ?d q = None \<or> ?d q = Some Folder"
    using Cons.prems(1,2) [rule_format, of 0] Cons.prems(3,4) et by simp_all
  have sep: "\<not> prefix ?T (path_comps t)" "separate ?T (map (\<lambda>(e, t). path_comps t) ets)"
    "\<forall>u \<in> (\<lambda>(e, t). path_comps t) ` set ets. \<not> prefix (path_comps t) u \<and> \<not> prefix u (path_comps t)"
    using Cons.prems(5) et by (auto simp: separate_Cons)
  have above_t: "\<not> prefix q (butlast (path_comps t))" if "?d q = Some (File b)" for q b
    using t(4) that by fastforce
  show ?case
    unfolding et export_all.simps wp_simps
  proof (rule wp_mono [OF export_one_wp [OF assms(1-3) t]])
    fix x h1
    assume h1: "held D h1 = held D h \<and> disk_after D h1 = exported (?T @ [digits_of i]) (path_comps t) (cont 0) ?d"
    let ?d1 = "disk_after D h1"
    have src: "\<not> prefix ?T q \<Longrightarrow> q \<noteq> ?T @ [digits_of i]" for q by auto
    have files: "?d1 p = Some (File b) \<longleftrightarrow> p = path_comps t \<and> b = cont 0 \<or> p \<noteq> path_comps t \<and> p \<noteq> ?T @ [digits_of i] \<and> ?d p = Some (File b)" for p b
      using h1 above_t by (auto simp: exported_def)
    have "wp (export_all W opt tmp (Suc i) ets) (\<lambda>_ h'. held D h' = held D h1 \<and>
      (\<forall>j < length ets. disk_after D h' (path_comps (snd (ets ! j))) = Some (File (cont (Suc j)))) \<and>
      (\<forall>p b. disk_after D h' p = Some (File b) \<longrightarrow> ?d1 p = Some (File b) \<or> p \<in> (\<lambda>(e, t). path_comps t) ` set ets) \<and>
      (\<forall>p b. ?d1 p = Some (File b) \<longrightarrow> \<not> prefix ?T p \<longrightarrow> disk_after D h' p = Some (File b))) h1"
    proof (rule Cons.IH)
      show "\<forall>j < length ets. export_path dst (fst (fst (ets ! j))) = Inr (snd (ets ! j))"
        using Cons.prems(1) by auto
      show "\<forall>j < length ets. ?d1 (?T @ [digits_of (Suc i + j)]) = Some (File (cont (Suc j)))"
      proof (intro allI impI)
        fix j assume "j < length ets"
        with Cons.prems(2) [rule_format, of "Suc j"] have "?d (?T @ [digits_of (Suc i + j)]) = Some (File (cont (Suc j)))"
          by simp
        moreover have "?T @ [digits_of (Suc i + j)] \<noteq> path_comps t"
          using sep(1) by (metis prefixI)
        ultimately show "?d1 (?T @ [digits_of (Suc i + j)]) = Some (File (cont (Suc j)))"
          by (simp add: files)
      qed
      show "\<forall>(e, t) \<in> set ets. ?d1 (path_comps t) = None"
      proof (clarify)
        fix f u assume u: "(f, u) \<in> set ets"
        have "\<not> prefix (path_comps u) (butlast (path_comps t))" "path_comps u \<noteq> path_comps t"
          using sep(3) u prefix_order.trans [OF _ prefixeq_butlast] by force+
        with u Cons.prems(3) show "?d1 (path_comps u) = None"
          using h1 et by (auto simp: exported_def)
      qed
      show "\<forall>(e, t) \<in> set ets. \<forall>q. prefix q (butlast (path_comps t)) \<longrightarrow> ?d1 q = None \<or> ?d1 q = Some Folder"
      proof (clarify)
        fix f u q assume u: "(f, u) \<in> set ets" "prefix q (butlast (path_comps u))" "?d1 q \<noteq> Some Folder"
        have "q \<noteq> path_comps t"
          using sep(3) u(1,2) prefix_order.trans [OF _ prefixeq_butlast] by force
        moreover have "?d q = None \<or> ?d q = Some Folder"
          using Cons.prems(4) u(1,2) et by auto
        ultimately show "?d1 q = None"
          using h1 u(3) by (auto simp: exported_def split: if_splits)
      qed
    qed (rule sep(2))
    then show "wp (export_all W opt tmp (Suc i) ets) (\<lambda>_ h'. held D h' = held D h \<and>
      (\<forall>j < length ((e, t) # ets). disk_after D h' (path_comps (snd (((e, t) # ets) ! j))) = Some (File (cont j))) \<and>
      (\<forall>p b. disk_after D h' p = Some (File b) \<longrightarrow> ?d p = Some (File b) \<or> p \<in> (\<lambda>(e, t). path_comps t) ` set ((e, t) # ets)) \<and>
      (\<forall>p b. ?d p = Some (File b) \<longrightarrow> \<not> prefix ?T p \<longrightarrow> disk_after D h' p = Some (File b))) h1"
    proof (rule wp_mono, intro conjI allI impI)
      fix y h'
      assume Q: "held D h' = held D h1 \<and>
        (\<forall>j < length ets. disk_after D h' (path_comps (snd (ets ! j))) = Some (File (cont (Suc j)))) \<and>
        (\<forall>p b. disk_after D h' p = Some (File b) \<longrightarrow> ?d1 p = Some (File b) \<or> p \<in> (\<lambda>(e, t). path_comps t) ` set ets) \<and>
        (\<forall>p b. ?d1 p = Some (File b) \<longrightarrow> \<not> prefix ?T p \<longrightarrow> disk_after D h' p = Some (File b))"
      show "held D h' = held D h" using Q h1 by simp
      show "disk_after D h' (path_comps (snd (((e, t) # ets) ! j))) = Some (File (cont j))" if "j < length ((e, t) # ets)" for j
        using Q that sep(1) files by (cases j) auto
      show "?d p = Some (File b) \<or> p \<in> (\<lambda>(e, t). path_comps t) ` set ((e, t) # ets)" if "disk_after D h' p = Some (File b)" for p b
        using Q that files by auto
      show "disk_after D h' p = Some (File b)" if "?d p = Some (File b)" "\<not> prefix ?T p" for p b
      proof -
        have "p \<noteq> path_comps t" using that(1) t(3) by auto
        with that files src have "?d1 p = Some (File b)" by blast
        with Q that(2) show ?thesis by blast
      qed
    qed
  qed
qed (simp add: wp_simps)

section \<open>Receiving\<close>

text \<open>
  The disk a receiver wants to find: its directory, room for the targets and for what is
  temporary, below \<open>T\<close>.
\<close>

definition room_for :: "disk \<Rightarrow> string \<Rightarrow> string list \<Rightarrow> string list \<Rightarrow> bool" where
  "room_for d dst T ts \<longleftrightarrow>
     (\<forall>q. prefix q (path_comps dst) \<longrightarrow> d q = Some Folder) \<and>
     (\<forall>q. d (T @ q) = None) \<and>
     (\<forall>t \<in> set ts. d (path_comps t) = None \<and>
        (\<forall>q. prefix q (butlast (path_comps t)) \<longrightarrow> d q = None \<or> d q = Some Folder)) \<and>
     separate T (map path_comps ts)"

lemma room_forD:
  assumes "room_for d dst T ts"
  shows "prefix q (path_comps dst) \<Longrightarrow> d q = Some Folder"
    and "d (T @ q) = None"
    and "t \<in> set ts \<Longrightarrow> d (path_comps t) = None"
    and "t \<in> set ts \<Longrightarrow> prefix q (butlast (path_comps t)) \<Longrightarrow> d q = None \<or> d q = Some Folder"
    and "separate T (map path_comps ts)"
    and "t \<in> set ts \<Longrightarrow> \<not> prefix T (path_comps t)"
    and "d p = Some (File b) \<Longrightarrow> \<not> prefix T p"
  using assms by (auto simp: room_for_def separate_def prefix_def)

text \<open>
  What the exports do to it: the files, each with its content, and nothing else outside the
  temporary directory; and what is left when that is removed.
\<close>

definition moved :: "disk \<Rightarrow> string list \<Rightarrow> string list \<Rightarrow> (nat \<Rightarrow> bytes) \<Rightarrow> disk \<Rightarrow> bool" where
  "moved d T ts cont d' \<longleftrightarrow>
     (\<forall>j < length ts. d' (path_comps (ts ! j)) = Some (File (cont j))) \<and>
     (\<forall>p b. d' p = Some (File b) \<longrightarrow> prefix T p \<or> d p = Some (File b) \<or> p \<in> path_comps ` set ts) \<and>
     (\<forall>p b. d p = Some (File b) \<longrightarrow> d' p = Some (File b))"

definition received :: "disk \<Rightarrow> string list \<Rightarrow> string list \<Rightarrow> (nat \<Rightarrow> bytes) \<Rightarrow> disk \<Rightarrow> bool" where
  "received d T ts cont d' \<longleftrightarrow> moved d T ts cont d' \<and> (\<forall>q. d' (T @ q) = None)"

lemma receive_tmp:
  assumes "rooted dst" and "slash \<notin> set root"
  shows "rooted (path_join [dst, ''.sendme-recv-'' @ root])"
    and "path_comps (path_join [dst, ''.sendme-recv-'' @ root]) = path_comps dst @ [''.sendme-recv-'' @ root]"
  using assms by (simp_all add: rooted_join path_comps_join plain_def slash_def)

lemma moved_removed:
  assumes "moved d T ts cont d'" and "room_for d dst T ts"
  shows "received d T ts cont (\<lambda>q. if prefix T q then None else d' q)"
  using assms(1) room_forD(6,7) [OF assms(2)] by (auto simp: received_def moved_def)

text \<open>The exports, after the downloads.\<close>

lemma exports_wp:
  assumes W: "obeys D hash bs W" and dst: "rooted dst" and tmp: "rooted tmp"
    and names: "list_all2 (\<lambda>e t. export_path dst (fst e) = Inr t) entries ts"
    and room: "room_for d dst (path_comps tmp) ts"
    and files: "\<forall>j < length entries. disk_after D h (path_comps tmp @ [digits_of j]) = Some (File (cont j))"
    and rest: "\<forall>p. \<not> prefix (path_comps tmp) p \<longrightarrow> disk_after D h p = d p"
  shows "wp (export_all W opt tmp 0 (zip entries ts))
    (\<lambda>_ h'. held D h' = held D h \<and> moved d (path_comps tmp) ts cont (disk_after D h')) h"
proof -
  let ?T = "path_comps tmp" and ?ets = "zip entries ts"
  note here = room_forD [OF room]
  have len: "length entries = length ts"
    using names by (simp add: list_all2_lengthD)
  have comps: "map (\<lambda>(e, t). path_comps t) ?ets = map path_comps ts"
    using len by (simp add: list_eq_iff_nth_eq)
  then have targets: "(\<lambda>(e, t). path_comps t) ` set ?ets = path_comps ` set ts"
    by (metis (no_types) list.set_map)
  show ?thesis
  proof (rule wp_mono [OF export_all_wp [OF W tmp dst, where cont = cont]])
    show "\<forall>j < length ?ets. export_path dst (fst (fst (?ets ! j))) = Inr (snd (?ets ! j))"
      using names by (auto simp: list_all2_conv_all_nth)
    show "\<forall>j < length ?ets. disk_after D h (?T @ [digits_of (0 + j)]) = Some (File (cont j))"
      using files by simp
    show "\<forall>(e, t) \<in> set ?ets. disk_after D h (path_comps t) = None"
      using rest here(3,6) by (auto dest: set_zip_rightD)
    show "\<forall>(e, t) \<in> set ?ets. \<forall>q. prefix q (butlast (path_comps t)) \<longrightarrow> disk_after D h q = None \<or> disk_after D h q = Some Folder"
    proof (clarify)
      fix e t q assume t: "(e, t) \<in> set ?ets" "prefix q (butlast (path_comps t))" "disk_after D h q \<noteq> Some Folder"
      then have "t \<in> set ts" by (auto dest: set_zip_rightD)
      moreover have "\<not> prefix ?T q"
        using here(6) [OF calculation] t(2) prefix_order.trans prefixeq_butlast by metis
      ultimately show "disk_after D h q = None"
        using here(4) t(2,3) rest by metis
    qed
    show "separate ?T (map (\<lambda>(e, t). path_comps t) ?ets)"
      using here(5) by (simp add: comps)
    show "held D h' = held D h \<and> moved d ?T ts cont (disk_after D h')"
      if "held D h' = held D h \<and>
      (\<forall>j < length ?ets. disk_after D h' (path_comps (snd (?ets ! j))) = Some (File (cont j))) \<and>
      (\<forall>p b. disk_after D h' p = Some (File b) \<longrightarrow> disk_after D h p = Some (File b) \<or> p \<in> (\<lambda>(e, t). path_comps t) ` set ?ets) \<and>
      (\<forall>p b. disk_after D h p = Some (File b) \<longrightarrow> \<not> prefix ?T p \<longrightarrow> disk_after D h' p = Some (File b))" for h'
    proof -
      have files: "disk_after D h p = d p" if "\<not> prefix ?T p" for p
        using rest that by blast
      have "prefix ?T p \<or> d p = Some (File b) \<or> p \<in> path_comps ` set ts" if "disk_after D h' p = Some (File b)" for p b
        using that \<open>held D h' = held D h \<and> _\<close> files [of p] unfolding targets by metis
      moreover have "disk_after D h' p = Some (File b)" if "d p = Some (File b)" for p b
        using that \<open>held D h' = held D h \<and> _\<close> files [of p] here(7) by metis
      ultimately show ?thesis
        using that len by (simp add: moved_def)
    qed
  qed
qed

text \<open>The downloads, into a directory that has just been made.\<close>

lemma downloads_wp:
  assumes W: "obeys D hash bs W" and tmp: "rooted tmp" and room: "room_for (disk_after D h) dst (path_comps tmp) ts"
    and dst: "butlast (path_comps tmp) = path_comps dst" "path_comps tmp \<noteq> []"
    and content: "\<forall>j < length entries. snd (entries ! j) = hash (cont j) \<and> cont j \<in> bs \<and> cont j \<in> held D h"
    and sched: "set (sched (length entries)) = {..<length entries}"
  shows "wp (go_try (invoke W (Os (MkdirAll tmp))) (\<lambda>_. download W sched conn entries tmp))
    (\<lambda>_ h'. held D h' = held D h \<and>
      (\<forall>j < length entries. disk_after D h' (path_comps tmp @ [digits_of j]) = Some (File (cont j))) \<and>
      (\<forall>p. \<not> prefix (path_comps tmp) p \<longrightarrow> disk_after D h' p = disk_after D h p)) h"
proof -
  let ?T = "path_comps tmp" and ?h = "Did (Os (MkdirAll tmp)) # h"
  note here = room_forD [OF room]
  have prefixes: "prefix q ?T \<longleftrightarrow> q = ?T \<or> prefix q (path_comps dst)" for q
    using dst by (metis append_butlast_last_id prefix_snoc)
  have mk: "can D hash h (Os (MkdirAll tmp))"
    using here(1) here(2) [of "[]"] by (auto simp: can_def prefixes)
  have outside: "\<not> prefix ?T p \<Longrightarrow> p \<noteq> ?T \<and> p \<notin> (\<lambda>i. ?T @ [digits_of i]) ` X" for p X
    by auto
  have made: "disk_after D ?h = (disk_after D h)(?T \<mapsto> Folder)"
    using here(1) by (auto simp: effect_def prefixes fun_eq_iff)
  then have "wp (download_all W conn entries tmp (sched (length entries)) \<lparr>dl_size = 0, dl_err = None\<rparr>)
      (\<lambda>acc' h'. dl_err acc' = None \<and> held D h' = held D ?h \<and>
        (\<forall>i \<in> set (sched (length entries)). disk_after D h' (?T @ [digits_of i]) = Some (File (cont i))) \<and>
        (\<forall>p. p \<notin> (\<lambda>i. ?T @ [digits_of i]) ` set (sched (length entries)) \<longrightarrow> disk_after D h' p = disk_after D ?h p)) ?h"
    using content sched here(2) by (intro download_all_wp [OF W tmp]) (simp_all add: put_in_def)
  then have "wp (download_all W conn entries tmp (sched (length entries)) \<lparr>dl_size = 0, dl_err = None\<rparr>)
      (\<lambda>acc. wp (case dl_err acc of Some e \<Rightarrow> go_fail e | None \<Rightarrow> go_ret (dl_size acc)) (\<lambda>_ h'. held D h' = held D h \<and>
      (\<forall>j < length entries. disk_after D h' (?T @ [digits_of j]) = Some (File (cont j))) \<and>
      (\<forall>p. \<not> prefix ?T p \<longrightarrow> disk_after D h' p = disk_after D h p))) ?h"
    unfolding made by (rule wp_mono) (use sched outside in \<open>simp add: wp_simps put_in_def\<close>)
  then show ?thesis
    by (simp add: wp_simps wp_calls(1) [OF W mk] download_def)
qed

lemma receive_entries_wp:
  assumes W: "obeys D hash bs W" and dst: "rooted dst" and root: "slash \<notin> set root"
    and names: "list_all2 (\<lambda>e t. export_path dst (fst e) = Inr t) entries ts"
    and content: "\<forall>j < length entries. snd (entries ! j) = hash (cont j) \<and> cont j \<in> bs \<and> cont j \<in> held D h"
    and sched: "set (sched (length entries)) = {..<length entries}"
    and log: "log = println \<or> log = eprintln"
    and room: "room_for (disk_after D h) dst (path_comps dst @ [''.sendme-recv-'' @ root]) ts"
  shows "wp (receive_entries W sched log conn root entries dst opt)
    (\<lambda>_ h'. received (disk_after D h) (path_comps dst @ [''.sendme-recv-'' @ root]) ts cont (disk_after D h') \<and> held D h' = held D h) h"
proof -
  define T where "T = path_comps dst @ [''.sendme-recv-'' @ root]"
  define tmp where "tmp = path_join [dst, ''.sendme-recv-'' @ root]"
  have tmp: "rooted tmp" "path_comps tmp = T" "butlast T = path_comps dst" "T \<noteq> []"
    using receive_tmp [OF dst root] by (simp_all add: T_def tmp_def)
  have room: "room_for (disk_after D h) dst T ts"
    using room by (simp add: T_def)
  let ?Q = "\<lambda>_ h'. received (disk_after D h) T ts cont (disk_after D h') \<and> held D h' = held D h"
  let ?R = "\<lambda>y h'. ?Q y (snd (invoke W (Os (RemoveAll tmp)) h'))"
  have remove: "?R y h'" if "held D h' = held D h" "moved (disk_after D h) T ts cont (disk_after D h')" for y :: unit and h'
  proof -
    have "can D hash h' (Os (RemoveAll tmp))" by (simp add: can_def)
    from wp_calls(6) [OF W this] moved_removed [OF that(2) room] that(1) show ?thesis
      by (simp add: tmp effect_def put_in_def)
  qed
  have exports: "wp (go_try (export_all W opt tmp 0 (zip entries ts)) (\<lambda>_. if opt_verbose opt then
        go_try (query W got_text (Os Elapsed)) (\<lambda>took. go_try (query W got_nat (Os Elapsed)) (\<lambda>rate.
        println (line took rate))) else go_ret ())) ?R h'"
    if h': "held D h' = held D h" "\<forall>j < length entries. disk_after D h' (T @ [digits_of j]) = Some (File (cont j))"
      "\<forall>p. \<not> prefix T p \<longrightarrow> disk_after D h' p = disk_after D h p" for h' line
    unfolding wp_simps
    by (rule wp_mono [OF exports_wp [OF W dst tmp(1) names]])
      (use h' room remove in \<open>auto simp: tmp wp_simps effect_def put_in_def\<close>)
  have downloads: "wp (go_try (invoke W (Os (MkdirAll tmp))) (\<lambda>_. download W sched conn entries tmp)) (\<lambda>_ h'. held D h' = held D h \<and>
      (\<forall>j < length entries. disk_after D h' (T @ [digits_of j]) = Some (File (cont j))) \<and>
      (\<forall>p. \<not> prefix T p \<longrightarrow> disk_after D h' p = disk_after D h p)) h1"
    if "disk_after D h1 = disk_after D h" "held D h1 = held D h" for h1
    using downloads_wp [OF W tmp(1), where h = h1 and dst = dst and ts = ts] room content sched tmp that by simp
  have checked: "wp (check_targets W dst entries) (\<lambda>ts' h'. ts' = ts \<and> same D h h') h"
    using check_targets_wp [OF W names] room_forD(3) [OF room] by blast
  show ?thesis
    unfolding receive_entries_def Let_def tmp_def [symmetric] T_def [symmetric] wp_simps
    apply (rule wp_mono [OF checked], elim conjE, hypsubst)
    apply (rule wp_then_log [OF log, where D = D], unfold wp_simps)
    apply (rule wp_mono_after)
     apply (rule downloads [unfolded wp_simps]; simp add: same_def)
    apply (elim conjE, rule wp_then_first [where D = D])
    apply (rule exports; simp add: same_def)
    done
qed

text \<open>Calls that leave the disk and the store alone and always succeed.\<close>

definition is_quiet :: "call \<Rightarrow> bool" where
  "is_quiet c = (case c of Net n \<Rightarrow> True | Os (ParseText k s) \<Rightarrow> True | _ \<Rightarrow> False)"

lemma is_quiet_simps [simp]: "is_quiet (Net n)" "is_quiet (Os (ParseText k s))"
  by (simp_all add: is_quiet_def)

lemma quiet_call:
  assumes "is_quiet c"
  shows "can D hash h c" and "effect c h d = d" and "put_in c d = {}"
  using assms by (auto simp: is_quiet_def call_defs split: call.splits os_call.splits)

lemma same_quiet [simp]: "is_quiet c \<Longrightarrow> same D h (Did c # h') = same D h h'"
  by (simp add: same_def quiet_call)

lemma wp_quiet:
  assumes "obeys D hash bs W" and "is_quiet c"
  shows "wp (invoke W c) Q h = Q (length h) (Did c # h)"
    and "wp (invoke_get W get c) Q' h = Q' (get W h c) (Did c # h)"
    and "wp (go_then (invoke W c) m) Q'' h = wp m Q'' (Did c # h)"
    and "snd (invoke W c h) = Did c # h"
  using wp_calls [OF assms(1) quiet_call(1) [OF assms(2)]] by simp_all

lemma wp_then_online:
  assumes "obeys D hash bs W" and "\<And>h'. same D h h' \<Longrightarrow> wp k Q h'"
  shows "wp (go_then (if b then invoke W (Net (Online ep)) else go_ret 0) k) Q h"
  using assms(2) by (cases b) (simp_all add: wp_simps wp_quiet(3) [OF assms(1)])

lemma sendme_bind_wp:
  assumes "obeys D hash bs W" and "opt_ipv4 opt = [] \<or> opt_ipv6 opt = []"
  shows "wp (sendme_bind W opt opts) (\<lambda>_ h'. same D h h') h"
  using assms(2) by (auto simp: sendme_bind_def relay_mode_of_def wp_simps wp_quiet [OF assms(1)])

text \<open>A collection of these entries can be written and read again, and is not too large to be fetched.\<close>

definition reads_back :: "blob_lib \<Rightarrow> (bytes \<Rightarrow> string) \<Rightarrow> entry list \<Rightarrow> bool" where
  "reads_back L hash es \<longleftrightarrow>
     parse_seq L (collection_seq L es) = Inr (hash (collection_meta L es) # map snd es) \<and>
     parse_collection L (hash (collection_meta L es) # map snd es) (collection_meta L es) = Inr es \<and>
     int (length (collection_seq L es)) \<le> max_meta_size \<and> int (length (collection_meta L es)) \<le> max_meta_size"

lemma fetch_collection_wp:
  assumes "obeys D hash bs W" and "reads_back L hash es"
    and "{collection_seq L es, collection_meta L es} \<subseteq> bs \<inter> held D h"
  shows "wp (fetch_collection W L conn (hash (collection_seq L es))) (\<lambda>es' h'. es' = es \<and> same D h h') h"
proof -
  have seq: "wp (fetch_small W conn (hash (collection_seq L es))) (\<lambda>x h'. x = collection_seq L es \<and> same D h h') h"
    using assms by (intro fetch_small_wp) (auto simp: reads_back_def)
  have meta: "wp (fetch_small W conn (hash (collection_meta L es))) (\<lambda>x h'. x = collection_meta L es \<and> same D h1 h') h1"
    if "same D h h1" for h1
    using assms that by (intro fetch_small_wp) (auto simp: reads_back_def same_def)
  have parsed: "parse_seq L (collection_seq L es) = Inr (hash (collection_meta L es) # map snd es)"
    "parse_collection L (hash (collection_meta L es) # map snd es) (collection_meta L es) = Inr es"
    using assms(2) by (simp_all add: reads_back_def)
  show ?thesis
    unfolding fetch_collection_def wp_simps
  proof (rule wp_mono [OF seq], elim conjE, hypsubst, unfold parsed wp_simps list.case)
    fix h1 assume h1: "same D h h1"
    show "wp (fetch_small W conn (hash (collection_meta L es))) (\<lambda>x. wp (go_lift (parse_collection L (hash (collection_meta L es) # map snd es) x))
        (\<lambda>es' h'. es' = es \<and> same D h h')) h1"
      by (rule wp_mono [OF meta [OF h1]]) (use h1 in \<open>auto simp: wp_simps parsed same_def\<close>)
  qed
qed

lemma receive_wp:
  assumes W: "obeys D hash bs W" and L: "reads_back L hash es" "parse_ticket L tk = Inr t"
    and t: "tk_hash_seq t" "tk_hash t = hash (collection_seq L es)" and root: "slash \<notin> set (tk_hash t)"
    and opt: "opt_ipv4 opt = [] \<or> opt_ipv6 opt = []" and dst: "rooted dst"
    and held: "{collection_seq L es, collection_meta L es} \<subseteq> bs \<inter> held D h"
    and names: "list_all2 (\<lambda>e t. export_path dst (fst e) = Inr t) es ts"
    and content: "\<forall>j < length es. snd (es ! j) = hash (cont j) \<and> cont j \<in> bs \<and> cont j \<in> held D h"
    and sched: "set (sched (length es)) = {..<length es}"
    and log: "log = println \<or> log = eprintln"
    and room: "room_for (disk_after D h) dst (path_comps dst @ [''.sendme-recv-'' @ tk_hash t]) ts"
  shows "wp (receive W L sched log tk dst opt)
    (\<lambda>_ h'. received (disk_after D h) (path_comps dst @ [''.sendme-recv-'' @ tk_hash t]) ts cont (disk_after D h')) h"
proof -
  define P where "P h' = received (disk_after D h) (path_comps dst @ [''.sendme-recv-'' @ tk_hash t]) ts cont (disk_after D h')" for h'
  have P: "P (Did c # h') = P h'" if "is_quiet c" for c h'
    using that by (simp add: P_def quiet_call)
  have entries: "wp (fetch_collection W L conn (tk_hash t)) (\<lambda>es'. wp (receive_entries W sched log conn (tk_hash t) es' dst opt) (\<lambda>_. P)) h1"
    if "same D h h1" for conn h1
  proof -
    have "{collection_seq L es, collection_meta L es} \<subseteq> bs \<inter> held D h1"
      using held that by (simp add: same_def)
    from fetch_collection_wp [OF W L(1) this, of conn, folded t(2)] show ?thesis
    proof (rule wp_mono, elim conjE, hypsubst)
      fix h2 assume "same D h1 h2"
      with that have d: "disk_after D h2 = disk_after D h" "held D h2 = held D h" by (simp_all add: same_def)
      show "wp (receive_entries W sched log conn (tk_hash t) es dst opt) (\<lambda>_. P) h2"
        by (rule wp_mono [OF receive_entries_wp [OF W dst root names _ _ log, where h = h2 and cont = cont and sched = sched]])
          (use content sched room d in \<open>simp_all add: P_def\<close>)
    qed
  qed
  have connected: "wp (go_try (query W got_text (Net (ShortID (tk_addr t)))) (\<lambda>short.
      go_try (go_wrap (''connect to '' @ short) (invoke W (Net (Connect ep (tk_addr t) blobs_alpn)))) (\<lambda>conn.
      go_defer (invoke W (Net (CloseConn conn 0 [])))
        (go_try (fetch_collection W L conn (tk_hash t)) (\<lambda>entries. receive_entries W sched log conn (tk_hash t) entries dst opt)))))
      (\<lambda>x h'. P (snd (shutdown W ep h'))) h1"
    if "same D h h1" for ep h1
    by (simp add: wp_simps shutdown_def wp_quiet [OF W] P) (rule entries, simp add: that)
  have "wp (receive W L sched log tk dst opt) (\<lambda>_. P) h"
    unfolding receive_def L(2) go_try_lift
    using t(1)
    apply (simp only: wp_simps not_True_eq_False if_False if_cancel)
    apply (rule wp_mono [OF sendme_bind_wp [OF W opt]])
    apply (rule wp_then_online [OF W])
    apply (rule connected)
    apply (simp add: same_def quiet_call)
    done
  then show ?thesis
    by (simp add: P_def [abs_def])
qed

end
