(* ===== verification/SendReceive.thy ===== *)
theory SendReceive
  imports Receiving
begin

text \<open>
  A whole transfer of \<^verbatim>\<open>go-iroh-sendme\<close>: over a file system and a blob store that do what they are
  asked (Disk), what \<^verbatim>\<open>startSend\<close> imports is what \<^verbatim>\<open>receive\<close> exports (Receiving), file by file, in
  whatever order the workers of both sides finish.
\<close>

section \<open>Importing\<close>

lemma import_one_wp:
  assumes "obeys D hash bs W" and "disk_after D h (path_comps (file_path f)) = Some (File b)"
  shows "wp (import_one W store f) (\<lambda>out h'. fst out = None \<and> fst (snd out) = hash b \<and>
      disk_after D h' = disk_after D h \<and> held D h' = insert b (held D h)) h"
proof -
  let ?h = "Did (Blob (ImportFile store (file_path f))) # h"
  have "can D hash h (Blob (ImportFile store (file_path f)))" "can D hash ?h (Os (Stat (file_path f)))"
    using assms(2) by (simp_all add: call_defs)
  note calls = this [THEN wp_calls(4) [OF assms(1)]]
  show ?thesis
    using assms(2) obeys_hash(2) [OF assms] by (simp add: import_one_def wp_simps calls) (simp add: call_defs)
qed

lemma import_all_wp:
  assumes "obeys D hash bs W" and "imp_err acc = None" and "length (imp_entries acc) = length files"
    and "\<forall>i \<in> set js. i < length files \<and> disk_after D h (path_comps (file_path (files ! i))) = Some (File (cont i))"
  shows "wp (import_all W store files js acc) (\<lambda>acc' h'. imp_err acc' = None \<and> length (imp_entries acc') = length files \<and>
      (\<forall>i < length files. imp_entries acc' ! i = (if i \<in> set js then (file_name (files ! i), hash (cont i)) else imp_entries acc ! i)) \<and>
      disk_after D h' = disk_after D h \<and> held D h' = cont ` set js \<union> held D h) h"
  using assms(2-)
proof (induction js arbitrary: acc h)
  case (Cons i js)
  from Cons.prems(3) have i: "i < length files" "disk_after D h (path_comps (file_path (files ! i))) = Some (File (cont i))" by auto
  show ?case
    unfolding import_all.simps wp_simps
  proof (rule wp_mono [OF import_one_wp [OF assms(1) i(2)]])
    fix out :: import_outcome and h1
    assume out: "fst out = None \<and> fst (snd out) = hash (cont i) \<and> disk_after D h1 = disk_after D h \<and> held D h1 = insert (cont i) (held D h)"
    let ?acc = "import_done files i out acc"
    have acc: "imp_err ?acc = None" "imp_entries ?acc = (imp_entries acc)[i := (file_name (files ! i), hash (cont i))]"
      using out Cons.prems(1) by (cases out; simp add: import_done_def)+
    have "wp (import_all W store files js ?acc) (\<lambda>acc' h'. imp_err acc' = None \<and> length (imp_entries acc') = length files \<and>
      (\<forall>j < length files. imp_entries acc' ! j = (if j \<in> set js then (file_name (files ! j), hash (cont j)) else imp_entries ?acc ! j)) \<and>
      disk_after D h' = disk_after D h1 \<and> held D h' = cont ` set js \<union> held D h1) h1"
      using Cons.prems acc out by (intro Cons.IH) auto
    then show "wp (import_all W store files js ?acc) (\<lambda>acc' h'. imp_err acc' = None \<and> length (imp_entries acc') = length files \<and>
      (\<forall>j < length files. imp_entries acc' ! j = (if j \<in> set (i # js) then (file_name (files ! j), hash (cont j)) else imp_entries acc ! j)) \<and>
      disk_after D h' = disk_after D h \<and> held D h' = cont ` set (i # js) \<union> held D h) h1"
      by (rule wp_mono) (use out acc(2) Cons.prems(2) in \<open>auto simp: nth_list_update\<close>)
  qed
qed (simp add: wp_simps)

text \<open>The collection a send makes of its files.\<close>

definition sent_entries :: "(bytes \<Rightarrow> string) \<Rightarrow> source_file list \<Rightarrow> (nat \<Rightarrow> bytes) \<Rightarrow> entry list" where
  "sent_entries hash files cont = map (\<lambda>i. (file_name (files ! i), hash (cont i))) [0..<length files]"

lemma import_files_wp:
  assumes "obeys D hash bs W" and "set (sched (length files)) = {..<length files}"
    and "\<forall>i < length files. disk_after D h (path_comps (file_path (files ! i))) = Some (File (cont i))"
  shows "wp (import_files W L sched store files) (\<lambda>(root, n) h'. root = hash (collection_seq L (sent_entries hash files cont)) \<and>
      disk_after D h' = disk_after D h \<and>
      {collection_seq L (sent_entries hash files cont), collection_meta L (sent_entries hash files cont)} \<union>
        cont ` {..<length files} \<subseteq> held D h') h"
proof -
  let ?es = "sent_entries hash files cont"
  have imported: "wp (import_all W store files (sched (length files)) (import_start files)) (\<lambda>acc' h'. imp_err acc' = None \<and>
      imp_entries acc' = ?es \<and> disk_after D h' = disk_after D h \<and> cont ` {..<length files} \<subseteq> held D h') h"
    by (rule wp_mono [OF import_all_wp [OF assms(1), where files = files and js = "sched (length files)" and cont = cont]])
      (use assms(2,3) in \<open>auto simp: import_start_def sent_entries_def intro: nth_equalityI\<close>)
  have add: "can D hash h' (Blob (AddBlob store b))" for h' b
    by (simp add: can_def)
  note calls = wp_calls(2) [OF assms(1) add]
  show ?thesis
    unfolding import_files_def wp_simps
    by (rule wp_mono [OF imported]) (auto simp: calls wp_simps obeys_hash(1) [OF assms(1)] call_defs)
qed

section \<open>A whole transfer\<close>

lemma ticket_addr_wp:
  assumes "obeys D hash bs W"
  shows "wp (ticket_addr W N ep tt) (\<lambda>_ h'. same D h h') h"
  by (simp add: ticket_addr_def direct_addrs_def wp_simps Let_def) (simp add: call_defs)

lemma println_all_wp: "wp (println_all ls) (\<lambda>_ h'. same D h h') h"
proof (induction ls arbitrary: h)
  case (Cons s ls)
  from Cons.IH [of "Out s # h"] show ?case by (simp add: wp_simps)
qed (simp add: wp_simps)

lemma wp_then_all:
  "(\<And>h'. same D h h' \<Longrightarrow> wp k Q h') \<Longrightarrow> wp (go_then (if b then println_all ls else go_ret ()) k) Q h"
  by (rule wp_then_ok, cases b) (auto simp: wp_simps intro: wp_mono [OF println_all_wp [where D = D]])

lemma announce_wp:
  assumes "obeys D hash bs W"
  shows "wp (announce W L N path opt files root amount ep) (\<lambda>t h'. tk_hash t = root \<and> tk_hash_seq t \<and> same D h h') h"
proof -
  let ?lines = "\<lambda>t kind. go_then (println (''imported '' @ kind @ '' '' @ path_base path @ '', '' @ human_bytes (sint amount) @ '', hash '' @ root))
     (go_then (if opt_verbose opt then println_all (map (\<lambda>f. ''    '' @ file_name f) files) else go_ret ())
     (go_then (println ''to get this data, use'')
     (go_then (println (''sendme receive '' @ ticket_text L t)) (go_ret t))))"
  have lines: "wp (?lines t kind) (\<lambda>t' h'. t' = t \<and> same D h h') h1" if "same D h h1" for t kind h1
    using that by (simp only: wp_then_print) (rule wp_then_all [where D = D], simp add: wp_simps same_def)
  have stat: "wp (go_catch (invoke_get W got_flag (Os (Stat path))) k) Q h1" if "\<And>r h2. same D h1 h2 \<Longrightarrow> wp (k r) Q h2" for k h1 and Q :: "ticket \<Rightarrow> io_hist \<Rightarrow> bool"
  proof -
    have "same D h1 (Did (Os (Stat path)) # h1)" "same D h1 (Failed (Os (Stat path)) e # h1)" for e
      by (simp_all add: call_defs)
    with that show ?thesis by (auto simp: wp_def go_simps split: option.split)
  qed
  show ?thesis
    unfolding announce_def
  proof (rule wp_then_online [OF assms], unfold wp_simps, rule wp_mono [OF ticket_addr_wp [OF assms]], rule stat, unfold Let_def)
    fix h1 addr h2 st h3 assume "same D h h1" "same D h1 h2" "same D h2 h3"
    then have "same D h h3" by (simp add: same_def)
    from lines [OF this] show "wp (?lines \<lparr>tk_addr = addr, tk_hash = root, tk_hash_seq = True\<rparr> (case st of Inr True \<Rightarrow> ''file'' | _ \<Rightarrow> ''directory''))
      (\<lambda>t h'. tk_hash t = root \<and> tk_hash_seq t \<and> same D h h') h3"
      by (rule wp_mono) auto
  qed
qed

lemma start_send_wp:
  assumes W: "obeys D hash bs W" and opt: "opt_ipv4 opt = [] \<or> opt_ipv6 opt = []"
    and walked: "walk path (walk_of L h path) = Inr files"
    and files: "\<forall>i < length files. disk_after D h (path_comps (file_path (files ! i))) = Some (File (cont i))"
    and sched: "set (sched (length files)) = {..<length files}"
    and dir: "disk_after D h (path_comps dir) = None"
      "\<forall>q. prefix q (path_comps dir) \<longrightarrow> disk_after D h q = None \<or> disk_after D h q = Some Folder"
  shows "wp (start_send W L N sched path dir opt) (\<lambda>s h'. tk_hash_seq (snd_ticket s) \<and>
      tk_hash (snd_ticket s) = hash (collection_seq L (sent_entries hash files cont)) \<and>
      disk_after D h' = (\<lambda>q. if prefix q (path_comps dir) then Some Folder else disk_after D h q) \<and>
      {collection_seq L (sent_entries hash files cont), collection_meta L (sent_entries hash files cont)} \<union>
        cont ` {..<length files} \<subseteq> held D h') h"
proof -
  let ?es = "sent_entries hash files cont"
  let ?d = "\<lambda>q. if prefix q (path_comps dir) then Some Folder else disk_after D h q"
  let ?held = "\<lambda>h'. {collection_seq L ?es, collection_meta L ?es} \<union> cont ` {..<length files} \<subseteq> held D h'"
  let ?h0 = "Did (Os (WalkDir path)) # h"
  define Q where "Q s h' \<longleftrightarrow> tk_hash_seq (snd_ticket s) \<and> tk_hash (snd_ticket s) = hash (collection_seq L ?es) \<and>
      disk_after D h' = ?d \<and> ?held h'" for s :: sender and h'
  have d0: "disk_after D ?h0 = disk_after D h" "held D ?h0 = held D h"
    by (simp_all add: call_defs)
  have announced: "wp (announce W L N path opt files root amount ep) (\<lambda>t. Q \<lparr>snd_ep = ep, snd_store_dir = dir, snd_store = store, snd_ticket = t\<rparr>) h1"
    if "root = hash (collection_seq L ?es)" "disk_after D h1 = ?d" "?held h1" for root amount ep store h1
    by (rule wp_mono [OF announce_wp [OF W]]) (use that in \<open>auto simp: wp_simps Q_def same_def\<close>)
  have bound: "wp (go_catch (sendme_bind W opt (WithALPNs [blobs_alpn] # lookup)) (\<lambda>b. case b of
       Inl e \<Rightarrow> go_then (remove_store W dir) (go_fail e)
     | Inr ep \<Rightarrow> go_try (announce W L N path opt files root amount ep) (\<lambda>t.
         go_ret \<lparr>snd_ep = ep, snd_store_dir = dir, snd_store = store, snd_ticket = t\<rparr>))) Q h1"
    if "root = hash (collection_seq L ?es)" "disk_after D h1 = ?d" "?held h1" for root amount store h1 lookup
    by (rule wp_catch_ok, rule wp_mono [OF sendme_bind_wp [OF W opt, where h = h1]], unfold sum.case wp_simps)
      (use that announced in \<open>auto simp: same_def\<close>)
  have published: "wp (go_try (publisher_opts W opt) k) Q h1"
    if "\<And>lookup h2. same D h1 h2 \<Longrightarrow> wp (k lookup) Q h2" for k h1
  proof -
    have "can D hash h1 (Blob (Publisher x))" "same D h1 (Did (Blob (Publisher x)) # h1)" for x
      by (simp_all add: call_defs)
    with that show ?thesis
      by (auto simp: publisher_opts_def wp_simps wp_calls(1) [OF W])
  qed
  have imported: "wp (import_files W L sched store files) (\<lambda>(root, n) h'. root = hash (collection_seq L ?es) \<and> disk_after D h' = ?d \<and> ?held h') h1"
    if "disk_after D h1 = ?d" for store h1
  proof -
    have "disk_after D h1 (path_comps (file_path (files ! i))) = Some (File (cont i))" if "i < length files" for i
      using files that dir(2) \<open>disk_after D h1 = ?d\<close> by fastforce
    then show ?thesis
      using that by (intro wp_mono [OF import_files_wp [where cont = cont and h = h1 and files = files and sched = sched, OF W sched]]) auto
  qed
  have "wp (start_send W L N sched path dir opt) Q h"
    unfolding start_send_def wp_simps walked
  proof (rule wp_absent(2) [OF W], simp add: call_defs dir(1), unfold sum.case wp_simps)
    fix e
    let ?h = "Failed (Os (Stat dir)) e # ?h0"
    have new: "can D hash ?h (Blob (NewStore dir))"
      using dir(2) by (simp add: call_defs)
    show "wp (invoke W (Blob (NewStore dir))) (\<lambda>store. wp (go_catch (import_files W L sched store files) (\<lambda>imp. case imp of
       Inl e \<Rightarrow> go_then (remove_store W dir) (go_fail e)
     | Inr (root, amount) \<Rightarrow>
     go_try (publisher_opts W opt) (\<lambda>lookup.
     go_catch (sendme_bind W opt (WithALPNs [blobs_alpn] # lookup)) (\<lambda>b.
     case b of
       Inl e \<Rightarrow> go_then (remove_store W dir) (go_fail e)
     | Inr ep \<Rightarrow>
     go_try (announce W L N path opt files root amount ep) (\<lambda>t.
     go_ret \<lparr>snd_ep = ep, snd_store_dir = dir, snd_store = store, snd_ticket = t\<rparr>))))) Q) ?h"
      unfolding wp_calls(1) [OF W new]
      apply (rule wp_catch_ok, rule wp_mono [OF imported])
       apply (simp add: effect_def d0)
      apply (clarsimp split del: if_split)
      apply (rule published, rule bound)
        apply (simp_all add: same_def)
      done
  qed
  then show ?thesis
    by (simp add: Q_def [abs_def])
qed

section \<open>Trees on the disk\<close>

fun tree_get :: "tree \<Rightarrow> string list \<Rightarrow> node option" where
  "tree_get (Regular b) [] = Some (File b)"
| "tree_get Special [] = Some Other"
| "tree_get (Directory es) [] = Some Folder"
| "tree_get (Directory es) (n # ns) = (case map_of es n of None \<Rightarrow> None | Some t \<Rightarrow> tree_get t ns)"
| "tree_get t ns = None"

definition tree_at :: "disk \<Rightarrow> string list \<Rightarrow> tree \<Rightarrow> bool" where
  "tree_at d p t \<longleftrightarrow> (\<forall>q. d (p @ q) = tree_get t q)"

lemma tree_get_leaf: "tree_get t p = Some (File b) \<Longrightarrow> prefix p q \<Longrightarrow> tree_get t q = Some x \<Longrightarrow> q = p"
  by (induction t p arbitrary: q rule: tree_get.induct) (auto simp: prefix_Cons split: option.splits elim: tree_get.elims)

text \<open>\<^verbatim>\<open>WalkDir\<close> comes by every regular file, where it is.\<close>

lemma walk_dir_files:
  assumes "plain_tree t" and "rooted p"
  shows "(\<exists>q. Visit q (Regular b) \<in> set (walk_dir p t) \<and> path_comps q = path_comps p @ cs) \<longleftrightarrow> tree_get t cs = Some (File b)"
  using assms
proof (induction p t arbitrary: cs rule: walk_dir.induct)
  case (3 p es)
  have es: "distinct (map fst es)" "\<And>e. e \<in> set es \<Longrightarrow> plain_tree (snd e)" "\<And>e. e \<in> set es \<Longrightarrow> plain (fst e)"
    using "3.prems"(1) by auto
  have here: "path_comps (path_join [p, fst e]) = path_comps p @ [fst e]" "rooted (path_join [p, fst e])" if "e \<in> set es" for e
    using es(3) [OF that] "3.prems"(2) by (simp_all add: path_comps_join rooted_join)
  have entry: "map_of es (fst e) = Some (snd e)" if "e \<in> set es" for e
    using that es(1) by (simp add: map_of_eq_Some_iff)
  have below: "\<exists>c cs'. path_comps q = path_comps p @ fst e # cs' \<and> (\<exists>q. Visit q (Regular b) \<in> set (walk_dir (path_join [p, fst e]) (snd e)) \<and>
      path_comps q = path_comps (path_join [p, fst e]) @ cs')" if "e \<in> set es" "Visit q (Regular b) \<in> set (walk_dir (path_join [p, fst e]) (snd e))" for e q
    using walk_dir_paths [OF es(2) [OF that(1)] here(2) [OF that(1)] that(2)] here(1) [OF that(1)] that(2) by auto
  show ?case
  proof
    assume "\<exists>q. Visit q (Regular b) \<in> set (walk_dir p (Directory es)) \<and> path_comps q = path_comps p @ cs"
    then obtain q e where q: "e \<in> set es" "Visit q (Regular b) \<in> set (walk_dir (path_join [p, fst e]) (snd e))" "path_comps q = path_comps p @ cs"
      by auto
    with below [OF q(1,2)] obtain cs' where "cs = fst e # cs'"
      "\<exists>q. Visit q (Regular b) \<in> set (walk_dir (path_join [p, fst e]) (snd e)) \<and> path_comps q = path_comps (path_join [p, fst e]) @ cs'"
      by auto
    with "3.IH" [OF q(1) es(2) [OF q(1)] here(2) [OF q(1)], of cs'] entry [OF q(1)]
    show "tree_get (Directory es) cs = Some (File b)" by simp
  next
    assume "tree_get (Directory es) cs = Some (File b)"
    then obtain n cs' t where cs: "cs = n # cs'" "map_of es n = Some t" "tree_get t cs' = Some (File b)"
      by (cases cs) (auto split: option.splits)
    then have e: "(n, t) \<in> set es" by (simp add: map_of_SomeD)
    from "3.IH" [OF e es(2) [OF e] here(2) [OF e], of cs'] cs(3)
    obtain q where "Visit q (Regular b) \<in> set (walk_dir (path_join [p, n]) t)" "path_comps q = path_comps (path_join [p, n]) @ cs'"
      by auto
    with e cs(1) here(1) [OF e] show "\<exists>q. Visit q (Regular b) \<in> set (walk_dir p (Directory es)) \<and> path_comps q = path_comps p @ cs"
      by (intro exI [of _ q]) force
  qed
next
  case (1 p b')
  then show ?case by (cases cs) auto
next
  case (2 p)
  then show ?case by (cases cs) auto
qed

lemma walk_all_files:
  "walk_all parent vs = Inr fs \<Longrightarrow> file_path ` set fs = {q. \<exists>b. Visit q (Regular b) \<in> set vs}"
proof (induction vs arbitrary: fs)
  case (Cons v vs)
  then obtain gs hs where gs: "walk_one parent v = Inr gs" "walk_all parent vs = Inr hs" "fs = gs @ hs"
    by (auto split: sum.splits)
  have "file_path ` set gs = {q. \<exists>b. Visit q (Regular b) = v}"
    using gs(1) by (cases v) (auto simp: walk_one_def Let_def split: tree.splits sum.splits option.splits)
  with Cons.IH [OF gs(2)] gs(3) show ?case by auto
qed simp

text \<open>The content of the file a walk found.\<close>

definition content_of :: "tree \<Rightarrow> source_file \<Rightarrow> bytes" where
  "content_of t f = (case tree_get t (tl (split_on slash (file_name f))) of Some (File b) \<Rightarrow> b | _ \<Rightarrow> [])"

definition collected :: "(bytes \<Rightarrow> string) \<Rightarrow> tree \<Rightarrow> source_file list \<Rightarrow> entry list" where
  "collected hash t files = map (\<lambda>f. (file_name f, hash (content_of t f))) files"

lemma sent_collected: "sent_entries hash files (\<lambda>i. content_of t (files ! i)) = collected hash t files"
  unfolding sent_entries_def collected_def by (rule nth_equalityI) simp_all

lemma walk_of_tree:
  assumes plain: "\<forall>c \<in> set (parent @ [base]). plain c" "plain_tree t"
    and walked: "walk (render True (parent @ [base])) (walk_dir (render True (parent @ [base])) t) = Inr files"
  shows "f \<in> set files \<Longrightarrow> \<exists>q. split_on slash (file_name f) = base # q \<and> path_comps (file_path f) = parent @ base # q \<and>
      tree_get t q = Some (File (content_of t f))"
    and "tree_get t q = Some (File b) \<Longrightarrow> \<exists>f \<in> set files. split_on slash (file_name f) = base # q"
proof -
  let ?p = "render True (parent @ [base])"
  have p: "rooted ?p" "path_comps ?p = parent @ [base]"
    using plain(1) path_comps_rooted [of "parent @ [base]"] by (simp_all add: render_def rooted_def)
  note under = walk_under [OF plain walked]
  obtain fs where fs: "walk_all (path_dir ?p) (walk_dir ?p t) = Inr fs" "set files = set fs"
    using walked by (auto simp: walk_def split: sum.splits)
  note found = walk_all_files [OF fs(1), folded fs(2)]
  show "\<exists>q. split_on slash (file_name f) = base # q \<and> path_comps (file_path f) = parent @ base # q \<and>
      tree_get t q = Some (File (content_of t f))" if f: "f \<in> set files" for f
  proof -
    have "file_path f \<in> {q. \<exists>b. Visit q (Regular b) \<in> set (walk_dir ?p t)}"
      using f found by blast
    then obtain b where b: "Visit (file_path f) (Regular b) \<in> set (walk_dir ?p t)" by auto
    from walk_dir_paths [OF plain(2) p(1) b] obtain q where q: "path_comps (file_path f) = parent @ base # q"
      by (auto simp: p(2))
    then have name: "split_on slash (file_name f) = base # q"
      using under f by auto
    have "tree_get t q = Some (File b)"
      using walk_dir_files [OF plain(2) p(1), of b q] b q by (auto simp: p(2))
    with name q show ?thesis
      by (simp add: content_of_def)
  qed
  show "\<exists>f \<in> set files. split_on slash (file_name f) = base # q" if q: "tree_get t q = Some (File b)" for q b
  proof -
    obtain p' where p': "Visit p' (Regular b) \<in> set (walk_dir ?p t)" "path_comps p' = parent @ base # q"
      using walk_dir_files [OF plain(2) p(1), of b q] q by (auto simp: p(2))
    then have "p' \<in> file_path ` set files" using found by blast
    then obtain f where "f \<in> set files" "file_path f = p'" by blast
    with under p'(2) show ?thesis by force
  qed
qed

text \<open>
  Nothing is there yet at a name in the directory a receiver writes to, and the sender's store
  is not put there.
\<close>

definition unused :: "disk \<Rightarrow> string \<Rightarrow> string \<Rightarrow> string \<Rightarrow> bool" where
  "unused d dir dst x \<longleftrightarrow> (\<forall>q. d (path_comps dst @ x # q) = None \<and> \<not> prefix (path_comps dst @ x # q) (path_comps dir))"

lemma targets_room:
  assumes plain: "\<forall>c \<in> set (parent @ [base]). plain c" "plain_tree t" and dst: "rooted dst"
    and walked: "walk (render True (parent @ [base])) (walk_dir (render True (parent @ [base])) t) = Inr files"
    and folders: "\<forall>q. prefix q (path_comps dst) \<longrightarrow> d q = Some Folder"
    and free: "unused d dir dst base" "unused d dir dst x" "x \<noteq> base"
  shows "\<exists>ts. list_all2 (\<lambda>e t. export_path dst (fst e) = Inr t) (collected hash t files) ts \<and>
    map path_comps ts = map (\<lambda>f. path_comps dst @ split_on slash (file_name f)) files \<and>
    room_for (\<lambda>q. if prefix q (path_comps dir) then Some Folder else d q) dst (path_comps dst @ [x]) ts"
proof -
  let ?ts = "map (\<lambda>f. path_join (dst # split_on slash (file_name f))) files"
  note under = walk_under [OF plain walked]
  have good: "\<forall>c \<in> set (split_on slash (file_name f)). plain c \<and> CHR 0x5C \<notin> set c" if "f \<in> set files" for f
    using under that by blast
  have comps: "map path_comps ?ts = map (\<lambda>f. path_comps dst @ split_on slash (file_name f)) files"
    using good by (simp add: path_comps_join [OF dst])
  have names: "list_all2 (\<lambda>e t. export_path dst (fst e) = Inr t) (collected hash t files) ?ts"
    using good by (auto simp: collected_def list_all2_conv_all_nth export_path_def Let_def list_ex_iff bad_component_def plain_def
        dest!: nth_mem)
  have below: "\<exists>q. path_comps u = path_comps dst @ base # q" if "u \<in> set ?ts" for u
  proof -
    from that obtain f where f: "f \<in> set files" "u = path_join (dst # split_on slash (file_name f))" by auto
    with good have "path_comps u = path_comps dst @ split_on slash (file_name f)"
      by (simp add: path_comps_join [OF dst])
    with walk_of_tree(1) [OF plain walked f(1)] show ?thesis by auto
  qed
  have "separate (path_comps dst @ [x]) (map path_comps ?ts)"
  proof -
    have "j = k" if "j < length files" "k < length files" "prefix (split_on slash (file_name (files ! j))) (split_on slash (file_name (files ! k)))" for j k
    proof -
      from walk_of_tree(1) [OF plain walked, of "files ! j"] walk_of_tree(1) [OF plain walked, of "files ! k"] that
      have "split_on slash (file_name (files ! j)) = split_on slash (file_name (files ! k))"
        by (auto dest: tree_get_leaf)
      then have "file_name (files ! j) = file_name (files ! k)"
        by (metis join_split_on)
      with under that(1,2) show "j = k"
        by (auto simp: distinct_conv_nth)
    qed
    moreover have "\<not> prefix [x] (split_on slash (file_name f))" if "f \<in> set files" for f
      using walk_of_tree(1) [OF plain walked that] free(3) by auto
    ultimately show ?thesis
      unfolding comps by (auto simp: separate_def)
  qed
  moreover have "prefix q (butlast (path_comps u)) \<longrightarrow>
      (if prefix q (path_comps dir) then Some Folder else d q) = None \<or> (if prefix q (path_comps dir) then Some Folder else d q) = Some Folder"
    if "u \<in> set ?ts" for u q
  proof
    assume "prefix q (butlast (path_comps u))"
    moreover obtain r where "path_comps u = path_comps dst @ base # r" using below [OF \<open>u \<in> set ?ts\<close>] by blast
    ultimately have "prefix q (path_comps dst @ base # r)"
      by (metis prefix_order.trans prefixeq_butlast)
    then consider "prefix q (path_comps dst)" | r' where "q = path_comps dst @ base # r'"
      by (auto simp: prefix_append prefix_Cons)
    then show "(if prefix q (path_comps dir) then Some Folder else d q) = None \<or> (if prefix q (path_comps dir) then Some Folder else d q) = Some Folder"
      using folders free(1) by cases (auto simp: unused_def)
  qed
  moreover have "\<forall>u \<in> set ?ts. \<not> prefix (path_comps u) (path_comps dir) \<and> d (path_comps u) = None"
    using below free(1) by (metis unused_def)
  ultimately have "room_for (\<lambda>q. if prefix q (path_comps dir) then Some Folder else d q) dst (path_comps dst @ [x]) ?ts"
    using folders free(2) by (auto simp: room_for_def unused_def)
  with names comps show ?thesis by blast
qed

text \<open>The sender's side: a tree at its path, found by \<^verbatim>\<open>WalkDir\<close>, and no store at \<open>dir\<close> yet.\<close>

definition ready_to_send :: "blob_lib \<Rightarrow> disk \<Rightarrow> io_hist \<Rightarrow> string list \<Rightarrow> string \<Rightarrow> tree \<Rightarrow> source_file list \<Rightarrow> string \<Rightarrow> bool" where
  "ready_to_send L D h parent base t files dir \<longleftrightarrow>
     (\<forall>c \<in> set (parent @ [base]). plain c) \<and> plain_tree t \<and> tree_at (disk_after D h) (parent @ [base]) t \<and>
     walk_of L h (render True (parent @ [base])) = walk_dir (render True (parent @ [base])) t \<and>
     walk (render True (parent @ [base])) (walk_dir (render True (parent @ [base])) t) = Inr files \<and>
     disk_after D h (path_comps dir) = None \<and>
     (\<forall>q. prefix q (path_comps dir) \<longrightarrow> disk_after D h q = None \<or> disk_after D h q = Some Folder)"

text \<open>The receiver's: a directory where neither the tree's name nor the temporary one is taken.\<close>

definition ready_to_receive :: "disk \<Rightarrow> string \<Rightarrow> string \<Rightarrow> string \<Rightarrow> string \<Rightarrow> bool" where
  "ready_to_receive d dir dst base tmp \<longleftrightarrow>
     rooted dst \<and> (\<forall>q. prefix q (path_comps dst) \<longrightarrow> d q = Some Folder) \<and>
     unused d dir dst base \<and> unused d dir dst tmp \<and> tmp \<noteq> base"

text \<open>
  The sender returns with its directory made, the store holding every content of the tree and
  the collection that lists them, and a ticket that names that collection.
\<close>

lemma sends:
  assumes "obeys D hash bs W" and "ready_to_send L D h parent base t files dir"
    and "root = collection_seq L (collected hash t files)" and "\<forall>n. set (sched n) = {..<n}"
    and "opt_ipv4 opt = [] \<or> opt_ipv6 opt = []"
  shows "\<exists>s h1. start_send W L N sched (render True (parent @ [base])) dir opt h = (Inr s, h1) \<and>
    tk_hash_seq (snd_ticket s) \<and> tk_hash (snd_ticket s) = hash root \<and>
    disk_after D h1 = (\<lambda>q. if prefix q (path_comps dir) then Some Folder else disk_after D h q) \<and>
    {root, collection_meta L (collected hash t files)} \<subseteq> held D h1 \<and>
    (\<forall>i < length files. content_of t (files ! i) \<in> held D h1)"
proof -
  let ?d = "disk_after D h" and ?cont = "\<lambda>i. content_of t (files ! i)"
  have plain: "\<forall>c \<in> set (parent @ [base]). plain c" "plain_tree t" and at: "tree_at ?d (parent @ [base]) t"
    and walked: "walk_of L h (render True (parent @ [base])) = walk_dir (render True (parent @ [base])) t"
      "walk (render True (parent @ [base])) (walk_dir (render True (parent @ [base])) t) = Inr files"
    and dir: "?d (path_comps dir) = None" "\<forall>q. prefix q (path_comps dir) \<longrightarrow> ?d q = None \<or> ?d q = Some Folder"
    using assms(2) unfolding ready_to_send_def by blast+
  have files: "\<forall>i < length files. ?d (path_comps (file_path (files ! i))) = Some (File (?cont i))"
  proof (intro allI impI)
    fix i assume "i < length files"
    from walk_of_tree(1) [OF plain walked(2) nth_mem [OF this]] at
    show "?d (path_comps (file_path (files ! i))) = Some (File (?cont i))"
      by (auto simp: tree_at_def)
  qed
  have "wp (start_send W L N sched (render True (parent @ [base])) dir opt) (\<lambda>s h'. tk_hash_seq (snd_ticket s) \<and>
      tk_hash (snd_ticket s) = hash (collection_seq L (sent_entries hash files ?cont)) \<and>
      disk_after D h' = (\<lambda>q. if prefix q (path_comps dir) then Some Folder else ?d q) \<and>
      {collection_seq L (sent_entries hash files ?cont), collection_meta L (sent_entries hash files ?cont)} \<union>
        ?cont ` {..<length files} \<subseteq> held D h') h"
    using walked assms(4,5) dir by (intro start_send_wp [OF assms(1) _ _ files]) auto
  then show ?thesis
    unfolding wp_iff sent_collected assms(3) [symmetric] by auto
qed

text \<open>Moving every entry to its target puts the files of the tree below the directory, and nothing else anywhere.\<close>

lemma tree_moved:
  assumes plain: "\<forall>c \<in> set (parent @ [base]). plain c" "plain_tree t"
    and walked: "walk (render True (parent @ [base])) (walk_dir (render True (parent @ [base])) t) = Inr files"
    and d1: "\<And>p b. d1 p = Some (File b) \<longleftrightarrow> d p = Some (File b)" and free: "unused d dir dst base"
    and ts: "map path_comps ts = map (\<lambda>f. path_comps dst @ split_on slash (file_name f)) files"
    and r: "received d1 T ts (\<lambda>i. content_of t (files ! i)) d2"
  shows "d2 (path_comps dst @ base # q) = Some (File b) \<longleftrightarrow> tree_get t q = Some (File b)"
    and "\<not> prefix (path_comps dst @ [base]) p \<Longrightarrow> d2 p = Some (File b) \<longleftrightarrow> d p = Some (File b)"
proof -
  note tree = walk_of_tree [OF plain walked]
  have len: "length ts = length files"
    using ts by (metis length_map)
  have targets: "path_comps ` set ts = (\<lambda>f. path_comps dst @ split_on slash (file_name f)) ` set files"
    using ts by (metis list.set_map)
  have put: "d2 (path_comps dst @ split_on slash (file_name f)) = Some (File (content_of t f))" if f: "f \<in> set files" for f
  proof -
    from f obtain j where "j < length files" "f = files ! j" by (metis in_set_conv_nth)
    moreover from this len have "path_comps (ts ! j) = path_comps dst @ split_on slash (file_name f)"
      using ts by (metis nth_map)
    ultimately show ?thesis
      using r len unfolding received_def moved_def by metis
  qed
  have only: "d p = Some (File b) \<or> p \<in> path_comps ` set ts" if "d2 p = Some (File b)" for p b
  proof -
    have "\<not> prefix T p"
      using r that by (auto simp: received_def elim!: prefixE)
    moreover have "prefix T p \<or> d1 p = Some (File b) \<or> p \<in> path_comps ` set ts"
      using r that by (simp add: received_def moved_def)
    ultimately show ?thesis using d1 by blast
  qed
  show "d2 (path_comps dst @ base # q) = Some (File b) \<longleftrightarrow> tree_get t q = Some (File b)"
  proof
    assume got: "d2 (path_comps dst @ base # q) = Some (File b)"
    with only free obtain f where f: "f \<in> set files" "split_on slash (file_name f) = base # q"
      unfolding targets unused_def by (metis (no_types, lifting) image_iff option.distinct(1) same_append_eq)
    with tree(1) [OF f(1)] put [OF f(1)] got show "tree_get t q = Some (File b)" by auto
  next
    assume get: "tree_get t q = Some (File b)"
    from tree(2) [OF this] obtain f where f: "f \<in> set files" "split_on slash (file_name f) = base # q" by blast
    with tree(1) [OF f(1)] put [OF f(1)] get show "d2 (path_comps dst @ base # q) = Some (File b)" by auto
  qed
  show "d2 p = Some (File b) \<longleftrightarrow> d p = Some (File b)" if p: "\<not> prefix (path_comps dst @ [base]) p"
  proof -
    have "p \<notin> path_comps ` set ts"
      unfolding targets using p tree(1) by force
    moreover have "d1 p = Some (File b) \<Longrightarrow> d2 p = Some (File b)"
      using r by (simp add: received_def moved_def)
    ultimately show ?thesis using only d1 by blast
  qed
qed

section \<open>Property\<close>

text \<open>C2. What is sent is received: over a file system and a blob store that do what they are asked,
  with whatever the network reports of addresses and times, for every directory tree or
  single file, and in whatever order the workers of the import and those of the download
  finish, \<^verbatim>\<open>startSend\<close> returns a ticket, and \<^verbatim>\<open>receive\<close> with that ticket returns without an error and
  leaves below its directory exactly the regular files of the tree, each at its relative
  path with its content, and no other file on the disk is changed, added or lost.\<close>

theorem sent_is_received:
  assumes "obeys D hash bs W" and "ready_to_send L D h parent base t files dir"
    and "root = collection_seq L (collected hash t files)"
    and "ready_to_receive (disk_after D h) dir dst base (''.sendme-recv-'' @ hash root)" and "slash \<notin> set (hash root)"
    and "reads_back L hash (collected hash t files)" 
    and "\<forall>k. tk_hash_seq k \<longrightarrow> (\<exists>k'. parse_ticket L (ticket_text L k) = Inr k' \<and> tk_hash_seq k' \<and> tk_hash k' = tk_hash k)"
    and "{root, collection_meta L (collected hash t files)} \<union> content_of t ` set files \<subseteq> bs"
    and "\<forall>n. set (sched n) = {..<n} \<and> set (sched' n) = {..<n}"
    and "\<forall>o' \<in> {opt, opt'}. opt_ipv4 o' = [] \<or> opt_ipv6 o' = []"
    and "log = println \<or> log = eprintln"
  shows "\<exists>s h1 h2. start_send W L N sched (render True (parent @ [base])) dir opt h = (Inr s, h1) \<and>
    receive W L sched' log (ticket_text L (snd_ticket s)) dst opt' h1 = (Inr (), h2) \<and>
    (\<forall>q b. disk_after D h2 (path_comps dst @ base # q) = Some (File b) \<longleftrightarrow> tree_get t q = Some (File b)) \<and>
    (\<forall>p b. \<not> prefix (path_comps dst @ [base]) p \<longrightarrow>
      (disk_after D h2 p = Some (File b) \<longleftrightarrow> disk_after D h p = Some (File b)))"
proof -
  let ?d = "disk_after D h" and ?es = "collected hash t files" and ?T = "path_comps dst @ [''.sendme-recv-'' @ hash root]"
  let ?cont = "\<lambda>i. content_of t (files ! i)"
  have plain: "\<forall>c \<in> set (parent @ [base]). plain c" "plain_tree t"
    and walked: "walk (render True (parent @ [base])) (walk_dir (render True (parent @ [base])) t) = Inr files"
    and dir: "\<forall>q. prefix q (path_comps dir) \<longrightarrow> ?d q = None \<or> ?d q = Some Folder"
    using assms(2) unfolding ready_to_send_def by blast+
  have dst: "rooted dst" "\<forall>q. prefix q (path_comps dst) \<longrightarrow> ?d q = Some Folder" "unused ?d dir dst base"
    "unused ?d dir dst (''.sendme-recv-'' @ hash root)" "''.sendme-recv-'' @ hash root \<noteq> base"
    using assms(4) unfolding ready_to_receive_def by blast+
  obtain s h1 where send: "start_send W L N sched (render True (parent @ [base])) dir opt h = (Inr s, h1)"
    and s: "tk_hash_seq (snd_ticket s)" "tk_hash (snd_ticket s) = hash root"
    and d1: "disk_after D h1 = (\<lambda>q. if prefix q (path_comps dir) then Some Folder else ?d q)"
    and held: "{root, collection_meta L ?es} \<subseteq> held D h1" "\<forall>i < length files. ?cont i \<in> held D h1"
    using sends [OF assms(1-3), of sched opt N] assms(9,10) by auto
  obtain ts where ts: "list_all2 (\<lambda>e t. export_path dst (fst e) = Inr t) ?es ts"
    "map path_comps ts = map (\<lambda>f. path_comps dst @ split_on slash (file_name f)) files" "room_for (disk_after D h1) dst ?T ts"
    using targets_room [OF plain dst(1) walked dst(2-5)] unfolding d1 by blast
  obtain k where k: "parse_ticket L (ticket_text L (snd_ticket s)) = Inr k" "tk_hash_seq k" "tk_hash k = hash root"
    using assms(7) s by metis
  have "wp (receive W L sched' log (ticket_text L (snd_ticket s)) dst opt') (\<lambda>_ h'. received (disk_after D h1) ?T ts ?cont (disk_after D h')) h1"
    unfolding k(3) [symmetric]
  proof (rule receive_wp [OF assms(1,6) k(1)])
    show "\<forall>j < length ?es. snd (?es ! j) = hash (?cont j) \<and> ?cont j \<in> bs \<and> ?cont j \<in> held D h1"
      using assms(8) held(2) by (auto simp: collected_def)
  qed (use assms(3,5,8-11) dst(1) k held(1) ts in \<open>auto simp: collected_def\<close>)
  then obtain h2 where receive: "receive W L sched' log (ticket_text L (snd_ticket s)) dst opt' h1 = (Inr (), h2)"
    and r: "received (disk_after D h1) ?T ts ?cont (disk_after D h2)"
    by (auto simp: wp_iff)
  have "disk_after D h1 p = Some (File b) \<longleftrightarrow> ?d p = Some (File b)" for p b
    using dir by (auto simp: d1)
  from tree_moved [OF plain walked this dst(3) ts(2) r] send receive show ?thesis by blast
qed

text \<open>A disk with a directory of two files, and a world on it whose hashes are lengths.\<close>

definition two_files :: tree where
  "two_files = Directory [(''a'', Regular [1]), (''d'', Directory [(''b'', Regular [2, 3])])]"

definition small_disk :: disk where
  "small_disk = tree_get (Directory [(''src'', Directory [(''t'', two_files)]), (''dst'', Directory [])])"

definition length_hash :: "bytes \<Rightarrow> string" where
  "length_hash b = digits_of (length b)"

definition small_contents :: "bytes list" where
  "small_contents = [[1], [2, 3], [0, 0, 0], [0, 0, 0, 0]]"

definition small_world :: "call world" where
  "small_world =
     \<lparr>fails = \<lambda>h c. if can small_disk length_hash h c then None else Some ErrNotExist,
      got_bytes = \<lambda>h c. [],
      got_text = \<lambda>h c. (case c of
          Blob (AddBlob s b) \<Rightarrow> length_hash b
        | Blob (ImportFile s p) \<Rightarrow> (case disk_after small_disk h (path_comps p) of Some (File b) \<Rightarrow> length_hash b | _ \<Rightarrow> [])
        | _ \<Rightarrow> []),
      got_texts = \<lambda>h c. (case c of
          Blob (BlobChunks s r) \<Rightarrow> map text_of (filter (\<lambda>b. length_hash b = r) small_contents) | _ \<Rightarrow> []),
      got_nat = \<lambda>h c. 0, got_flag = \<lambda>h c. False\<rparr>"

definition small_lib :: blob_lib where
  "small_lib =
     \<lparr>parse_ticket = \<lambda>s. Inr \<lparr>tk_addr = ParsedAddr s, tk_hash = s, tk_hash_seq = True\<rparr>, ticket_text = tk_hash,
      parse_seq = \<lambda>b. Inr [length_hash [0, 0, 0, 0], length_hash [1], length_hash [2, 3]],
      collection_seq = \<lambda>es. [0, 0, 0], collection_meta = \<lambda>es. [0, 0, 0, 0],
      parse_collection = \<lambda>hs b. Inr [(''t/a'', length_hash [1]), (''t/d/b'', length_hash [2, 3])],
      walk_of = \<lambda>h p. walk_dir p two_files\<rparr>"

lemma small_comps:
  "path_comps ''/dst'' = [''dst'']" "path_comps ''/st'' = [''st'']" "rooted ''/dst''"
  "render True ([''src''] @ [''t'']) = ''/src/t''" "plain ''src''" "plain ''t''" "plain ''a''" "plain ''b''" "plain ''d''"
  by code_simp+

lemma small_walk:
  "walk ''/src/t'' (walk_dir ''/src/t'' two_files) =
     Inr [\<lparr>file_name = ''t/a'', file_path = ''/src/t/a''\<rparr>, \<lparr>file_name = ''t/d/b'', file_path = ''/src/t/d/b''\<rparr>]"
  by code_simp

lemma small_collected:
  "content_of two_files \<lparr>file_name = ''t/a'', file_path = ''/src/t/a''\<rparr> = [1]"
  "content_of two_files \<lparr>file_name = ''t/d/b'', file_path = ''/src/t/d/b''\<rparr> = [2, 3]"
  by code_simp+

lemma small_world_obeys: "obeys small_disk length_hash (set small_contents) small_world"
proof -
  have fails: "fails small_world h c = (if can small_disk length_hash h c then None else Some ErrNotExist)" for h c
    by (simp add: small_world_def)
  have texts: "got_text small_world h (Blob (AddBlob s b)) = length_hash b"
    "disk_after small_disk h (path_comps p) = Some (File b) \<Longrightarrow> got_text small_world h (Blob (ImportFile s p)) = length_hash b" for h s p b
    by (simp_all add: small_world_def)
  have absent: "disk_after small_disk h (path_comps p) = None \<Longrightarrow>
      \<not> can small_disk length_hash h (Os (Lstat p)) \<and> \<not> can small_disk length_hash h (Os (Stat p))" for h p
    by (simp add: can_def)
  have chunks: "concat (map bytes_of (got_texts small_world h (Blob (BlobChunks s (length_hash b))))) = b" if "b \<in> set small_contents" for h s b
  proof -
    have "got_texts small_world h (Blob (BlobChunks s r)) = map text_of (filter (\<lambda>b. length_hash b = r) small_contents)" for r
      by (simp add: small_world_def)
    then have "concat (map bytes_of (got_texts small_world h (Blob (BlobChunks s (length_hash b))))) =
        concat (filter (\<lambda>c. length c = length b) small_contents)"
      by (simp only: map_map comp_def bytes_of_text_of list.map_ident length_hash_def digits_of_inject)
    moreover have "b = [1] \<or> b = [2, 3] \<or> b = [0, 0, 0] \<or> b = [0, 0, 0, 0]"
      using that by (simp add: small_contents_def)
    then have "concat (filter (\<lambda>c. length c = length b) small_contents) = b"
      unfolding small_contents_def by (elim disjE) (simp_all only: filter.simps list.size simp_thms if_True if_False concat.simps append.simps, simp_all)
    ultimately show ?thesis by simp
  qed
  have "inj_on length_hash (set small_contents)"
    by (simp add: small_contents_def length_hash_def inj_on_def)
  moreover have "fails small_world h c = None" if "can small_disk length_hash h c" for h c
    unfolding fails using that by (rule if_P)
  moreover have "fails small_world h (Os (Lstat p)) \<noteq> None \<and> fails small_world h (Os (Stat p)) \<noteq> None"
    if "disk_after small_disk h (path_comps p) = None" for h p
    unfolding fails using absent [OF that] by simp
  ultimately show ?thesis
    unfolding obeys_def using texts chunks by blast
qed

theorem sent_is_received_witness:
  "\<forall>N. \<exists>s h1 h2. start_send small_world small_lib N (\<lambda>n. rev [0..<n]) ''/src/t'' ''/st'' demo_options [] = (Inr s, h1) \<and>
    receive small_world small_lib (\<lambda>n. [0..<n]) println (ticket_text small_lib (snd_ticket s)) ''/dst'' demo_options h1 = (Inr (), h2) \<and>
    disk_after small_disk h2 [''dst'', ''t'', ''d'', ''b''] = Some (File [2, 3])"
proof
  fix N
  let ?files = "[\<lparr>file_name = ''t/a'', file_path = ''/src/t/a''\<rparr>, \<lparr>file_name = ''t/d/b'', file_path = ''/src/t/d/b''\<rparr>]"
  have es: "collected length_hash two_files ?files = [(''t/a'', length_hash [1]), (''t/d/b'', length_hash [2, 3])]"
    by (simp add: collected_def small_collected)
  have send: "ready_to_send small_lib small_disk [] [''src''] ''t'' two_files ?files ''/st''"
    unfolding ready_to_send_def small_comps small_walk
    by (simp add: small_comps small_lib_def tree_at_def small_disk_def) (auto simp: two_files_def small_comps prefix_Cons)
  have receive: "ready_to_receive (disk_after small_disk []) ''/st'' ''/dst'' ''t'' (''.sendme-recv-'' @ length_hash [0, 0, 0])"
    unfolding ready_to_receive_def unused_def small_comps by (auto simp: small_disk_def small_comps prefix_Cons)
  have readable: "reads_back small_lib length_hash (collected length_hash two_files ?files)"
    unfolding es by (simp add: reads_back_def small_lib_def max_meta_size_def)
  have "slash \<notin> set (length_hash [0, 0, 0])"
    using plain_digits by (simp add: length_hash_def plain_def)
  from sent_is_received [OF small_world_obeys send _ receive this readable,
      where sched = "\<lambda>n. rev [0..<n]" and sched' = "\<lambda>n. [0..<n]" and opt = demo_options and opt' = demo_options and log = println and N = N]
  obtain s h1 h2 where "start_send small_world small_lib N (\<lambda>n. rev [0..<n]) ''/src/t'' ''/st'' demo_options [] = (Inr s, h1)"
    "receive small_world small_lib (\<lambda>n. [0..<n]) println (ticket_text small_lib (snd_ticket s)) ''/dst'' demo_options h1 = (Inr (), h2)"
    "\<forall>q b. disk_after small_disk h2 (path_comps ''/dst'' @ ''t'' # q) = Some (File b) \<longleftrightarrow> tree_get two_files q = Some (File b)"
    unfolding small_comps small_collected
    by (auto simp: small_lib_def small_contents_def small_collected demo_options_def atLeast0LessThan)
  moreover have "tree_get two_files [''d'', ''b''] = Some (File [2, 3])"
    by (simp add: two_files_def)
  ultimately show "\<exists>s h1 h2. start_send small_world small_lib N (\<lambda>n. rev [0..<n]) ''/src/t'' ''/st'' demo_options [] = (Inr s, h1) \<and>
    receive small_world small_lib (\<lambda>n. [0..<n]) println (ticket_text small_lib (snd_ticket s)) ''/dst'' demo_options h1 = (Inr (), h2) \<and>
    disk_after small_disk h2 [''dst'', ''t'', ''d'', ''b''] = Some (File [2, 3])"
    by (simp add: small_comps)
qed

end
