(* ===== verification/Spec2Isabelle.thy ===== *)
theory Spec2Isabelle
  imports Mains Catalog Delivery SendReceive
begin

text \<open>
  A model of go-iroh-examples: the programs under \<^verbatim>\<open>cmd/\<close>, each one \<^verbatim>\<open>main.go\<close>, and the catalog
  of them in \<^verbatim>\<open>internal/catalog\<close>.

  How the programs are modelled (theories Prelude, GoStrings, GoIO, Iroh, Streams). A program
  is a function of the history of the calls it has made: an operation of the iroh library,
  the blob and gossip libraries, the operating system or the file system is a constructor of
  \<^typ>\<open>call\<close>, and what it answers is given by a \<^typ>\<open>call world\<close>, an argument of every program,
  from the whole history before it. A theorem for every world therefore holds however the
  network, the peers and the file system behave. A Go error is a \<^typ>\<open>gerr\<close>; \<^verbatim>\<open>if err != nil\<close>,
  \<^verbatim>\<open>defer\<close>, ignored errors and loops are the combinators \<^const>\<open>go_try\<close>, \<^const>\<open>go_defer\<close>, \<^const>\<open>go_then\<close>
  and \<^const>\<open>go_loop\<close>. The pure parts (codecs, parsers, path arithmetic, stores) are plain
  functions. GoStrings, GoFlags and GoPath hold the functions of Go's standard library the
  programs use; Json and Base32 its JSON and base32.

  The programs.
  \<^item> Framing: \<^verbatim>\<open>go-iroh-framed-messages\<close> (length-prefixed frames, a chess exchange),
    \<^verbatim>\<open>go-iroh-datagram-frames\<close>, and \<^verbatim>\<open>sendMessage\<close> of \<^verbatim>\<open>go-iroh-datagram-vs-stream\<close>. Frames read
    back as written; what is read is bounded.
  \<^item> GossipKV: \<^verbatim>\<open>go-iroh-gossip-kv\<close>, a replicated store: the signed updates on the wire, the
    last-writer-wins rule, the node. Stores that hear the same updates agree.
  \<^item> SendmeCli, SendmeSend, SendmeReceive: \<^verbatim>\<open>go-iroh-sendme\<close>. The command line; the walk
    of the files, the import by a pool of workers (WorkerPool), the ticket, the serving loop;
    the receiver, which fetches, checks and exports. Names stay below the target directory,
    nothing is overwritten, everything temporary is removed.
  \<^item> Disk, Receiving, SendReceive: what a run of sendme leaves on the disk, computed from its history,
    with a calculus of weakest preconditions; what is sent is received, file by file.
  \<^item> Pipe, Dumbpipe: \<^verbatim>\<open>go-iroh-dumbpipe\<close>. Pipe has the handshake and the two-way copy as a
    step relation of its two goroutines; Dumbpipe its commands.
  \<^item> Gateway: \<^verbatim>\<open>go-iroh-blobs-gateway\<close>, an HTTP handler over blobs.
  \<^item> Catalog: \<^verbatim>\<open>internal/catalog\<close>, which reads the README and the examples' syntax trees.
  \<^item> CustomRouter: \<^verbatim>\<open>go-iroh-custom-router\<close>, handlers by protocol name, added and removed.
  \<^item> CustomTransport: \<^verbatim>\<open>go-iroh-custom-transport\<close>, an in-memory bus with bounded channels.
  \<^item> PathSelection: \<^verbatim>\<open>go-iroh-path-selection\<close>, the path selector and its log.
  \<^item> Qlog: \<^verbatim>\<open>go-iroh-qlog-tracing\<close>, trace sinks and the reader of JSON text sequences.
  \<^item> Automerge: \<^verbatim>\<open>go-iroh-automerge\<close>, the sync protocol over a stream.
  \<^item> Tickets: \<^verbatim>\<open>go-iroh-tickets\<close>, an envelope around an endpoint ticket.
  \<^item> GossipTopic: \<^verbatim>\<open>go-iroh-gossip-topic\<close>, the topic's nodes; waiting for a neighbour on a
    channel that is closed and replaced, as a step relation with its publisher.
  \<^item> Negotiation: \<^verbatim>\<open>go-iroh-alpn-negotiation\<close> and \<^verbatim>\<open>go-iroh-key-exchange\<close>.
  \<^item> WorkQueue: \<^verbatim>\<open>go-iroh-rpc-workqueue\<close>, jobs answered in whatever order they finish.
  \<^item> PublicEndpoint: \<^verbatim>\<open>go-iroh-public-endpoint\<close>, its command line, listener and dialer.
  \<^item> Docs: \<^verbatim>\<open>go-iroh-docs-sync\<close> and \<^verbatim>\<open>go-iroh-docs-live-sync\<close>.
  \<^item> BlobsStore, BlobFetch: \<^verbatim>\<open>go-iroh-blobs-store\<close> (tags, collection); \<^verbatim>\<open>go-iroh-blobs-transfer\<close>
    and \<^verbatim>\<open>go-iroh-blobs-ranges\<close>.
  \<^item> EchoPrograms: \<^verbatim>\<open>direct-echo\<close>, \<^verbatim>\<open>metrics\<close>, \<^verbatim>\<open>hooks\<close>, \<^verbatim>\<open>router-echo\<close>, \<^verbatim>\<open>memory-discovery\<close>,
    \<^verbatim>\<open>multi-alpn\<close>, \<^verbatim>\<open>ping\<close>, \<^verbatim>\<open>manual-incoming\<close>, \<^verbatim>\<open>source-validation\<close> and \<^verbatim>\<open>incoming-filter\<close>, and
    what they print over a network that carries what is written.
  \<^item> Telemetry: \<^verbatim>\<open>go-iroh-uni-streams\<close>, events encoded on unidirectional streams.
  \<^item> StreamPrograms: the second half of \<^verbatim>\<open>datagram-vs-stream\<close>, \<^verbatim>\<open>transport-tuning\<close>,
    \<^verbatim>\<open>stream-netconn\<close>, \<^verbatim>\<open>stream-listener\<close>, \<^verbatim>\<open>quic-surface\<close> and \<^verbatim>\<open>close-codes\<close>.
  \<^item> Graceful: \<^verbatim>\<open>go-iroh-graceful-shutdown\<close>, whose handler's channels are a step relation.
  \<^item> Lookups: \<^verbatim>\<open>address-filtering\<close>, \<^verbatim>\<open>pkarr-publish-resolve\<close>, \<^verbatim>\<open>dns-resolve\<close>, \<^verbatim>\<open>pkarr-packet\<close>,
    \<^verbatim>\<open>addresses\<close> and \<^verbatim>\<open>keys\<close>.
  \<^item> Durations, Relays: Go's \<^verbatim>\<open>time.Duration\<close>; \<^verbatim>\<open>local-infra\<close>, \<^verbatim>\<open>path-upgrade\<close>,
    \<^verbatim>\<open>relay-limits\<close>, \<^verbatim>\<open>doctor\<close>, \<^verbatim>\<open>net-report\<close> and \<^verbatim>\<open>relay-online\<close>, which share test servers and the
    wait for a direct path.
  \<^item> Watching: \<^verbatim>\<open>go-iroh-watch-observer\<close> and \<^verbatim>\<open>go-iroh-mdns-discovery\<close>; Delivery shows whole
    runs of the programs whose peers have to be found first.
  \<^item> Mains: \<^verbatim>\<open>main\<close> of each program, and what holds when its process exits.

  How they meet. Every program stands on GoIO and Iroh; \<^verbatim>\<open>bind\<close>, \<^verbatim>\<open>echo\<close>, \<^verbatim>\<open>exchange\<close> and
  \<^verbatim>\<open>selectedPathKind\<close>, which each program repeats word for word, are defined once, in Iroh, and
  each program that calls them calls its own copy, an abbreviation under the program's name
  (\<open>neg_bind\<close>, \<open>kx_exchange\<close>). The logics of GoIO
  carry the proofs: \<^const>\<open>owns\<close> and \<^const>\<open>drops\<close> for what is opened and released on every path,
  \<^const>\<open>always\<close> for what holds of each event and its past, \<^const>\<open>returns\<close>, \<^const>\<open>says\<close> and \<^const>\<open>tells\<close> for
  runs without error and what they print. The locale \<open>discipline\<close> (Iroh) is the scheme \<open>open, defer
  the release, go on\<close>; it is interpreted for endpoints, store and temporary directories, local and
  served connections, publishers and test servers.

  What is assumed. Cryptography, ticket formats, the blob store's formats, the document
  library and the parser of Go are parameters; where a theorem relies on one, the law it
  relies on is a hypothesis of its own and is met in the witness. Loops that serve until
  they are stopped take a number of rounds, and \<^const>\<open>ErrFuel\<close> marks a run that was cut off;
  the theorems about the pool, the copy and the sync conversation show that a bounded number
  of rounds is enough. Goroutines that share nothing but the network run where the program
  waits for them; those that share state (the worker pool, the two copies of a pipe, the wait for a
  neighbour and its publisher, the handler that is shut down) are
  step relations, and their theorems hold for every interleaving.

  Not modelled: the copies of the repeated functions in programs that get their endpoints, their
  handler, their flag or the name of a path from a scheme the programs share here
  (\<open>with_endpoints\<close>, \<open>with_router\<close>, \<open>accept_echo\<close>, \<open>with_live\<close>, \<open>say_path\<close>), beyond the first; how long a
  timeout lasts (a context that ends is an answer of the world); the texts of
  errors of the standard library where they only end up in a message; the tests.
\<close>

section \<open>Across the programs\<close>

lemmas main_defs = kv_main_def frames_main_def router_main_def transport_main_def path_main_def qlog_main_def tickets_main_def
    topic_main_def negotiation_main_def key_exchange_main_def workqueue_main_def docs_main_def direct_main_def
    metrics_main_def hooks_main_def manual_main_def validation_main_def uni_main_def dvs_main_def tuning_main_def
    netconn_main_def listener_main_def quic_main_def close_main_def transfer_main_def ranges_main_def
    upgrade_main_def doctor_main_def net_report_main_def relay_online_main_def infra_main_def watch_main_def
    mdns_main_def

text \<open>
  The programs that make a router and do not release the endpoint where that fails give it back
  where the router can be made; in the live-sync program the blob store too.
\<close>

lemma router_programs_close:
  assumes "routers_start W"
  shows "exits_closed (gateway_main W L G) \<and> exits_closed (automerge_main W A fuel) \<and>
    exits_closed (router_echo_main W) \<and> exits_closed (ping_main W) \<and> exits_closed (multi_main W) \<and>
    exits_closed (memory_main W) \<and> exits_closed (filter_main W)"
  using assms unfolding gateway_main_def automerge_main_def router_echo_main_def ping_main_def multi_main_def memory_main_def filter_main_def
  by (simp add: plain_main_closed owns_gateway_run owns_am_run owns_echo_routers)

lemma live_sync_closes:
  assumes "live_starts W"
  shows "exits_closed (live_sync_main W view fuel)"
  using assms by (simp add: live_sync_main_def plain_main_closed owns_dl_run)

text \<open>C1.
  Whatever the network, the peers, the operating system and the command line do, and on
  whichever path a process exits, whatever its exit code, it has shut down every endpoint it bound: the file
  transfer, the key-value store, the pipe, the datagram program, the router, the custom
  transport, the path selection, the tracing and the ticket programs, the gossip topic, the
  two negotiations, the work queue, the public endpoint, the document sync, the blob store, the
  fetching of a blob whole and in ranges, the examples with a relay, the two that watch, and those
  of EchoPrograms (without a router), Telemetry and StreamPrograms.
\<close>

theorem programs_close_their_endpoints:
  "exits_closed (sendme_main (sendme_run W L N sched order fuel ncpu args)) \<and>
   exits_closed (kv_main W C fuel) \<and>
   exits_closed (dp_main (dp_run W T N' fuel up args)) \<and>
   exits_closed (frames_main W) \<and>
   exits_closed (router_main W fuel) \<and>
   exits_closed (transport_main W paths) \<and>
   exits_closed (path_main W A paths watched offered) \<and>
   exits_closed (qlog_main W snk E fuel) \<and>
   exits_closed (tickets_main W D kind) \<and>
   exits_closed (topic_main W events fuel) \<and>
   exits_closed (negotiation_main W fuel) \<and>
   exits_closed (key_exchange_main W P fuel) \<and>
   exits_closed (workqueue_main W answer finished) \<and>
   exits_closed (pe_main W fuel args) \<and>
   exits_closed (docs_main W view results) \<and>
   exits_closed (bs_main W V args) \<and>
   exits_closed (direct_main W) \<and>
   exits_closed (metrics_main W) \<and>
   exits_closed (hooks_main W hooked) \<and>
   exits_closed (manual_main W) \<and>
   exits_closed (validation_main W) \<and>
   exits_closed (uni_main W bad) \<and>
   exits_closed (dvs_main W fuel) \<and>
   exits_closed (tuning_main W) \<and>
   exits_closed (netconn_main W) \<and>
   exits_closed (listener_main W) \<and>
   exits_closed (quic_main W cause) \<and>
   exits_closed (close_main W cause) \<and>
   exits_closed (transfer_main W args) \<and>
   exits_closed (ranges_main W piece chunk) \<and>
   exits_closed (upgrade_main W R fuel) \<and>
   exits_closed (limits_main W R fuel args) \<and>
   exits_closed (doctor_main W R fuel args) \<and>
   exits_closed (net_report_main W R fuel args) \<and>
   exits_closed (relay_online_main W R args) \<and>
   exits_closed (infra_main W R fuel items) \<and>
   exits_closed (watch_main W O' fuel) \<and>
   exits_closed (mdns_main W R M)"
  unfolding main_defs
  by (intro conjI plain_main_closed flag_main_closed sendme_main_closed dp_main_closed pe_main_closed bs_main_closed
      limits_main_closed owns_sendme_run owns_kv_run owns_dp_run owns_dgram_run owns_router_run owns_ct_run owns_path_run owns_qlog_run
      owns_tickets_run owns_topic_run owns_neg_run owns_kx_run owns_wq_run owns_ds_run owns_direct_run
      owns_metrics_run owns_hooks_run owns_manual_run owns_validation_run owns_uni_run owns_dvs_run owns_tuning_run
      owns_netconn_run owns_listener_run owns_quic_run owns_close_run owns_bt_run owns_br_run owns_pu_run
      owns_doctor_run owns_net_report_run owns_relay_online_run owns_infra_run owns_watch_run owns_md_run)

end
